(* ===== verification/Prelude.thy ===== *)
theory Prelude
  imports Main "HOL-Library.Word" "HOL-Library.AList" "HOL-Library.Multiset"
    "HOL-Library.Char_ord" "HOL-Library.List_Lexorder"
begin

text \<open>
  Shared vocabulary of the development: the machine types of the C++ sources, the outcomes of
  C++ code (a value, an exception, or undefined behaviour made explicit), memory reads that are
  checked against the size of the object read, byte-order conversions, and the decimal and
  hexadecimal renderings that \<open>std::to_string\<close> and the output streams produce.
\<close>

section \<open>Machine types\<close>

type_synonym byte = "8 word"
type_synonym u16 = "16 word"
type_synonym u32 = "32 word"
type_synonym u64 = "64 word"
type_synonym size_t = "64 word"

named_theorems outcome_simps
  \<comment> \<open>unfolds sequencing of outcomes\<close>
named_theorems size_arith
  \<comment> \<open>moves \<open>size_t\<close> comparisons and sums to natural numbers\<close>

section \<open>Outcomes of C++ code\<close>

datatype exn =
    Out_Of_Range string
  | Runtime_Error string
  | Invalid_Argument string
  | Yaml_Exception string
  | Bad_Variant_Access string

text \<open>
  \<open>Null_Deref\<close> and \<open>Out_Of_Bounds\<close> stand for undefined behaviour of the
  source (a null pointer followed, memory read outside its object), as do \<open>Bad_Free\<close> (memory
  released that is not allocated) \<open>Dead_Object\<close> (a variable used outside its lifetime)
  and \<open>Bad_Conversion\<close> (a floating-point number converted to an integer type that cannot hold it);
  \<open>Throw\<close> is a C++ exception.
\<close>

datatype fault =
    Null_Deref
  | Out_Of_Bounds
  | Indeterminate_Read
  | Bad_Free
  | Dead_Object
  | Bad_Conversion
  | Throw exn

type_synonym 'a outcome = "fault + 'a"

definition obind :: "'a outcome \<Rightarrow> ('a \<Rightarrow> 'b outcome) \<Rightarrow> 'b outcome" where
  "obind m k = (case m of Inl e \<Rightarrow> Inl e | Inr x \<Rightarrow> k x)"

lemma obind_Inl [simp, outcome_simps]: "obind (Inl e) k = Inl e"
  by (simp add: obind_def)

lemma obind_Inr [simp, outcome_simps]: "obind (Inr x) k = k x"
  by (simp add: obind_def)

lemma obind_eq_Inr [outcome_simps]: "obind m k = Inr y \<longleftrightarrow> (\<exists>x. m = Inr x \<and> k x = Inr y)"
  by (cases m) auto

lemma obind_eq_Inl: "obind m k = Inl e \<longleftrightarrow> m = Inl e \<or> (\<exists>x. m = Inr x \<and> k x = Inl e)"
  by (cases m) auto

lemma obind_assoc: "obind (obind m k) l = obind m (\<lambda>x. obind (k x) l)"
  by (cases m) auto

definition ofold :: "('a \<Rightarrow> 's \<Rightarrow> 's outcome) \<Rightarrow> 'a list \<Rightarrow> 's \<Rightarrow> 's outcome" where
  "ofold f xs s = foldl (\<lambda>r x. obind r (f x)) (Inr s) xs"

lemma foldl_obind_Inl [simp]: "foldl (\<lambda>r x. obind r (f x)) (Inl e) xs = Inl e"
  by (induction xs) auto

lemma ofold_Nil [simp]: "ofold f [] s = Inr s"
  by (simp add: ofold_def)

lemma ofold_Cons [simp]: "ofold f (x # xs) s = obind (f x s) (ofold f xs)"
  by (cases "f x s") (simp_all add: ofold_def)

lemma ofold_append: "ofold f (xs @ ys) s = obind (ofold f xs s) (ofold f ys)"
  by (induction xs arbitrary: s) (auto simp: obind_assoc fun_eq_iff intro!: arg_cong [where f = "obind _"])

text \<open>An invariant of every step is an invariant of the whole run.\<close>

lemma ofold_invariant:
  assumes "ofold f xs s = Inr t" and "P s"
    and "\<And>x s t. x \<in> set xs \<Longrightarrow> P s \<Longrightarrow> f x s = Inr t \<Longrightarrow> P t"
  shows "P t"
  using assms
proof (induction xs arbitrary: s)
  case Nil
  then show ?case by simp
next
  case (Cons x xs)
  then obtain u where u: "f x s = Inr u" "ofold f xs u = Inr t"
    by (auto simp: obind_eq_Inr)
  show ?case
  proof (rule Cons.IH [OF u(2)])
    show "P u" using Cons.prems(2,3) u(1) by auto
  qed (use Cons.prems(3) in auto)
qed

section \<open>Runs that may not return\<close>

text \<open>\<open>None\<close> is a call that never returns; it is also what a caller of such a call does.\<close>

type_synonym 'a run = "'a outcome option"

definition rbind :: "'a run \<Rightarrow> ('a \<Rightarrow> 'b run) \<Rightarrow> 'b run" where
  "rbind m k = (case m of None \<Rightarrow> None | Some (Inl e) \<Rightarrow> Some (Inl e) | Some (Inr x) \<Rightarrow> k x)"

lemma rbind_simps [simp, outcome_simps]:
  "rbind None k = None" "rbind (Some (Inl e)) k = Some (Inl e)" "rbind (Some (Inr x)) k = k x"
  by (simp_all add: rbind_def)

lemma rbind_assoc: "rbind (rbind m k) l = rbind m (\<lambda>x. rbind (k x) l)"
  by (auto simp: rbind_def split: option.splits sum.splits)

lemma rbind_eq_Inr [outcome_simps]:
  "rbind m k = Some (Inr y) \<longleftrightarrow> (\<exists>x. m = Some (Inr x) \<and> k x = Some (Inr y))"
  by (auto simp: rbind_def split: option.splits sum.splits)

text \<open>A loop that appends what each element contributes to a vector.\<close>

primrec collect :: "('a \<Rightarrow> 'b list run) \<Rightarrow> 'a list \<Rightarrow> 'b list \<Rightarrow> 'b list run" where
  "collect g [] out = Some (Inr out)"
| "collect g (x # xs) out = rbind (g x) (\<lambda>new. collect g xs (out @ new))"

lemma collect_eq_Inr:
  "collect g xs out = Some (Inr r) \<longleftrightarrow>
    (\<exists>h. (\<forall>x \<in> set xs. g x = Some (Inr (h x))) \<and> r = out @ concat (map h xs))"
proof (induction xs arbitrary: out)
  case (Cons x xs)
  show ?case
  proof
    assume "collect g (x # xs) out = Some (Inr r)"
    then obtain new where new: "g x = Some (Inr new)" "collect g xs (out @ new) = Some (Inr r)"
      by (auto simp: rbind_eq_Inr)
    from new(2) Cons.IH obtain h where h: "\<forall>x \<in> set xs. g x = Some (Inr (h x))"
      "r = (out @ new) @ concat (map h xs)" by metis
    define h' where "h' = (\<lambda>y. if y = x then new else h y)"
    have "\<forall>y \<in> set (x # xs). g y = Some (Inr (h' y))"
      using h(1) new(1) by (auto simp: h'_def)
    moreover have "concat (map h' xs) = concat (map h xs)"
      using h(1) new(1) by (intro arg_cong [where f = concat] map_cong) (auto simp: h'_def)
    moreover have "h' x = new" by (simp add: h'_def)
    ultimately show "\<exists>h. (\<forall>x \<in> set (x # xs). g x = Some (Inr (h x))) \<and> r = out @ concat (map h (x # xs))"
      using h(2) by (intro exI [of _ h'] conjI) (simp_all only: list.map concat.simps append_assoc)
  next
    assume "\<exists>h. (\<forall>x \<in> set (x # xs). g x = Some (Inr (h x))) \<and> r = out @ concat (map h (x # xs))"
    then show "collect g (x # xs) out = Some (Inr r)" using Cons.IH by auto
  qed
qed auto

lemma collect_ok:
  "\<forall>x \<in> set xs. g x = Some (Inr (h x)) \<Longrightarrow> collect g xs out = Some (Inr (out @ concat (map h xs)))"
  by (induction xs arbitrary: out) auto

lemma collect_fault:
  assumes "\<forall>x \<in> set xs. g x = Some (Inl e) \<or> (\<exists>r. g x = Some (Inr r))" and "\<exists>x \<in> set xs. g x = Some (Inl e)"
  shows "collect g xs out = Some (Inl e)"
  using assms by (induction xs arbitrary: out) fastforce+

lemma collect_total: "\<forall>x \<in> set xs. \<exists>r. g x = Some (Inr r) \<Longrightarrow> \<exists>r. collect g xs out = Some (Inr r)"
  by (induction xs arbitrary: out) fastforce+

lemma length_concat_filter: "length (concat (map g (filter P xs))) \<le> length (concat (map g xs))"
  by (induction xs) simp_all

section \<open>Sizes\<close>

lemma unat_of_nat_less: "n < 2 ^ LENGTH('a) \<Longrightarrow> unat (of_nat n :: 'a::len word) = n"
  by (simp add: unsigned_of_nat take_bit_nat_eq_self)

lemma size_add_nat [size_arith]:
  fixes a b :: size_t
  shows "unat a + unat b < 2 ^ 64 \<Longrightarrow> unat (a + b) = unat a + unat b"
  by (simp add: unat_word_ariths)

lemma size_le_nat [size_arith]: "(a :: 'a::len word) \<le> b \<longleftrightarrow> unat a \<le> unat b"
  by (rule word_le_nat_alt)

lemma size_less_nat [size_arith]: "(a :: 'a::len word) < b \<longleftrightarrow> unat a < unat b"
  by (rule word_less_nat_alt)

lemma size_sub_nat: "(b :: size_t) \<le> a \<Longrightarrow> unat (a - b) = unat a - unat b"
  by (rule unat_sub)

lemma size_sub_wrap:
  fixes a b :: size_t
  assumes "unat a < unat b"
  shows "unat (a - b) = 2 ^ 64 - (unat b - unat a)"
  using assms by (simp add: unat_sub_if_size word_le_nat_alt word_size)

lemma unat_mod_u16 [simp]: "unat (w :: u16) mod 65536 = unat w"
proof -
  have "unat w < 2 ^ LENGTH(16)" by (rule unsigned_less)
  then show ?thesis by simp
qed

lemma unat_mod_u32 [simp]: "unat (w :: u32) mod 4294967296 = unat w"
proof -
  have "unat w < 2 ^ LENGTH(32)" by (rule unsigned_less)
  then show ?thesis by simp
qed

lemma size_of_nat [size_arith]: "n < 2 ^ 64 \<Longrightarrow> unat (of_nat n :: size_t) = n"
  by (simp add: unat_of_nat_less)

lemma size_of_nat_0: "n < 2 ^ 64 \<Longrightarrow> (of_nat n :: size_t) = 0 \<longleftrightarrow> n = 0"
  by (auto simp: word_unat_eq_iff size_of_nat)

section \<open>Memory reads\<close>

text \<open>
  \<open>std::memcpy(&v, data + off, n)\<close> from an object of \<open>length d\<close> bytes. Reading past
  the end of the object is undefined behaviour and is reported as such.
\<close>

definition mem_read :: "byte list \<Rightarrow> size_t \<Rightarrow> nat \<Rightarrow> byte list outcome" where
  "mem_read d off n =
     (if unat off + n \<le> length d then Inr (take n (drop (unat off) d)) else Inl Out_Of_Bounds)"

lemma mem_read_ok: "unat off + n \<le> length d \<Longrightarrow> mem_read d off n = Inr (take n (drop (unat off) d))"
  by (simp add: mem_read_def)

lemma mem_read_length: "mem_read d off n = Inr bs \<Longrightarrow> length bs = n"
  by (auto simp: mem_read_def split: if_splits)

section \<open>Byte order\<close>

text \<open>
  The sources copy wire bytes into integers with \<open>std::memcpy\<close>. The host is little
  endian (x86-64 and AArch64 Linux, where libpcap and epoll builds run): \<open>le_val\<close> is the
  value of an integer object whose bytes are given in address order, and \<open>ntohs\<close>,
  \<open>ntohl\<close> reverse the bytes of their argument.
\<close>

primrec le_val :: "byte list \<Rightarrow> nat" where
  "le_val [] = 0"
| "le_val (b # bs) = unat b + 256 * le_val bs"

definition be_val :: "byte list \<Rightarrow> nat" where
  "be_val bs = le_val (rev bs)"

primrec le_bytes :: "nat \<Rightarrow> nat \<Rightarrow> byte list" where
  "le_bytes 0 v = []"
| "le_bytes (Suc n) v = of_nat v # le_bytes n (v div 256)"

definition ntohs :: "u16 \<Rightarrow> u16" where
  "ntohs w = of_nat (le_val (rev (le_bytes 2 (unat w))))"

definition ntohl :: "u32 \<Rightarrow> u32" where
  "ntohl w = of_nat (le_val (rev (le_bytes 4 (unat w))))"

lemma length_le_bytes [simp]: "length (le_bytes n v) = n"
  by (induction n arbitrary: v) auto

lemma unat_byte_less [simp]: "unat (b :: byte) < 256"
proof -
  have "unat b < 2 ^ LENGTH(8)" by (rule unsigned_less)
  then show ?thesis by simp
qed

lemma le_val_less: "le_val bs < 256 ^ length bs"
proof (induction bs)
  case (Cons b bs)
  have "unat b + 256 * le_val bs < 256 * Suc (le_val bs)"
    using unat_byte_less [of b] by simp
  also have "\<dots> \<le> 256 * 256 ^ length bs"
    using Cons.IH by (intro mult_le_mono) auto
  finally show ?case by simp
qed simp

lemma be_val_less: "be_val bs < 256 ^ length bs"
  using le_val_less [of "rev bs"] by (simp add: be_val_def)

lemma unat_of_nat_byte [simp]: "unat (of_nat v :: byte) = v mod 256"
  by (simp add: unsigned_of_nat take_bit_eq_mod)

lemma le_bytes_val [simp]: "length bs = n \<Longrightarrow> le_bytes n (le_val bs) = bs"
proof (induction bs arbitrary: n)
  case (Cons b bs)
  have "(of_nat (unat b + 256 * le_val bs) :: byte) = b"
    by (simp add: word_unat_eq_iff del: of_nat_add of_nat_mult)
  moreover have "(unat b + 256 * le_val bs) div 256 = le_val bs"
    by simp
  ultimately show ?case using Cons by (auto simp del: of_nat_add of_nat_mult)
qed simp

lemma le_val_bytes [simp]: "le_val (le_bytes n v) = v mod 256 ^ n"
proof (induction n arbitrary: v)
  case (Suc n)
  have "v mod (256 * 256 ^ n) = v mod 256 + 256 * (v div 256 mod 256 ^ n)"
    by (simp add: mod_mult2_eq)
  with Suc show ?case by simp
qed simp

lemma le_bytes_mod [simp]: "le_bytes n (v mod 256 ^ n) = le_bytes n v"
  by (metis le_bytes_val le_val_bytes length_le_bytes)

text \<open>Converting a copied network-order integer yields its big-endian value.\<close>

lemma ntohs_load [simp]:
  assumes "length bs = 2"
  shows "ntohs (of_nat (le_val bs)) = of_nat (be_val bs)"
proof -
  have "le_val bs < 2 ^ 16"
    using le_val_less [of bs] assms by simp
  then have "unat (of_nat (le_val bs) :: u16) = le_val bs"
    by (simp add: unat_of_nat_less)
  with assms show ?thesis by (simp add: ntohs_def be_val_def)
qed

lemma ntohl_load [simp]:
  assumes "length bs = 4"
  shows "ntohl (of_nat (le_val bs)) = of_nat (be_val bs)"
proof -
  have "le_val bs < 2 ^ 32"
    using le_val_less [of bs] assms by simp
  then have "unat (of_nat (le_val bs) :: u32) = le_val bs"
    by (simp add: unat_of_nat_less)
  with assms show ?thesis by (simp add: ntohl_def be_val_def)
qed

text \<open>Network-order encodings, the inverse direction, used to state round trips.\<close>

definition be_bytes :: "nat \<Rightarrow> nat \<Rightarrow> byte list" where
  "be_bytes n v = rev (le_bytes n v)"

lemma length_be_bytes [simp]: "length (be_bytes n v) = n"
  by (simp add: be_bytes_def)

lemma be_val_bytes [simp]: "be_val (be_bytes n v) = v mod 256 ^ n"
  by (simp add: be_bytes_def be_val_def)

lemma be_bytes_val [simp]: "length bs = n \<Longrightarrow> be_bytes n (be_val bs) = bs"
  by (simp add: be_bytes_def be_val_def)

section \<open>Decimal and hexadecimal text\<close>

definition digit_char :: "nat \<Rightarrow> char" where
  "digit_char d = char_of (if d < 10 then 48 + d else 87 + d)"

fun show_nat :: "nat \<Rightarrow> string" where
  "show_nat n = (if n < 10 then [digit_char n] else show_nat (n div 10) @ [digit_char (n mod 10)])"

declare show_nat.simps [simp del]

definition show_int :: "int \<Rightarrow> string" where
  "show_int i = (if i < 0 then CHR ''-'' # show_nat (nat (- i)) else show_nat (nat i))"

definition hex_byte :: "byte \<Rightarrow> string" where
  "hex_byte b = [digit_char (unat b div 16), digit_char (unat b mod 16)]"

definition read_nat :: "string \<Rightarrow> nat" where
  "read_nat s = foldl (\<lambda>a c. 10 * a + (of_char c - 48)) 0 s"

definition is_digit :: "char \<Rightarrow> bool" where
  "is_digit c \<longleftrightarrow> 48 \<le> (of_char c :: nat) \<and> (of_char c :: nat) \<le> 57"

lemma of_digit_char [simp]: "d < 10 \<Longrightarrow> (of_char (digit_char d) :: nat) = 48 + d"
  by (simp add: digit_char_def)

lemma is_digit_digit_char [simp]: "d < 10 \<Longrightarrow> is_digit (digit_char d)"
  by (simp add: is_digit_def)

lemma read_nat_snoc: "read_nat (s @ [c]) = 10 * read_nat s + (of_char c - 48)"
  by (simp add: read_nat_def)

lemma read_show_nat [simp]: "read_nat (show_nat n) = n"
proof (induction n rule: show_nat.induct)
  case (1 n)
  then show ?case
    by (subst show_nat.simps) (auto simp: read_nat_snoc, simp add: read_nat_def)
qed

lemma show_nat_inject [simp]: "show_nat m = show_nat n \<longleftrightarrow> m = n"
  by (metis read_show_nat)

lemma show_nat_digits: "c \<in> set (show_nat n) \<Longrightarrow> is_digit c"
proof (induction n rule: show_nat.induct)
  case (1 n)
  then show ?case by (subst (asm) (2) show_nat.simps) (auto split: if_splits)
qed

lemma show_nat_nonempty [simp]: "show_nat n \<noteq> []"
  by (subst show_nat.simps) simp

lemma show_nat_not_in: "\<not> is_digit c \<Longrightarrow> c \<notin> set (show_nat n)"
  using show_nat_digits by blast

section \<open>Text helpers\<close>

definition starts_with :: "string \<Rightarrow> string \<Rightarrow> bool" where
  "starts_with p s \<longleftrightarrow> take (length p) s = p"

lemma starts_with_append [simp]: "starts_with p (p @ s)"
  by (simp add: starts_with_def)

text \<open>\<open>std::setw(n)\<close> with a fill character, right- and left-adjusted.\<close>

definition pad_left :: "char \<Rightarrow> nat \<Rightarrow> string \<Rightarrow> string" where
  "pad_left c n s = replicate (n - length s) c @ s"

definition pad_right :: "char \<Rightarrow> nat \<Rightarrow> string \<Rightarrow> string" where
  "pad_right c n s = s @ replicate (n - length s) c"

lemma length_pad_left [simp]: "length (pad_left c n s) = max n (length s)"
  by (simp add: pad_left_def)

lemma length_pad_right [simp]: "length (pad_right c n s) = max n (length s)"
  by (simp add: pad_right_def)

end
