(* ===== verification/Command_Line.thy ===== *)
theory Command_Line
  imports Prelude
begin

text \<open>
  \<^verbatim>\<open>CommandLine\<close> (\<^verbatim>\<open>src/cli/CommandLine.cpp\<close>) and the conversion of text to
  numbers the commands use. The argument vector is the list \<open>argv\<close> of length \<open>argc\<close>.
\<close>

record command_line =
  cl_command :: string
  cl_options :: "(string \<times> string) list"

text \<open>The loop from \<open>argv[2]\<close>; a token that is no option and no option's value is skipped.\<close>

fun parse_options :: "string list \<Rightarrow> (string \<times> string) list \<Rightarrow> (string \<times> string) list" where
  "parse_options [] m = m"
| "parse_options [arg] m =
     (if starts_with ''--'' arg then AList.update (drop 2 arg) [] m else m)"
| "parse_options (arg # v # rest) m =
     (if starts_with ''--'' arg
      then if \<not> starts_with ''--'' v
           then parse_options rest (AList.update (drop 2 arg) v m)
           else parse_options (v # rest) (AList.update (drop 2 arg) [] m)
      else parse_options (v # rest) m)"

definition parse_args :: "string list \<Rightarrow> command_line option" where
  "parse_args argv =
     (if length argv < 2 then None
      else Some \<lparr>cl_command = argv ! 1, cl_options = parse_options (drop 2 argv) []\<rparr>)"

definition get_option :: "command_line \<Rightarrow> string \<Rightarrow> string option" where
  "get_option c k = map_of (cl_options c) k"

definition get_or :: "command_line \<Rightarrow> string \<Rightarrow> string \<Rightarrow> string" where
  "get_or c k d = (case map_of (cl_options c) k of Some v \<Rightarrow> v | None \<Rightarrow> d)"

section \<open>Round trip\<close>

text \<open>How a user writes options down; an empty value is left out.\<close>

primrec render_options :: "(string \<times> string) list \<Rightarrow> string list" where
  "render_options [] = []"
| "render_options (kv # opts) =
     (''--'' @ fst kv) # (if snd kv = [] then [] else [snd kv]) @ render_options opts"

definition plain_value :: "string \<Rightarrow> bool" where
  "plain_value v \<longleftrightarrow> \<not> starts_with ''--'' v"

lemma dashes [simp]: "starts_with ''--'' (CHR ''-'' # CHR ''-'' # s)"
  by (simp add: starts_with_def)

lemma parse_rendered:
  assumes "\<And>k v. (k, v) \<in> set opts \<Longrightarrow> plain_value v"
  shows "parse_options (render_options opts) m = foldl (\<lambda>m (k, v). AList.update k v m) m opts"
  using assms
proof (induction opts arbitrary: m)
  case (Cons kv opts)
  obtain k v where kv: "kv = (k, v)" by (cases kv)
  have IH: "parse_options (render_options opts) m' = foldl (\<lambda>m (k, v). AList.update k v m) m' opts" for m'
    using Cons by auto
  show ?case
  proof (cases "v = []")
    case False
    then have "\<not> starts_with ''--'' v" using Cons.prems [of k v] by (simp add: kv plain_value_def)
    with False IH show ?thesis by (simp add: kv)
  next
    case True
    then show ?thesis
      using IH by (cases opts) (simp_all add: kv)
  qed
qed simp

lemma foldl_update_lookup:
  "map_of (foldl (\<lambda>m (k, v). AList.update k v m) m opts) k =
    (case map_of (rev opts) k of Some v \<Rightarrow> Some v | None \<Rightarrow> map_of m k)"
  by (induction opts arbitrary: m) (auto simp: update_conv' map_add_def split: option.split)

text \<open>C38: Command lines read back: for any program name, command and list of options whose values do
  not themselves begin with two dashes, parsing the written form yields the command, and looking
  an option up yields the value of its last occurrence, or nothing (the default) if it has none.\<close>

theorem command_line_roundtrip:
  assumes "\<forall>(k, v) \<in> set opts. plain_value v"
  shows "\<exists>c. parse_args (prog # cmd # render_options opts) = Some c \<and> cl_command c = cmd \<and>
    (\<forall>k. get_option c k = map_of (rev opts) k) \<and>
    (\<forall>k d. get_or c k d = (case map_of (rev opts) k of Some v \<Rightarrow> v | None \<Rightarrow> d))"
proof -
  have "parse_options (render_options opts) [] = foldl (\<lambda>m (k, v). AList.update k v m) [] opts"
    by (rule parse_rendered) (use assms in auto)
  then show ?thesis
    by (simp add: parse_args_def get_option_def get_or_def foldl_update_lookup split: option.split)
qed

theorem command_line_roundtrip_witness:
  "\<exists>c. parse_args [''gatewayforge'', ''replay'', ''--pcap'', ''a.pcap'', ''--fast'', ''--speed'', ''2'',
      ''--pcap'', ''b.pcap''] = Some c \<and> get_option c ''pcap'' = Some ''b.pcap'' \<and>
    get_or c ''fast'' ''no'' = [] \<and> get_or c ''transport'' ''tcp'' = ''tcp''"
proof -
  let ?opts = "[(''pcap'', ''a.pcap''), (''fast'', []), (''speed'', ''2''), (''pcap'', ''b.pcap'')]"
  have "\<forall>(k, v) \<in> set ?opts. plain_value v" by (simp add: plain_value_def starts_with_def)
  from command_line_roundtrip [OF this, of "''gatewayforge''" "''replay''"] show ?thesis by auto
qed

section \<open>std::stoi\<close>

definition is_space :: "char \<Rightarrow> bool" where
  "is_space c \<longleftrightarrow> c = CHR '' '' \<or> 9 \<le> (of_char c :: nat) \<and> (of_char c :: nat) \<le> 13"

definition stoi :: "string \<Rightarrow> int outcome" where
  "stoi s =
     (let t = dropWhile is_space s;
          neg = (t \<noteq> [] \<and> hd t = CHR ''-'');
          body = (if t \<noteq> [] \<and> (hd t = CHR ''-'' \<or> hd t = CHR ''+'') then drop 1 t else t);
          digits = takeWhile is_digit body;
          v = (if neg then - int (read_nat digits) else int (read_nat digits))
      in if digits = [] then Inl (Throw (Invalid_Argument ''stoi''))
         else if v < - 2147483648 \<or> v > 2147483647 then Inl (Throw (Out_Of_Range ''stoi''))
         else Inr v)"

lemma digit_not_space: "is_digit c \<Longrightarrow> \<not> is_space c \<and> c \<noteq> CHR ''-'' \<and> c \<noteq> CHR ''+''"
  by (auto simp: is_digit_def is_space_def)

lemma stoi_digits:
  "stoi (show_nat n) = (if n \<le> 2147483647 then Inr (int n) else Inl (Throw (Out_Of_Range ''stoi'')))"
proof -
  have digits: "\<forall>c \<in> set (show_nat n). is_digit c" using show_nat_digits by blast
  obtain c cs where c: "show_nat n = c # cs" by (cases "show_nat n") auto
  with digits have hd: "\<not> is_space c" "c \<noteq> CHR ''-''" "c \<noteq> CHR ''+''"
    using digit_not_space by auto
  have "takeWhile is_digit (show_nat n) = show_nat n" using digits by (simp add: takeWhile_eq_all_conv)
  then have "takeWhile is_digit (c # cs) = c # cs" by (simp add: c)
  moreover have "read_nat (c # cs) = n" using read_show_nat [of n] by (simp only: c)
  ultimately show ?thesis
    using hd by (simp add: stoi_def c Let_def)
qed

lemma stoi_show_nat: "n \<le> 2147483647 \<Longrightarrow> stoi (show_nat n) = Inr (int n)"
  by (simp add: stoi_digits)

lemma stoi_show_nat_large: "2147483647 < n \<Longrightarrow> stoi (show_nat n) = Inl (Throw (Out_Of_Range ''stoi''))"
  by (simp add: stoi_digits)

end
