(* ===== verification/Field_Types.thy ===== *)
theory Field_Types
  imports Prelude
begin

text \<open>
  Field types, field values and framing of the protocol description
  (\<^verbatim>\<open>include/gatewayforge/protocol/FieldType.h\<close>, \<^verbatim>\<open>FieldValue.h\<close>, \<^verbatim>\<open>Framing.h\<close>,
  \<^verbatim>\<open>ProtocolSchema.h\<close> and their sources).
\<close>

section \<open>Field types\<close>

datatype field_type = U8 | U16 | U32 | U64 | I8 | I16 | I32 | I64 | BYTES | STRING

fun field_type_size :: "field_type \<Rightarrow> size_t" where
  "field_type_size U8 = 1"
| "field_type_size I8 = 1"
| "field_type_size U16 = 2"
| "field_type_size I16 = 2"
| "field_type_size U32 = 4"
| "field_type_size I32 = 4"
| "field_type_size U64 = 8"
| "field_type_size I64 = 8"
| "field_type_size BYTES = 0"
| "field_type_size STRING = 0"

definition field_type_map :: "(string \<times> field_type) list" where
  "field_type_map = [(''u8'', U8), (''u16'', U16), (''u32'', U32), (''u64'', U64), (''i8'', I8),
     (''i16'', I16), (''i32'', I32), (''i64'', I64), (''bytes'', BYTES), (''string'', STRING)]"

definition field_type_from_string :: "string \<Rightarrow> field_type outcome" where
  "field_type_from_string name =
     (case map_of field_type_map name of
        Some t \<Rightarrow> Inr t
      | None \<Rightarrow> Inl (Throw (Runtime_Error (''Unknown field type: '' @ name))))"

primrec field_type_to_string :: "field_type \<Rightarrow> string" where
  "field_type_to_string U8 = ''u8''"
| "field_type_to_string U16 = ''u16''"
| "field_type_to_string U32 = ''u32''"
| "field_type_to_string U64 = ''u64''"
| "field_type_to_string I8 = ''i8''"
| "field_type_to_string I16 = ''i16''"
| "field_type_to_string I32 = ''i32''"
| "field_type_to_string I64 = ''i64''"
| "field_type_to_string BYTES = ''bytes''"
| "field_type_to_string STRING = ''string''"

definition is_variable :: "field_type \<Rightarrow> bool" where
  "is_variable t \<longleftrightarrow> t = BYTES \<or> t = STRING"

lemma field_type_size_le: "unat (field_type_size t) \<le> 8"
  by (cases t) simp_all

lemma field_type_size_pos: "\<not> is_variable t \<Longrightarrow> 0 < unat (field_type_size t)"
  by (cases t) (simp_all add: is_variable_def)

text \<open>Type names and types correspond one to one: exactly the ten names of
  the protocol language are accepted, each as the type that prints as that name, and every other
  string throws.\<close>

lemma field_type_names:
  "(field_type_from_string s = Inr t \<longleftrightarrow> s = field_type_to_string t) \<and>
   ((\<nexists>u. s = field_type_to_string u) \<longleftrightarrow>
     field_type_from_string s = Inl (Throw (Runtime_Error (''Unknown field type: '' @ s))))"
proof -
  have all: "field_type_from_string (field_type_to_string u) = Inr u" for u
    by (cases u) (simp_all add: field_type_from_string_def field_type_map_def)
  have "field_type_from_string s = Inr u \<Longrightarrow> s = field_type_to_string u" for u
    by (auto simp: field_type_from_string_def field_type_map_def split: if_splits)
  moreover have "(\<exists>u. field_type_from_string s = Inr u) \<or>
      field_type_from_string s = Inl (Throw (Runtime_Error (''Unknown field type: '' @ s)))"
    by (auto simp: field_type_from_string_def split: option.split)
  ultimately show ?thesis using all by (metis Inl_Inr_False)
qed

section \<open>Field values\<close>

text \<open>The alternatives of the variant; signed alternatives are words read with \<open>sint\<close>.\<close>

datatype field_value =
    VU8 byte
  | VU16 u16
  | VU32 u32
  | VU64 u64
  | VI8 byte
  | VI16 u16
  | VI32 u32
  | VI64 u64
  | VBytes "byte list"
  | VString string

primrec field_value_to_string :: "field_value \<Rightarrow> string" where
  "field_value_to_string (VU8 v) = show_nat (unat v)"
| "field_value_to_string (VU16 v) = show_nat (unat v)"
| "field_value_to_string (VU32 v) = show_nat (unat v)"
| "field_value_to_string (VU64 v) = show_nat (unat v)"
| "field_value_to_string (VI8 v) = show_int (sint v)"
| "field_value_to_string (VI16 v) = show_int (sint v)"
| "field_value_to_string (VI32 v) = show_int (sint v)"
| "field_value_to_string (VI64 v) = show_int (sint v)"
| "field_value_to_string (VBytes bs) = concat (map (\<lambda>b. hex_byte b @ '' '') bs)"
| "field_value_to_string (VString s) = s"

text \<open>
  The alternative a value holds, and \<open>As\<close>, which is \<open>std::get\<close> of the alternative that belongs to
  a field type: the value itself, or an exception if it holds another one.
\<close>

primrec value_type :: "field_value \<Rightarrow> field_type" where
  "value_type (VU8 v) = U8"
| "value_type (VU16 v) = U16"
| "value_type (VU32 v) = U32"
| "value_type (VU64 v) = U64"
| "value_type (VI8 v) = I8"
| "value_type (VI16 v) = I16"
| "value_type (VI32 v) = I32"
| "value_type (VI64 v) = I64"
| "value_type (VBytes bs) = BYTES"
| "value_type (VString s) = STRING"

definition value_as :: "field_type \<Rightarrow> field_value \<Rightarrow> field_value outcome" where
  "value_as t v = (if value_type v = t then Inr v
     else Inl (Throw (Bad_Variant_Access ''std::get: wrong index for variant'')))"

lemma value_as_own [simp]: "value_as (value_type v) v = Inr v"
  by (simp add: value_as_def)

lemma value_as_Inr: "value_as t v = Inr w \<longleftrightarrow> value_type v = t \<and> w = v"
  by (auto simp: value_as_def)

definition default_field_value :: field_value where
  "default_field_value = VU8 0"

section \<open>Framing and schema\<close>

datatype framing_type = LENGTH_FIELD | DATAGRAM

definition framing_type_from_string :: "string \<Rightarrow> framing_type outcome" where
  "framing_type_from_string name =
     (if name = ''length_field'' then Inr LENGTH_FIELD
      else if name = ''datagram'' then Inr DATAGRAM
      else Inl (Throw (Runtime_Error (''Unknown framing type: '' @ name))))"

record framing_config =
  fr_type :: framing_type
  fr_length_field :: string
  fr_header_len :: size_t
  fr_length_includes_header :: bool

definition new_framing :: framing_config where
  "new_framing = \<lparr>fr_type = DATAGRAM, fr_length_field = [], fr_header_len = 0,
     fr_length_includes_header = False\<rparr>"

record field_def =
  fd_name :: string
  fd_type :: field_type
  fd_const_value :: u64
  fd_has_const :: bool

definition new_field_def :: field_def where
  "new_field_def = \<lparr>fd_name = [], fd_type = U8, fd_const_value = 0, fd_has_const = False\<rparr>"

record payload_def =
  pd_length_from :: string

record protocol_schema =
  s_name :: string
  s_transport :: string
  s_endian :: string
  s_framing :: framing_config
  s_fields :: "field_def list"
  s_payload :: payload_def
  s_sequence_field :: string
  s_timestamp_field :: string
  s_device_id_field :: string

definition new_schema :: protocol_schema where
  "new_schema = \<lparr>s_name = [], s_transport = [], s_endian = [], s_framing = new_framing,
     s_fields = [], s_payload = \<lparr>pd_length_from = []\<rparr>, s_sequence_field = [],
     s_timestamp_field = [], s_device_id_field = []\<rparr>"

section \<open>The example schemas\<close>

text \<open>
  \<^verbatim>\<open>examples/schemas/vehicle-tcp.yaml\<close> and \<^verbatim>\<open>vehicle-udp.yaml\<close> as the loader reads
  them; instances for the theorems that follow.
\<close>

definition plain_field :: "string \<Rightarrow> field_type \<Rightarrow> field_def" where
  "plain_field n t = new_field_def\<lparr>fd_name := n, fd_type := t\<rparr>"

definition vehicle_tcp_schema :: protocol_schema where
  "vehicle_tcp_schema = new_schema\<lparr>s_name := ''vehicle_tcp_protocol'', s_transport := ''tcp'',
     s_endian := ''big'',
     s_framing := \<lparr>fr_type = LENGTH_FIELD, fr_length_field = ''payload_len'', fr_header_len = 10,
       fr_length_includes_header = False\<rparr>,
     s_fields := [(plain_field ''magic'' U16)\<lparr>fd_has_const := True, fd_const_value := 0xCAFE\<rparr>,
       plain_field ''version'' U8, plain_field ''msg_type'' U8, plain_field ''seq'' U32,
       plain_field ''payload_len'' U16],
     s_payload := \<lparr>pd_length_from = ''payload_len''\<rparr>, s_sequence_field := ''seq''\<rparr>"

definition vehicle_udp_schema :: protocol_schema where
  "vehicle_udp_schema = new_schema\<lparr>s_name := ''vehicle_udp_protocol'', s_transport := ''udp'',
     s_endian := ''big'', s_framing := new_framing,
     s_fields := [(plain_field ''magic'' U16)\<lparr>fd_has_const := True, fd_const_value := 0xCAFE\<rparr>,
       plain_field ''version'' U8, plain_field ''msg_type'' U8, plain_field ''device_id'' U64,
       plain_field ''seq'' U32, plain_field ''timestamp'' U64, plain_field ''payload_len'' U16],
     s_payload := \<lparr>pd_length_from = ''payload_len''\<rparr>, s_sequence_field := ''seq'',
     s_timestamp_field := ''timestamp'', s_device_id_field := ''device_id''\<rparr>"

lemma plain_field_simps [simp]:
  "fd_name (plain_field n t) = n" "fd_type (plain_field n t) = t"
  by (simp_all add: plain_field_def new_field_def_def)

end
