(* ===== verification/Results.thy ===== *)
theory Results
  imports Prelude
begin

text \<open>
  \<^verbatim>\<open>Result<T>\<close> (\<^verbatim>\<open>include/gatewayforge/common/Result.h\<close>). Both members exist in
  either case; an error carries the default value \<open>T{}\<close>, the parameter \<open>dflt\<close>.
\<close>

record 'a result =
  rs_value :: 'a
  rs_error :: string
  rs_has_value :: bool

definition ok :: "'a \<Rightarrow> 'a result" where
  "ok v = \<lparr>rs_value = v, rs_error = [], rs_has_value = True\<rparr>"

definition err :: "'a \<Rightarrow> string \<Rightarrow> 'a result" where
  "err dflt e = \<lparr>rs_value = dflt, rs_error = e, rs_has_value = False\<rparr>"

definition is_ok :: "'a result \<Rightarrow> bool" where
  "is_ok r \<longleftrightarrow> rs_has_value r"

definition is_err :: "'a result \<Rightarrow> bool" where
  "is_err r \<longleftrightarrow> \<not> rs_has_value r"

definition result_value :: "'a result \<Rightarrow> 'a" where
  [simp]: "result_value r = rs_value r"

definition result_error :: "'a result \<Rightarrow> string" where
  [simp]: "result_error r = rs_error r"

definition unwrap :: "'a result \<Rightarrow> 'a outcome" where
  "unwrap r = (if \<not> rs_has_value r then Inl (Throw (Runtime_Error (rs_error r))) else Inr (rs_value r))"

definition unwrap_or :: "'a result \<Rightarrow> 'a \<Rightarrow> 'a" where
  "unwrap_or r d = (if rs_has_value r then rs_value r else d)"

lemma ok_simps [simp]:
  "is_ok (ok v)" "\<not> is_err (ok v)" "unwrap (ok v) = Inr v" "unwrap_or (ok v) d = v" "rs_error (ok v) = []"
  by (simp_all add: ok_def is_ok_def is_err_def unwrap_def unwrap_or_def)

lemma err_simps [simp]:
  "\<not> is_ok (err z e)" "is_err (err z e)" "unwrap (err z e) = Inl (Throw (Runtime_Error e))"
  "unwrap_or (err z e) d = d" "rs_error (err z e) = e"
  by (simp_all add: err_def is_ok_def is_err_def unwrap_def unwrap_or_def)

lemma is_err_iff: "is_err r \<longleftrightarrow> \<not> is_ok r"
  by (simp add: is_ok_def is_err_def)

text \<open>A result is its value or its error: what a caller of \<open>unwrap\<close> sees.\<close>

lemma unwrap_cases: "unwrap r = (if is_ok r then Inr (rs_value r) else Inl (Throw (Runtime_Error (rs_error r))))"
  by (simp add: unwrap_def is_ok_def)

end
