(* ===== verification/Services.thy ===== *)
theory Services
  imports Prelude
begin

text \<open>
  \<^verbatim>\<open>Time\<close> (\<^verbatim>\<open>src/common/Time.cpp\<close>) and \<^verbatim>\<open>Logger\<close>
  (\<^verbatim>\<open>include/gatewayforge/common/Logger.h\<close>, \<^verbatim>\<open>src/common/Logger.cpp\<close>), and \<^verbatim>\<open>Error\<close>
  (\<^verbatim>\<open>src/common/Error.cpp\<close>). The clock, the formatting of a \<open>double\<close> and the texts of error
  numbers are parameters, and so is how spdlog decorates a line.
\<close>

section \<open>Error\<close>

text \<open>\<open>strerror\<close> and \<open>gai_strerror\<close>, copied into a string.\<close>

definition format_errno :: "(int \<Rightarrow> string) \<Rightarrow> int \<Rightarrow> string" where
  "format_errno strerror n = strerror n"

definition format_gai_error :: "(int \<Rightarrow> string) \<Rightarrow> int \<Rightarrow> string" where
  "format_gai_error gai_strerror n = gai_strerror n"

section \<open>Time\<close>

text \<open>\<open>ticks\<close> is the time since the epoch that the high-resolution clock reads, as the signed count of
  nanoseconds \<open>duration_cast\<close> yields; the other functions take the result of this one.\<close>

definition time_now_ns :: "int \<Rightarrow> u64" where
  "time_now_ns ticks = of_int ticks"

definition time_now_us :: "u64 \<Rightarrow> u64" where
  "time_now_us now_ns = now_ns div 1000"

definition time_now_ms :: "u64 \<Rightarrow> u64" where
  "time_now_ms now_ns = now_ns div 1000000"

text \<open>\<open>fmt ns\<close> is the text of \<open>ns / 1'000'000'000.0\<close> with six decimals.\<close>

definition format_ns :: "(u64 \<Rightarrow> string) \<Rightarrow> u64 \<Rightarrow> string" where
  "format_ns fmt ns = fmt ns @ ''s''"

definition format_us :: "(u64 \<Rightarrow> string) \<Rightarrow> u64 \<Rightarrow> string" where
  "format_us fmt us = format_ns fmt (us * 1000)"

definition format_ms :: "(u64 \<Rightarrow> string) \<Rightarrow> u64 \<Rightarrow> string" where
  "format_ms fmt ms = format_ns fmt (ms * 1000000)"

text \<open>The three formats agree on equal times as long as the nanoseconds fit 64 bits.\<close>

lemma format_ms_us: "format_ms fmt ms = format_us fmt (ms * 1000)"
  by (simp add: format_ms_def format_us_def mult.commute)

lemma now_us_nat: "unat (time_now_us ns) = unat ns div 1000"
  by (simp add: time_now_us_def unat_div)

section \<open>Logger\<close>

text \<open>The levels of spdlog that the sources use, in its order.\<close>

datatype log_level = L_Trace | L_Debug | L_Info | L_Warn | L_Err

primrec level_int :: "log_level \<Rightarrow> int" where
  "level_int L_Trace = 0"
| "level_int L_Debug = 1"
| "level_int L_Info = 2"
| "level_int L_Warn = 3"
| "level_int L_Err = 4"

lemma level_int_inject [simp]: "level_int a = level_int b \<longleftrightarrow> a = b"
  by (cases a; cases b) auto

instantiation log_level :: linorder
begin

definition less_eq_log_level :: "log_level \<Rightarrow> log_level \<Rightarrow> bool" where
  "less_eq_log_level a b \<longleftrightarrow> level_int a \<le> level_int b"

definition less_log_level :: "log_level \<Rightarrow> log_level \<Rightarrow> bool" where
  "less_log_level a b \<longleftrightarrow> level_int a < level_int b"

instance
  by standard (auto simp: less_eq_log_level_def less_log_level_def)

end

text \<open>
  The static members, and the names registered with spdlog, which refuses to create two loggers
  of one name. \<open>None\<close> is the null \<open>logger_\<close>.
\<close>

record logger_state =
  lg_level :: "log_level option"
  lg_once :: bool
  lg_registry :: "string list"

definition new_logger_state :: logger_state where
  "new_logger_state = \<lparr>lg_level = None, lg_once = False, lg_registry = []\<rparr>"

definition level_of :: "string \<Rightarrow> log_level" where
  "level_of level =
     (if level = ''trace'' then L_Trace
      else if level = ''debug'' then L_Debug
      else if level = ''warn'' then L_Warn
      else if level = ''error'' then L_Err
      else L_Info)"

definition logger_init :: "string \<Rightarrow> logger_state \<Rightarrow> logger_state outcome" where
  "logger_init level st =
     (if ''gatewayforge'' \<in> set (lg_registry st)
      then Inl (Throw (Runtime_Error ''logger with name 'gatewayforge' already exists''))
      else Inr (st\<lparr>lg_level := Some (level_of level), lg_registry := ''gatewayforge'' # lg_registry st\<rparr>))"

definition logger_get :: "logger_state \<Rightarrow> logger_state outcome" where
  "logger_get st =
     (if lg_level st = None \<and> \<not> lg_once st
      then obind (logger_init ''off'' st) (\<lambda>st'. Inr (st'\<lparr>lg_once := True\<rparr>))
      else Inr st)"

text \<open>The logger a program uses without initialising it is asked to be silent and is not.\<close>

lemma default_logger_is_info:
  "logger_get new_logger_state =
    Inr \<lparr>lg_level = Some L_Info, lg_once = True, lg_registry = [''gatewayforge'']\<rparr>"
  by (simp add: logger_get_def logger_init_def new_logger_state_def level_of_def)

text \<open>Initialising explicitly after the first use throws.\<close>

lemma late_init_throws:
  "logger_get new_logger_state = Inr st \<Longrightarrow> \<exists>w. logger_init level st = Inl (Throw (Runtime_Error w))"
  by (auto simp: default_logger_is_info logger_init_def)

section \<open>What the process writes\<close>

text \<open>
  Text on the standard output, on the standard error, and a message handed to the logger, which puts a
  time and its level in front and writes it to the standard output: the macros \<^verbatim>\<open>GF_LOG_INFO\<close> and
  \<^verbatim>\<open>GF_LOG_ERROR\<close>, with the formatted text.
\<close>

datatype chunk = Out string | Errs string | Log log_level string

definition log_info :: "string \<Rightarrow> chunk" where
  [simp]: "log_info msg = Log L_Info msg"

definition log_error :: "string \<Rightarrow> chunk" where
  [simp]: "log_error msg = Log L_Err msg"

text \<open>A message is written if its level is at least the level of the logger.\<close>

fun written :: "logger_state \<Rightarrow> chunk \<Rightarrow> bool" where
  "written st (Log l msg) = (case lg_level st of None \<Rightarrow> False | Some threshold \<Rightarrow> threshold \<le> l)"
| "written st c = True"

definition emit :: "logger_state \<Rightarrow> chunk list \<Rightarrow> chunk list" where
  "emit st cs = filter (written st) cs"

text \<open>With the level \<^verbatim>\<open>main\<close> chooses every message of the program is written.\<close>

definition info_logger :: logger_state where
  "info_logger = \<lparr>lg_level = Some L_Info, lg_once = False, lg_registry = [''gatewayforge'']\<rparr>"

lemma init_info: "logger_init ''info'' new_logger_state = Inr info_logger"
  by (simp add: logger_init_def new_logger_state_def level_of_def info_logger_def)

fun loud :: "chunk \<Rightarrow> bool" where
  "loud (Log l msg) = (l = L_Info \<or> l = L_Err)"
| "loud c = True"

lemma emit_loud: "\<forall>c \<in> set cs. loud c \<Longrightarrow> emit info_logger cs = cs"
proof -
  have "written info_logger c" if "loud c" for c
    using that by (cases c) (auto simp: info_logger_def less_eq_log_level_def)
  then show "\<forall>c \<in> set cs. loud c \<Longrightarrow> emit info_logger cs = cs" by (auto simp: emit_def)
qed

end
