(* ===== verification/Schema_Loader.thy ===== *)
theory Schema_Loader
  imports Field_Types Results Services
begin

text \<open>
  \<^verbatim>\<open>SchemaLoader::LoadFromYaml\<close> (\<^verbatim>\<open>src/protocol/SchemaLoader.cpp\<close>). yaml-cpp is the
  parameter \<open>y\<close>: loading a file, subscripting a node, its truth value, its items and its
  conversions. Its exceptions are strings on the left.
\<close>

record 'n yaml =
  y_load :: "string \<Rightarrow> string + 'n"
  y_get :: "'n \<Rightarrow> string \<Rightarrow> string + 'n"
  y_defined :: "'n \<Rightarrow> bool"
  y_items :: "'n \<Rightarrow> string + 'n list"
  y_string :: "'n \<Rightarrow> string + string"
  y_u64 :: "'n \<Rightarrow> string + u64"
  y_bool :: "'n \<Rightarrow> string + bool"

definition ylift :: "string + 'a \<Rightarrow> 'a outcome" where
  "ylift r = (case r of Inl w \<Rightarrow> Inl (Throw (Yaml_Exception w)) | Inr x \<Rightarrow> Inr x)"

lemma ylift_simps [simp]: "ylift (Inl w) = Inl (Throw (Yaml_Exception w))" "ylift (Inr x) = Inr x"
  by (simp_all add: ylift_def)

section \<open>The loader\<close>

text \<open>\<open>node[key].as<std::string>(fallback)\<close>\<close>

definition string_or :: "'n yaml \<Rightarrow> 'n \<Rightarrow> string \<Rightarrow> string \<Rightarrow> string outcome" where
  "string_or y n key fallback =
     obind (ylift (y_get y n key)) (\<lambda>v.
       Inr (if y_defined y v then (case y_string y v of Inl w \<Rightarrow> fallback | Inr s \<Rightarrow> s) else fallback))"

text \<open>\<open>if (node[key]) target = node[key].as<T>()\<close>\<close>

definition if_present ::
    "'n yaml \<Rightarrow> 'n \<Rightarrow> string \<Rightarrow> ('n \<Rightarrow> string + 'a) \<Rightarrow> ('a \<Rightarrow> 's \<Rightarrow> 's) \<Rightarrow> 's \<Rightarrow> 's outcome" where
  "if_present y n key conv store s =
     obind (ylift (y_get y n key)) (\<lambda>v.
       if y_defined y v then obind (ylift (conv v)) (\<lambda>x. Inr (store x s)) else Inr s)"

definition load_framing :: "'n yaml \<Rightarrow> 'n \<Rightarrow> framing_config \<Rightarrow> framing_config outcome" where
  "load_framing y root fr =
     obind (ylift (y_get y root ''framing'')) (\<lambda>f.
       if y_defined y f
       then obind (string_or y f ''type'' ''datagram'') (\<lambda>t.
            obind (framing_type_from_string t) (\<lambda>ft.
            obind (if_present y f ''length_field'' (y_string y) (\<lambda>x fr. fr\<lparr>fr_length_field := x\<rparr>)
                     (fr\<lparr>fr_type := ft\<rparr>)) (\<lambda>fr.
            obind (if_present y f ''header_len'' (y_u64 y) (\<lambda>x fr. fr\<lparr>fr_header_len := x\<rparr>) fr) (\<lambda>fr.
            if_present y f ''length_includes_header'' (y_bool y)
              (\<lambda>x fr. fr\<lparr>fr_length_includes_header := x\<rparr>) fr))))
       else Inr fr)"

definition load_field :: "'n yaml \<Rightarrow> 'n \<Rightarrow> field_def outcome" where
  "load_field y field =
     obind (ylift (y_get y field ''name'')) (\<lambda>n. obind (ylift (y_string y n)) (\<lambda>name.
     obind (ylift (y_get y field ''type'')) (\<lambda>t. obind (ylift (y_string y t)) (\<lambda>ts.
     obind (field_type_from_string ts) (\<lambda>ft.
     if_present y field ''const'' (y_u64 y) (\<lambda>x d. d\<lparr>fd_has_const := True, fd_const_value := x\<rparr>)
       (new_field_def\<lparr>fd_name := name, fd_type := ft\<rparr>))))))"

definition load_fields :: "'n yaml \<Rightarrow> 'n \<Rightarrow> field_def list outcome" where
  "load_fields y root =
     obind (ylift (y_get y root ''message'')) (\<lambda>m.
       if y_defined y m
       then obind (ylift (y_items y m)) (\<lambda>items.
              ofold (\<lambda>field fs. obind (load_field y field) (\<lambda>d. Inr (fs @ [d]))) items [])
       else Inr [])"

definition load_payload :: "'n yaml \<Rightarrow> 'n \<Rightarrow> payload_def \<Rightarrow> payload_def outcome" where
  "load_payload y root p =
     obind (ylift (y_get y root ''payload'')) (\<lambda>n.
       if y_defined y n
       then if_present y n ''length_from'' (y_string y) (\<lambda>x p. p\<lparr>pd_length_from := x\<rparr>) p
       else Inr p)"

definition load_analysis :: "'n yaml \<Rightarrow> 'n \<Rightarrow> protocol_schema \<Rightarrow> protocol_schema outcome" where
  "load_analysis y root s =
     obind (ylift (y_get y root ''analysis'')) (\<lambda>a.
       if y_defined y a
       then obind (if_present y a ''sequence_field'' (y_string y) (\<lambda>x s. s\<lparr>s_sequence_field := x\<rparr>) s) (\<lambda>s.
            obind (if_present y a ''timestamp_field'' (y_string y) (\<lambda>x s. s\<lparr>s_timestamp_field := x\<rparr>) s) (\<lambda>s.
            if_present y a ''device_id_field'' (y_string y) (\<lambda>x s. s\<lparr>s_device_id_field := x\<rparr>) s))
       else Inr s)"

definition load_schema :: "'n yaml \<Rightarrow> string \<Rightarrow> protocol_schema outcome" where
  "load_schema y filepath =
     obind (ylift (y_load y filepath)) (\<lambda>root.
     obind (string_or y root ''name'' []) (\<lambda>name.
     obind (string_or y root ''transport'' ''tcp'') (\<lambda>transport.
     obind (string_or y root ''endian'' ''big'') (\<lambda>endian.
     obind (load_framing y root new_framing) (\<lambda>framing.
     obind (load_fields y root) (\<lambda>fields.
     obind (load_payload y root (s_payload new_schema)) (\<lambda>payload.
     load_analysis y root (new_schema\<lparr>s_name := name, s_transport := transport, s_endian := endian,
       s_framing := framing, s_fields := fields, s_payload := payload\<rparr>))))))))"

primrec exn_what :: "exn \<Rightarrow> string" where
  "exn_what (Out_Of_Range w) = w"
| "exn_what (Runtime_Error w) = w"
| "exn_what (Invalid_Argument w) = w"
| "exn_what (Yaml_Exception w) = w"
| "exn_what (Bad_Variant_Access w) = w"

text \<open>The two handlers; undefined behaviour is not an exception.\<close>

definition load_from_yaml :: "'n yaml \<Rightarrow> string \<Rightarrow> protocol_schema result outcome" where
  "load_from_yaml y filepath =
     (case load_schema y filepath of
        Inr s \<Rightarrow> Inr (ok s)
      | Inl (Throw (Yaml_Exception w)) \<Rightarrow> Inr (err new_schema (''YAML parse error: '' @ w))
      | Inl (Throw e) \<Rightarrow> Inr (err new_schema (''Schema load error: '' @ exn_what e))
      | Inl f \<Rightarrow> Inl f)"

text \<open>What the call logs: the last statement before the successful return.\<close>

definition loaded_line :: "protocol_schema \<Rightarrow> chunk" where
  "loaded_line schema = log_info (''Loaded schema: '' @ s_name schema @ '' ('' @ show_nat (length (s_fields schema)) @
     '' fields, transport='' @ s_transport schema @ '')'')"

definition load_log :: "protocol_schema result \<Rightarrow> chunk list" where
  "load_log r = (if is_ok r then [loaded_line (rs_value r)] else [])"

section \<open>Errors\<close>

text \<open>Outcomes whose only failures are C++ exceptions.\<close>

definition throws_only :: "'a outcome \<Rightarrow> bool" where
  "throws_only m \<longleftrightarrow> (\<forall>f. m = Inl f \<longrightarrow> (\<exists>e. f = Throw e))"

lemma throws_only_Inr [simp, intro]: "throws_only (Inr x)"
  by (simp add: throws_only_def)

lemma throws_only_bind [intro]: "throws_only m \<Longrightarrow> (\<And>x. throws_only (k x)) \<Longrightarrow> throws_only (obind m k)"
  by (auto simp: throws_only_def obind_eq_Inl)

lemma throws_only_lift [simp, intro]: "throws_only (ylift r)"
  by (cases r) (simp_all add: throws_only_def)

lemma throws_only_string_or [simp, intro]: "throws_only (string_or y n k d)"
  by (auto simp: string_or_def)

lemma throws_only_if_present [simp, intro]: "throws_only (if_present y n k c st s)"
  by (auto simp: if_present_def intro!: throws_only_bind)

lemma throws_only_names [simp, intro]:
  "throws_only (framing_type_from_string t)" "throws_only (field_type_from_string t)"
  by (auto simp: throws_only_def framing_type_from_string_def field_type_from_string_def
      split: if_splits option.splits)

lemma throws_only_fold: "(\<And>x s. throws_only (f x s)) \<Longrightarrow> throws_only (ofold f xs s)"
  by (induction xs arbitrary: s) auto

lemma throws_only_load_field [simp, intro]: "throws_only (load_field y n)"
  unfolding load_field_def by (intro throws_only_bind) auto

lemma throws_only_parts [simp, intro]:
  "throws_only (load_framing y n fr)" "throws_only (load_fields y n)" "throws_only (load_payload y n p)"
  "throws_only (load_analysis y n s)"
  by (auto simp: load_framing_def load_fields_def load_payload_def load_analysis_def
      intro!: throws_only_bind throws_only_fold)

lemma throws_only_load: "throws_only (load_schema y filepath)"
  unfolding load_schema_def by (intro throws_only_bind) auto

text \<open>The loader never throws: whatever the YAML library reports for whatever file, the call
  returns a result, which is a schema or an error whose text says whether YAML or the schema's
  own names were at fault.\<close>

lemma load_returns_result:
  "\<exists>r. load_from_yaml y filepath = Inr r \<and>
    (is_ok r \<or> starts_with ''YAML parse error: '' (rs_error r) \<or> starts_with ''Schema load error: '' (rs_error r))"
proof (cases "load_schema y filepath")
  case (Inl f)
  then obtain e where f: "f = Throw e"
    using throws_only_load [of y filepath] by (auto simp: throws_only_def)
  with Inl show ?thesis
    by (cases e) (auto simp: load_from_yaml_def starts_with_def)
qed (simp add: load_from_yaml_def)

section \<open>Round trip\<close>

text \<open>A node under which a schema is written down.\<close>

definition has_string :: "'n yaml \<Rightarrow> 'n \<Rightarrow> string \<Rightarrow> string \<Rightarrow> bool" where
  "has_string y n k v \<longleftrightarrow> (\<exists>m. y_get y n k = Inr m \<and> y_defined y m \<and> y_string y m = Inr v)"

definition has_u64 :: "'n yaml \<Rightarrow> 'n \<Rightarrow> string \<Rightarrow> u64 \<Rightarrow> bool" where
  "has_u64 y n k v \<longleftrightarrow> (\<exists>m. y_get y n k = Inr m \<and> y_defined y m \<and> y_u64 y m = Inr v)"

definition has_bool :: "'n yaml \<Rightarrow> 'n \<Rightarrow> string \<Rightarrow> bool \<Rightarrow> bool" where
  "has_bool y n k v \<longleftrightarrow> (\<exists>m. y_get y n k = Inr m \<and> y_defined y m \<and> y_bool y m = Inr v)"

definition lacks :: "'n yaml \<Rightarrow> 'n \<Rightarrow> string \<Rightarrow> bool" where
  "lacks y n k \<longleftrightarrow> (\<exists>m. y_get y n k = Inr m \<and> \<not> y_defined y m)"

text \<open>An optional string; the empty string may be left out.\<close>

definition opt_string :: "'n yaml \<Rightarrow> 'n \<Rightarrow> string \<Rightarrow> string \<Rightarrow> bool" where
  "opt_string y n k v \<longleftrightarrow> has_string y n k v \<or> v = [] \<and> lacks y n k"

primrec framing_type_to_string :: "framing_type \<Rightarrow> string" where
  "framing_type_to_string LENGTH_FIELD = ''length_field''"
| "framing_type_to_string DATAGRAM = ''datagram''"

definition describes_framing :: "'n yaml \<Rightarrow> 'n \<Rightarrow> framing_config \<Rightarrow> bool" where
  "describes_framing y f fr \<longleftrightarrow> has_string y f ''type'' (framing_type_to_string (fr_type fr)) \<and>
     opt_string y f ''length_field'' (fr_length_field fr) \<and>
     (has_u64 y f ''header_len'' (fr_header_len fr) \<or> fr_header_len fr = 0 \<and> lacks y f ''header_len'') \<and>
     (has_bool y f ''length_includes_header'' (fr_length_includes_header fr) \<or>
      \<not> fr_length_includes_header fr \<and> lacks y f ''length_includes_header'')"

definition describes_field :: "'n yaml \<Rightarrow> 'n \<Rightarrow> field_def \<Rightarrow> bool" where
  "describes_field y n d \<longleftrightarrow> has_string y n ''name'' (fd_name d) \<and>
     has_string y n ''type'' (field_type_to_string (fd_type d)) \<and>
     (if fd_has_const d then has_u64 y n ''const'' (fd_const_value d)
      else fd_const_value d = 0 \<and> lacks y n ''const'')"

definition describes :: "'n yaml \<Rightarrow> 'n \<Rightarrow> protocol_schema \<Rightarrow> bool" where
  "describes y root s \<longleftrightarrow> has_string y root ''name'' (s_name s) \<and>
     has_string y root ''transport'' (s_transport s) \<and> has_string y root ''endian'' (s_endian s) \<and>
     (\<exists>f. y_get y root ''framing'' = Inr f \<and> y_defined y f \<and> describes_framing y f (s_framing s)) \<and>
     (\<exists>m ns. y_get y root ''message'' = Inr m \<and> y_defined y m \<and> y_items y m = Inr ns \<and>
        list_all2 (describes_field y) ns (s_fields s)) \<and>
     (\<exists>p. y_get y root ''payload'' = Inr p \<and> y_defined y p \<and>
        opt_string y p ''length_from'' (pd_length_from (s_payload s))) \<and>
     (\<exists>a. y_get y root ''analysis'' = Inr a \<and> y_defined y a \<and>
        opt_string y a ''sequence_field'' (s_sequence_field s) \<and>
        opt_string y a ''timestamp_field'' (s_timestamp_field s) \<and>
        opt_string y a ''device_id_field'' (s_device_id_field s))"

lemma string_or_has: "has_string y n k v \<Longrightarrow> string_or y n k d = Inr v"
  by (auto simp: has_string_def string_or_def)

lemma if_present_has:
  "has_string y n k v \<Longrightarrow> if_present y n k (y_string y) st s = Inr (st v s)"
  "has_u64 y n k w \<Longrightarrow> if_present y n k (y_u64 y) st' s = Inr (st' w s)"
  "has_bool y n k b \<Longrightarrow> if_present y n k (y_bool y) st'' s = Inr (st'' b s)"
  by (auto simp: has_string_def has_u64_def has_bool_def if_present_def)

lemma if_present_lacks: "lacks y n k \<Longrightarrow> if_present y n k c st s = Inr s"
  by (auto simp: lacks_def if_present_def)

lemma if_present_opt:
  "opt_string y n k v \<Longrightarrow> (v = [] \<Longrightarrow> st [] s = s) \<Longrightarrow> if_present y n k (y_string y) st s = Inr (st v s)"
  by (auto simp: opt_string_def if_present_has if_present_lacks)

lemma framing_name [simp]: "framing_type_from_string (framing_type_to_string t) = Inr t"
  by (cases t) (simp_all add: framing_type_from_string_def)

lemma field_name [simp]: "field_type_from_string (field_type_to_string t) = Inr t"
  by (cases t) (simp_all add: field_type_from_string_def field_type_map_def)

lemma load_framing_described:
  assumes "y_get y root ''framing'' = Inr f" "y_defined y f" "describes_framing y f fr"
  shows "load_framing y root new_framing = Inr fr"
proof -
  have d: "has_string y f ''type'' (framing_type_to_string (fr_type fr))"
    "opt_string y f ''length_field'' (fr_length_field fr)" using assms(3) by (auto simp: describes_framing_def)
  have h: "if_present y f ''header_len'' (y_u64 y) (\<lambda>x fr. fr\<lparr>fr_header_len := x\<rparr>)
      (new_framing\<lparr>fr_type := fr_type fr, fr_length_field := fr_length_field fr\<rparr>) =
      Inr (new_framing\<lparr>fr_type := fr_type fr, fr_length_field := fr_length_field fr, fr_header_len := fr_header_len fr\<rparr>)"
    using assms(3) by (auto simp: describes_framing_def if_present_has if_present_lacks new_framing_def)
  have l: "if_present y f ''length_includes_header'' (y_bool y) (\<lambda>x fr. fr\<lparr>fr_length_includes_header := x\<rparr>)
      (new_framing\<lparr>fr_type := fr_type fr, fr_length_field := fr_length_field fr, fr_header_len := fr_header_len fr\<rparr>) =
      Inr fr"
    using assms(3) by (cases fr) (auto simp: describes_framing_def if_present_has if_present_lacks new_framing_def)
  have s: "if_present y f ''length_field'' (y_string y) (\<lambda>x fr. fr\<lparr>fr_length_field := x\<rparr>)
      (new_framing\<lparr>fr_type := fr_type fr\<rparr>) = Inr (new_framing\<lparr>fr_type := fr_type fr, fr_length_field := fr_length_field fr\<rparr>)"
    using d(2) by (rule if_present_opt) (simp add: new_framing_def)
  show ?thesis
    using assms(1,2) d(1) s h l by (simp add: load_framing_def string_or_has)
qed

lemma load_field_described:
  assumes "describes_field y n d"
  shows "load_field y n = Inr d"
proof -
  obtain nn tn where n: "y_get y n ''name'' = Inr nn" "y_string y nn = Inr (fd_name d)"
      "y_get y n ''type'' = Inr tn" "y_string y tn = Inr (field_type_to_string (fd_type d))"
    using assms by (auto simp: describes_field_def has_string_def)
  show ?thesis
    using n assms
    by (cases d) (auto simp: load_field_def describes_field_def new_field_def_def if_present_has
        if_present_lacks split: if_splits)
qed

lemma load_fields_described:
  assumes "list_all2 (describes_field y) ns ds"
  shows "ofold (\<lambda>field fs. obind (load_field y field) (\<lambda>d. Inr (fs @ [d]))) ns acc = Inr (acc @ ds)"
  using assms by (induction arbitrary: acc rule: list_all2_induct) (auto simp: load_field_described)

lemma load_described:
  assumes "y_load y filepath = Inr root" and "describes y root s"
  shows "load_schema y filepath = Inr s"
proof -
  from assms(2) obtain f m ns p a where f: "y_get y root ''framing'' = Inr f" "y_defined y f"
      "describes_framing y f (s_framing s)"
    and m: "y_get y root ''message'' = Inr m" "y_defined y m" "y_items y m = Inr ns"
      "list_all2 (describes_field y) ns (s_fields s)"
    and p: "y_get y root ''payload'' = Inr p" "y_defined y p"
      "opt_string y p ''length_from'' (pd_length_from (s_payload s))"
    and a: "y_get y root ''analysis'' = Inr a" "y_defined y a"
      "opt_string y a ''sequence_field'' (s_sequence_field s)"
      "opt_string y a ''timestamp_field'' (s_timestamp_field s)"
      "opt_string y a ''device_id_field'' (s_device_id_field s)"
    by (auto simp: describes_def)
  have names: "has_string y root ''name'' (s_name s)" "has_string y root ''transport'' (s_transport s)"
      "has_string y root ''endian'' (s_endian s)"
    using assms(2) by (auto simp: describes_def)
  have fields: "load_fields y root = Inr (s_fields s)"
    using m load_fields_described [OF m(4), of "[]"] by (simp add: load_fields_def)
  have payload: "load_payload y root (s_payload new_schema) = Inr (s_payload s)"
    using p if_present_opt [OF p(3), of "\<lambda>x p. p\<lparr>pd_length_from := x\<rparr>" "s_payload new_schema"]
    by (cases "s_payload s") (simp add: load_payload_def new_schema_def)
  let ?s1 = "new_schema\<lparr>s_name := s_name s, s_transport := s_transport s, s_endian := s_endian s,
      s_framing := s_framing s, s_fields := s_fields s, s_payload := s_payload s\<rparr>"
  let ?s2 = "?s1\<lparr>s_sequence_field := s_sequence_field s\<rparr>"
  let ?s3 = "?s2\<lparr>s_timestamp_field := s_timestamp_field s\<rparr>"
  have "if_present y a ''sequence_field'' (y_string y) (\<lambda>x s. s\<lparr>s_sequence_field := x\<rparr>) ?s1 = Inr ?s2"
    using a(3) by (rule if_present_opt) (simp add: new_schema_def)
  moreover have "if_present y a ''timestamp_field'' (y_string y) (\<lambda>x s. s\<lparr>s_timestamp_field := x\<rparr>) ?s2 = Inr ?s3"
    using a(4) by (rule if_present_opt) (simp add: new_schema_def)
  moreover have "if_present y a ''device_id_field'' (y_string y) (\<lambda>x s. s\<lparr>s_device_id_field := x\<rparr>) ?s3 =
      Inr (?s3\<lparr>s_device_id_field := s_device_id_field s\<rparr>)"
    using a(5) by (rule if_present_opt) (simp add: new_schema_def)
  moreover have "?s3\<lparr>s_device_id_field := s_device_id_field s\<rparr> = s"
    by (cases s) (simp add: new_schema_def)
  ultimately have "load_analysis y root ?s1 = Inr s"
    using a(1,2) by (simp add: load_analysis_def)
  then show ?thesis
    using assms(1) names fields payload load_framing_described [OF f]
    by (simp add: load_schema_def string_or_has)
qed

text \<open>Schemas load as written: a file whose nodes describe a schema (optional entries may be left
  out when they have their default value) loads as exactly that schema, every field in order.\<close>

lemma described_schema_loads:
  assumes "y_load y filepath = Inr root" and "describes y root s"
  shows "load_from_yaml y filepath = Inr (ok s)"
  using load_described [OF assms] by (simp add: load_from_yaml_def)

text \<open>A concrete library over trees (an item of a map is a pair and no node), and the shipped schema \<^verbatim>\<open>vehicle-tcp.yaml\<close> in it.\<close>

datatype ytree = YNone | YStr string | YNum u64 | YBool bool | YSeq "ytree list" | YMap "(string \<times> ytree) list"

definition tree_yaml :: "ytree \<Rightarrow> ytree yaml" where
  "tree_yaml root = \<lparr>y_load = (\<lambda>_. Inr root),
     y_get = (\<lambda>n k. case n of YMap m \<Rightarrow> Inr (case map_of m k of None \<Rightarrow> YNone | Some v \<Rightarrow> v)
       | _ \<Rightarrow> Inl ''operator[] call on a scalar''),
     y_defined = (\<lambda>n. n \<noteq> YNone),
     y_items = (\<lambda>n. case n of YSeq ns \<Rightarrow> Inr ns | YMap m \<Rightarrow> Inr (map (\<lambda>_. YNone) m) | _ \<Rightarrow> Inr []),
     y_string = (\<lambda>n. case n of YStr v \<Rightarrow> Inr v | _ \<Rightarrow> Inl ''bad conversion''),
     y_u64 = (\<lambda>n. case n of YNum v \<Rightarrow> Inr v | _ \<Rightarrow> Inl ''bad conversion''),
     y_bool = (\<lambda>n. case n of YBool v \<Rightarrow> Inr v | _ \<Rightarrow> Inl ''bad conversion'')\<rparr>"

definition vehicle_tree :: ytree where
  "vehicle_tree = YMap [(''name'', YStr ''vehicle_tcp_protocol''), (''transport'', YStr ''tcp''),
     (''endian'', YStr ''big''),
     (''framing'', YMap [(''type'', YStr ''length_field''), (''length_field'', YStr ''payload_len''),
        (''header_len'', YNum 10), (''length_includes_header'', YBool False)]),
     (''message'', YSeq [
        YMap [(''name'', YStr ''magic''), (''type'', YStr ''u16''), (''const'', YNum 0xCAFE)],
        YMap [(''name'', YStr ''version''), (''type'', YStr ''u8'')],
        YMap [(''name'', YStr ''msg_type''), (''type'', YStr ''u8'')],
        YMap [(''name'', YStr ''seq''), (''type'', YStr ''u32'')],
        YMap [(''name'', YStr ''payload_len''), (''type'', YStr ''u16'')]]),
     (''payload'', YMap [(''length_from'', YStr ''payload_len'')]),
     (''analysis'', YMap [(''sequence_field'', YStr ''seq'')])]"

lemma vehicle_tree_describes: "describes (tree_yaml vehicle_tree) vehicle_tree vehicle_tcp_schema"
  by (simp add: describes_def tree_yaml_def vehicle_tree_def vehicle_tcp_schema_def new_schema_def
      has_string_def has_u64_def has_bool_def lacks_def opt_string_def describes_framing_def
      describes_field_def plain_field_def new_field_def_def)

lemma vehicle_tcp_loads: "load_from_yaml (tree_yaml vehicle_tree) sp = Inr (ok vehicle_tcp_schema)"
  using load_described [of "tree_yaml vehicle_tree" sp, OF _ vehicle_tree_describes]
  by (simp add: load_from_yaml_def) (simp add: tree_yaml_def)

lemma described_schema_loads_instance:
  "load_from_yaml (tree_yaml vehicle_tree) ''vehicle-tcp.yaml'' = Inr (ok vehicle_tcp_schema)"
  by (rule described_schema_loads [OF _ vehicle_tree_describes]) (simp add: tree_yaml_def)

definition vehicle_udp_tree :: ytree where
  "vehicle_udp_tree = YMap [(''name'', YStr ''vehicle_udp_protocol''), (''transport'', YStr ''udp''),
     (''endian'', YStr ''big''), (''framing'', YMap [(''type'', YStr ''datagram'')]),
     (''message'', YSeq [
        YMap [(''name'', YStr ''magic''), (''type'', YStr ''u16''), (''const'', YNum 0xCAFE)],
        YMap [(''name'', YStr ''version''), (''type'', YStr ''u8'')],
        YMap [(''name'', YStr ''msg_type''), (''type'', YStr ''u8'')],
        YMap [(''name'', YStr ''device_id''), (''type'', YStr ''u64'')],
        YMap [(''name'', YStr ''seq''), (''type'', YStr ''u32'')],
        YMap [(''name'', YStr ''timestamp''), (''type'', YStr ''u64'')],
        YMap [(''name'', YStr ''payload_len''), (''type'', YStr ''u16'')]]),
     (''payload'', YMap [(''length_from'', YStr ''payload_len'')]),
     (''analysis'', YMap [(''sequence_field'', YStr ''seq''), (''timestamp_field'', YStr ''timestamp''),
        (''device_id_field'', YStr ''device_id'')])]"

lemma vehicle_udp_loads: "load_from_yaml (tree_yaml vehicle_udp_tree) sp = Inr (ok vehicle_udp_schema)"
proof -
  have "describes (tree_yaml vehicle_udp_tree) vehicle_udp_tree vehicle_udp_schema"
    by (simp add: describes_def tree_yaml_def vehicle_udp_tree_def vehicle_udp_schema_def new_schema_def
        new_framing_def has_string_def has_u64_def has_bool_def lacks_def opt_string_def describes_framing_def
        describes_field_def plain_field_def new_field_def_def)
  then show ?thesis
    using load_described [of "tree_yaml vehicle_udp_tree" sp vehicle_udp_tree]
    by (simp add: load_from_yaml_def) (simp add: tree_yaml_def)
qed

section \<open>A field of unknown type\<close>

text \<open>A file whose fields are well-formed up to one with a type that is none of the ten.\<close>

definition bad_field_type :: "'n yaml \<Rightarrow> string \<Rightarrow> string \<Rightarrow> bool" where
  "bad_field_type y filepath t \<longleftrightarrow> (\<exists>root f fr m good ds bad rest n.
     y_load y filepath = Inr root \<and> (\<forall>k. \<exists>v. y_get y root k = Inr v) \<and>
     y_get y root ''framing'' = Inr f \<and> y_defined y f \<and> describes_framing y f fr \<and>
     y_get y root ''message'' = Inr m \<and> y_defined y m \<and> y_items y m = Inr (good @ bad # rest) \<and>
     list_all2 (describes_field y) good ds \<and> has_string y bad ''name'' n \<and> has_string y bad ''type'' t) \<and>
     (\<forall>u. t \<noteq> field_type_to_string u)"

lemma bad_field_type_reported:
  assumes "bad_field_type y filepath t"
  shows "load_from_yaml y filepath = Inr (err new_schema (''Schema load error: Unknown field type: '' @ t))"
proof -
  from assms obtain root f fr m good ds bad rest n where
    root: "y_load y filepath = Inr root" "\<And>k. \<exists>v. y_get y root k = Inr v"
    and f: "y_get y root ''framing'' = Inr f" "y_defined y f" "describes_framing y f fr"
    and m: "y_get y root ''message'' = Inr m" "y_defined y m" "y_items y m = Inr (good @ bad # rest)"
    and fields: "list_all2 (describes_field y) good ds" "has_string y bad ''name'' n" "has_string y bad ''type'' t"
    and t: "\<nexists>u. t = field_type_to_string u"
    unfolding bad_field_type_def by blast
  let ?e = "Throw (Runtime_Error (''Unknown field type: '' @ t))"
  have "load_field y bad = Inl ?e"
    using fields(2,3) field_type_names [of t, THEN conjunct2] t by (auto simp: load_field_def has_string_def)
  then have "load_fields y root = Inl ?e"
    using m load_fields_described [OF fields(1), of "[]"] by (simp add: load_fields_def ofold_append)
  moreover have "\<exists>v. string_or y root k d = Inr v" for k d
    using root(2) [of k] by (auto simp: string_or_def)
  then obtain v1 v2 v3 where "string_or y root ''name'' [] = Inr v1"
    "string_or y root ''transport'' ''tcp'' = Inr v2" "string_or y root ''endian'' ''big'' = Inr v3" by metis
  ultimately have "load_schema y filepath = Inl ?e"
    using root(1) load_framing_described [OF f] by (simp add: load_schema_def)
  then show ?thesis by (simp add: load_from_yaml_def)
qed

definition misspelt_tree :: ytree where
  "misspelt_tree = YMap [(''framing'', YMap [(''type'', YStr ''datagram'')]),
     (''message'', YSeq [YMap [(''name'', YStr ''magic''), (''type'', YStr ''u16'')],
        YMap [(''name'', YStr ''seq''), (''type'', YStr ''uint32'')]])]"

lemma misspelt_type: "bad_field_type (tree_yaml misspelt_tree) sp ''uint32''"
proof -
  have no_name: "''uint32'' \<noteq> field_type_to_string u" for u by (cases u) simp_all
  have good: "describes_field (tree_yaml misspelt_tree) (YMap [(''name'', YStr ''magic''), (''type'', YStr ''u16'')])
      (plain_field ''magic'' U16)"
    by (simp add: describes_field_def has_string_def lacks_def tree_yaml_def plain_field_def new_field_def_def)
  show ?thesis
    unfolding bad_field_type_def
  proof (intro conjI allI exI)
    show "y_load (tree_yaml misspelt_tree) sp = Inr misspelt_tree" by (simp add: tree_yaml_def)
    show "y_get (tree_yaml misspelt_tree) misspelt_tree k =
        Inr (case map_of (case misspelt_tree of YMap m \<Rightarrow> m | _ \<Rightarrow> []) k of None \<Rightarrow> YNone | Some v \<Rightarrow> v)" for k
      by (simp add: tree_yaml_def misspelt_tree_def)
    show "y_get (tree_yaml misspelt_tree) misspelt_tree ''framing'' = Inr (YMap [(''type'', YStr ''datagram'')])"
      by (simp add: tree_yaml_def misspelt_tree_def)
    show "describes_framing (tree_yaml misspelt_tree) (YMap [(''type'', YStr ''datagram'')]) new_framing"
      by (simp add: describes_framing_def has_string_def opt_string_def lacks_def tree_yaml_def new_framing_def)
    show "y_get (tree_yaml misspelt_tree) misspelt_tree ''message'' = Inr (YSeq ([YMap [(''name'', YStr ''magic''), (''type'', YStr ''u16'')]] @
        YMap [(''name'', YStr ''seq''), (''type'', YStr ''uint32'')] # []))"
      by (simp add: tree_yaml_def misspelt_tree_def)
    show "list_all2 (describes_field (tree_yaml misspelt_tree)) [YMap [(''name'', YStr ''magic''), (''type'', YStr ''u16'')]]
        [plain_field ''magic'' U16]" using good by simp
    show "has_string (tree_yaml misspelt_tree) (YMap [(''name'', YStr ''seq''), (''type'', YStr ''uint32'')]) ''name'' ''seq''"
      by (simp add: has_string_def tree_yaml_def)
  qed (use no_name in \<open>simp_all add: tree_yaml_def has_string_def\<close>)
qed

end
