(* ===== verification/Packets.thy ===== *)
theory Packets
  imports Prelude
begin

text \<open>
  The packet value that every stage of the pipeline passes on
  (\<^verbatim>\<open>include/gatewayforge/pcap/Packet.h\<close>, \<^verbatim>\<open>src/pcap/Packet.cpp\<close>). The payload is a
  \<open>std::unique_ptr<Buffer>\<close>: \<open>None\<close> is the null pointer a fresh packet carries, and the
  accessors follow the pointer without a test, as the source does. The contents of the buffer
  are kept by value; its heap behaviour is the subject of \<open>Buffer_Heap\<close>.
\<close>

datatype transport_protocol = TCP | UDP | UNKNOWN

text \<open>The enumerators' values, as \<open>static_cast<int>\<close> gives them, order the type.\<close>

primrec proto_int :: "transport_protocol \<Rightarrow> nat" where
  "proto_int TCP = 0"
| "proto_int UDP = 1"
| "proto_int UNKNOWN = 2"

lemma proto_int_inject [simp]: "proto_int a = proto_int b \<longleftrightarrow> a = b"
  by (cases a; cases b) auto

instantiation transport_protocol :: linorder
begin

definition less_eq_transport_protocol :: "transport_protocol \<Rightarrow> transport_protocol \<Rightarrow> bool" where
  "less_eq_transport_protocol a b \<longleftrightarrow> proto_int a \<le> proto_int b"

definition less_transport_protocol :: "transport_protocol \<Rightarrow> transport_protocol \<Rightarrow> bool" where
  "less_transport_protocol a b \<longleftrightarrow> proto_int a < proto_int b"

instance
  by standard (auto simp: less_eq_transport_protocol_def less_transport_protocol_def)

end

record packet =
  p_timestamp_us :: u64
  p_src_ip :: string
  p_dst_ip :: string
  p_src_port :: u16
  p_dst_port :: u16
  p_protocol :: transport_protocol
  p_payload :: "byte list option"
  p_tcp_seq :: u32
  p_tcp_ack :: u32
  p_tcp_flags :: byte

definition new_packet :: packet where
  "new_packet = \<lparr>p_timestamp_us = 0, p_src_ip = [], p_dst_ip = [], p_src_port = 0,
     p_dst_port = 0, p_protocol = UNKNOWN, p_payload = None, p_tcp_seq = 0, p_tcp_ack = 0,
     p_tcp_flags = 0\<rparr>"

section \<open>Copying\<close>

definition copy_packet :: "packet \<Rightarrow> packet" where
  "copy_packet other =
     (let p = \<lparr>p_timestamp_us = p_timestamp_us other, p_src_ip = p_src_ip other,
        p_dst_ip = p_dst_ip other, p_src_port = p_src_port other, p_dst_port = p_dst_port other,
        p_protocol = p_protocol other, p_payload = None, p_tcp_seq = p_tcp_seq other,
        p_tcp_ack = p_tcp_ack other, p_tcp_flags = p_tcp_flags other\<rparr>
      in case p_payload other of
           None \<Rightarrow> p
         | Some buf \<Rightarrow> p\<lparr>p_payload := Some (take (length buf) buf)\<rparr>)"

text \<open>The first argument says whether both sides of the assignment are the same object.\<close>

definition assign_packet :: "bool \<Rightarrow> packet \<Rightarrow> packet \<Rightarrow> packet" where
  "assign_packet same this other =
     (if same then this
      else let p = this\<lparr>p_timestamp_us := p_timestamp_us other, p_src_ip := p_src_ip other,
             p_dst_ip := p_dst_ip other, p_src_port := p_src_port other,
             p_dst_port := p_dst_port other, p_protocol := p_protocol other,
             p_tcp_seq := p_tcp_seq other, p_tcp_ack := p_tcp_ack other,
             p_tcp_flags := p_tcp_flags other\<rparr>
           in case p_payload other of
                Some buf \<Rightarrow> p\<lparr>p_payload := Some (take (length buf) buf)\<rparr>
              | None \<Rightarrow> p\<lparr>p_payload := None\<rparr>)"

lemma copy_packet_id [simp]: "copy_packet p = p"
  by (cases p) (simp add: copy_packet_def Let_def split: option.split)

lemma assign_packet_other [simp]: "assign_packet False this other = other"
  by (cases this; cases other) (simp add: assign_packet_def Let_def split: option.split)

lemma assign_packet_same [simp]: "assign_packet True this other = this"
  by (simp add: assign_packet_def)

section \<open>Payload\<close>

text \<open>
  \<open>SetPayload(data, len)\<close>: \<open>data\<close> is a possibly null pointer to an object of which
  \<open>len\<close> bytes are copied.
\<close>

definition set_payload :: "byte list option \<Rightarrow> size_t \<Rightarrow> packet \<Rightarrow> packet outcome" where
  "set_payload data len p =
     (case data of
        Some d \<Rightarrow>
          if len > 0
          then obind (mem_read d 0 (unat len)) (\<lambda>bs. Inr (p\<lparr>p_payload := Some bs\<rparr>))
          else Inr (p\<lparr>p_payload := Some []\<rparr>)
      | None \<Rightarrow> Inr (p\<lparr>p_payload := Some []\<rparr>))"

definition payload :: "packet \<Rightarrow> byte list outcome" where
  "payload p = (case p_payload p of Some buf \<Rightarrow> Inr buf | None \<Rightarrow> Inl Null_Deref)"

definition payload_size :: "packet \<Rightarrow> size_t outcome" where
  "payload_size p = obind (payload p) (\<lambda>buf. Inr (of_nat (length buf)))"

text \<open>A packet with a payload buffer; the buffers of a run are smaller than the address space.\<close>

definition has_payload :: "packet \<Rightarrow> bool" where
  "has_payload p \<longleftrightarrow> (case p_payload p of None \<Rightarrow> False | Some buf \<Rightarrow> length buf < 2 ^ 64)"

definition payload_bytes :: "packet \<Rightarrow> byte list" where
  "payload_bytes p = (case p_payload p of None \<Rightarrow> [] | Some buf \<Rightarrow> buf)"

lemma payload_ok [simp]: "has_payload p \<Longrightarrow> payload p = Inr (payload_bytes p)"
  by (auto simp: has_payload_def payload_def payload_bytes_def split: option.splits)

lemma payload_size_ok [simp]:
  "has_payload p \<Longrightarrow> payload_size p = Inr (of_nat (length (payload_bytes p)))"
  by (simp add: payload_size_def)

lemma payload_null: "p_payload p = None \<Longrightarrow> payload p = Inl Null_Deref"
  by (simp add: payload_def)

lemma payload_size_null: "p_payload p = None \<Longrightarrow> payload_size p = Inl Null_Deref"
  by (simp add: payload_size_def payload_null)

lemma has_payload_bound: "has_payload p \<Longrightarrow> length (payload_bytes p) < 2 ^ 64"
  by (auto simp: has_payload_def payload_bytes_def split: option.splits)

section \<open>TCP flags\<close>

unbundle bit_operations_syntax

definition is_syn :: "packet \<Rightarrow> bool" where
  "is_syn p \<longleftrightarrow> p_tcp_flags p AND 0x02 \<noteq> 0"

definition is_fin :: "packet \<Rightarrow> bool" where
  "is_fin p \<longleftrightarrow> p_tcp_flags p AND 0x01 \<noteq> 0"

definition is_rst :: "packet \<Rightarrow> bool" where
  "is_rst p \<longleftrightarrow> p_tcp_flags p AND 0x04 \<noteq> 0"

definition is_ack :: "packet \<Rightarrow> bool" where
  "is_ack p \<longleftrightarrow> p_tcp_flags p AND 0x10 \<noteq> 0"

text \<open>Copying a packet, by construction or by assignment to another object, yields a packet
  equal in every field and in the contents of its payload; a null payload stays null, and
  assigning a packet to itself leaves it alone.\<close>

lemma packet_copies_are_faithful:
  "copy_packet p = p \<and> assign_packet False q p = p \<and> assign_packet True p p = p"
  by simp

end
