(* ===== verification/Flow_Key.thy ===== *)
theory Flow_Key
  imports Packets
begin

text \<open>
  \<^verbatim>\<open>FlowKey\<close> (\<^verbatim>\<open>include/gatewayforge/flow/FlowKey.h\<close>, \<^verbatim>\<open>src/flow/FlowKey.cpp\<close>): the
  five-tuple, its direction-independent normal form, its text and its hash. Strings compare as
  \<open>std::string\<close> does, lexicographically on unsigned bytes, which is the order of the list and
  character libraries. The hash functions of the standard library are parameters.
\<close>

record flow_key =
  k_src_ip :: string
  k_src_port :: u16
  k_dst_ip :: string
  k_dst_port :: u16
  k_protocol :: transport_protocol

definition key_eq :: "flow_key \<Rightarrow> flow_key \<Rightarrow> bool" where
  "key_eq k other \<longleftrightarrow>
     k_src_ip k = k_src_ip other \<and> k_src_port k = k_src_port other \<and>
     k_dst_ip k = k_dst_ip other \<and> k_dst_port k = k_dst_port other \<and>
     k_protocol k = k_protocol other"

definition normalized :: "flow_key \<Rightarrow> flow_key" where
  "normalized k =
     (if k_src_ip k > k_dst_ip k \<or> (k_src_ip k = k_dst_ip k \<and> k_src_port k > k_dst_port k)
      then k\<lparr>k_src_ip := k_dst_ip k, k_dst_ip := k_src_ip k,
             k_src_port := k_dst_port k, k_dst_port := k_src_port k\<rparr>
      else k)"

definition endpoint :: "string \<Rightarrow> u16 \<Rightarrow> string" where
  "endpoint ip port = ip @ '':'' @ show_nat (unat port)"

definition key_to_string :: "flow_key \<Rightarrow> string" where
  "key_to_string k =
     k_src_ip k @ '':'' @ show_nat (unat (k_src_port k)) @ '' -> '' @
     k_dst_ip k @ '':'' @ show_nat (unat (k_dst_port k)) @
     '' ['' @ (if k_protocol k = TCP then ''TCP'' else ''UDP'') @ '']''"

definition hash_mix :: "u64 \<Rightarrow> u64 \<Rightarrow> u64" where
  "hash_mix h x = h XOR (x + 0x9e3779b9 + push_bit 6 h + drop_bit 2 h)"

definition hash_key ::
    "(string \<Rightarrow> u64) \<Rightarrow> (u16 \<Rightarrow> u64) \<Rightarrow> (nat \<Rightarrow> u64) \<Rightarrow> flow_key \<Rightarrow> u64" where
  "hash_key hs h16 hi k =
     (let h = hs (k_src_ip k);
          h = hash_mix h (h16 (k_src_port k));
          h = hash_mix h (hs (k_dst_ip k));
          h = hash_mix h (h16 (k_dst_port k));
          h = hash_mix h (hi (proto_int (k_protocol k)))
      in h)"

section \<open>Equality and normal form\<close>

lemma key_eq_iff [simp]: "key_eq k l \<longleftrightarrow> k = l"
  by (cases k; cases l) (auto simp: key_eq_def)

definition reverse_key :: "flow_key \<Rightarrow> flow_key" where
  "reverse_key k = \<lparr>k_src_ip = k_dst_ip k, k_src_port = k_dst_port k,
     k_dst_ip = k_src_ip k, k_dst_port = k_src_port k, k_protocol = k_protocol k\<rparr>"

definition is_normal :: "flow_key \<Rightarrow> bool" where
  "is_normal k \<longleftrightarrow> k_src_ip k < k_dst_ip k \<or>
     (k_src_ip k = k_dst_ip k \<and> k_src_port k \<le> k_dst_port k)"

lemma reverse_reverse [simp]: "reverse_key (reverse_key k) = k"
  by (simp add: reverse_key_def)

lemma normalized_alt: "normalized k = (if is_normal k then k else reverse_key k)"
  by (cases k) (auto simp: normalized_def is_normal_def reverse_key_def)

lemma reverse_normal: "\<not> is_normal k \<Longrightarrow> is_normal (reverse_key k)"
  by (auto simp: is_normal_def reverse_key_def)

lemma both_normal: "is_normal k \<Longrightarrow> is_normal (reverse_key k) \<Longrightarrow> reverse_key k = k"
  by (cases k) (auto simp: is_normal_def reverse_key_def)

lemma normalized_normal [simp]: "is_normal (normalized k)"
  by (simp add: normalized_alt reverse_normal)

lemma normalized_id [simp]: "is_normal k \<Longrightarrow> normalized k = k"
  by (simp add: normalized_alt)

lemma normalized_reverse [simp]: "normalized (reverse_key k) = normalized k"
  using both_normal reverse_normal by (auto simp: normalized_alt)

lemma normalized_protocol [simp]: "k_protocol (normalized k) = k_protocol k"
  by (simp add: normalized_alt reverse_key_def)

lemma normalized_eq_iff: "normalized k = normalized l \<longleftrightarrow> l = k \<or> l = reverse_key k"
proof
  assume "normalized k = normalized l"
  then show "l = k \<or> l = reverse_key k"
    by (auto simp: normalized_alt split: if_splits) (metis reverse_reverse)+
qed auto

text \<open>The normal form of a flow key is canonical: it is ordered, normalising twice changes
  nothing, and two keys have the same normal form exactly when they are the same five-tuple or
  each other's reverse. So both directions of a conversation, and nothing else, share a flow.\<close>

lemma normalized_canonical:
  "is_normal (normalized k) \<and> normalized (normalized k) = normalized k \<and>
   (normalized k = normalized l \<longleftrightarrow> key_eq l k \<or> key_eq l (reverse_key k))"
  by (simp add: normalized_eq_iff)

section \<open>Text\<close>

lemma endpoint_split:
  assumes "CHR '':'' \<notin> set ip" "CHR '':'' \<notin> set ip'"
    and "endpoint ip port @ rest = endpoint ip' port' @ rest'"
    and "\<forall>c. rest = [] \<or> \<not> is_digit (hd rest)" "\<forall>c. rest' = [] \<or> \<not> is_digit (hd rest')"
  shows "ip = ip' \<and> port = port' \<and> rest = rest'"
proof -
  have "takeWhile (\<lambda>c. c \<noteq> CHR '':'') (endpoint ip port @ rest) = ip"
    "takeWhile (\<lambda>c. c \<noteq> CHR '':'') (endpoint ip' port' @ rest') = ip'"
    using assms(1,2) by (auto simp: endpoint_def takeWhile_append)
  with assms(3) have ip: "ip = ip'" by simp
  with assms(3) have eq: "show_nat (unat port) @ rest = show_nat (unat port') @ rest'"
    by (simp add: endpoint_def)
  have digits: "takeWhile is_digit (show_nat n @ r) = show_nat n"
    if "r = [] \<or> \<not> is_digit (hd r)" for n r
    using that show_nat_digits [of _ n] by (cases r) (auto simp: takeWhile_append)
  have "show_nat (unat port) = show_nat (unat port')"
    using eq digits assms(4,5) by metis
  with eq ip show ?thesis by (simp add: word_unat_eq_iff)
qed

lemma not_is_digit_space [simp]: "\<not> is_digit CHR '' ''"
  by (simp add: is_digit_def)

text \<open>The printed form of a TCP or UDP flow key determines the key, for addresses without
  a colon (every dotted IPv4 address).\<close>

lemma key_to_string_injective:
  assumes "key_to_string k = key_to_string l"
    and "k_protocol k \<in> {TCP, UDP}" "k_protocol l \<in> {TCP, UDP}"
    and "CHR '':'' \<notin> set (k_src_ip k @ k_dst_ip k @ k_src_ip l @ k_dst_ip l)"
  shows "key_eq k l"
proof -
  have "endpoint (k_src_ip k) (k_src_port k) @ ('' -> '' @ endpoint (k_dst_ip k) (k_dst_port k) @
        '' ['' @ (if k_protocol k = TCP then ''TCP'' else ''UDP'') @ '']'') =
      endpoint (k_src_ip l) (k_src_port l) @ ('' -> '' @ endpoint (k_dst_ip l) (k_dst_port l) @
        '' ['' @ (if k_protocol l = TCP then ''TCP'' else ''UDP'') @ '']'')"
    using assms(1) by (simp add: key_to_string_def endpoint_def)
  from endpoint_split [OF _ _ this] assms(4)
  have src: "k_src_ip k = k_src_ip l \<and> k_src_port k = k_src_port l" and
    "endpoint (k_dst_ip k) (k_dst_port k) @
        ('' ['' @ (if k_protocol k = TCP then ''TCP'' else ''UDP'') @ '']'') =
      endpoint (k_dst_ip l) (k_dst_port l) @
        ('' ['' @ (if k_protocol l = TCP then ''TCP'' else ''UDP'') @ '']'')"
    by auto
  from endpoint_split [OF _ _ this(2)] assms(4)
  have "k_dst_ip k = k_dst_ip l \<and> k_dst_port k = k_dst_port l \<and>
      (k_protocol k = TCP \<longleftrightarrow> k_protocol l = TCP)"
    by (auto split: if_splits)
  with src assms(2,3) show ?thesis by (auto simp: key_eq_def)
qed

definition key_a :: flow_key where
  "key_a = \<lparr>k_src_ip = ''10.0.0.1'', k_src_port = 1234, k_dst_ip = ''10.0.0.2'',
     k_dst_port = 5678, k_protocol = UDP\<rparr>"

lemma key_to_string_injective_instance: "key_eq key_a key_a"
  by (rule key_to_string_injective) (simp_all add: key_a_def)

section \<open>Hash\<close>

text \<open>
  The table uses the hash with \<open>operator==\<close>: equal keys must hash equally, which holds for
  any standard-library hashes. A key and its reverse hash alike only after normalisation.
\<close>

lemma hash_respects_equality: "key_eq k l \<Longrightarrow> hash_key hs h16 hi k = hash_key hs h16 hi l"
  by simp

text \<open>The hash of a key depends on its direction: with hashes that only tell ports apart,
  a key and its normal form hash differently, so the tracker's normalising before every lookup
  is what makes both directions meet (their normal forms always hash alike).\<close>

lemma hash_needs_normalized:
  "hash_key hs h16 hi (normalized k) = hash_key hs h16 hi (normalized (reverse_key k)) \<and>
   hash_key (\<lambda>_. 0) ucast of_nat (reverse_key key_a) \<noteq>
     hash_key (\<lambda>_. 0) ucast of_nat (normalized (reverse_key key_a))"
proof -
  have "is_normal key_a"
    by (simp add: is_normal_def key_a_def)
  then have "normalized (reverse_key key_a) = key_a"
    by simp
  moreover have "hash_key (\<lambda>_. 0) ucast of_nat (reverse_key key_a) \<noteq>
      hash_key (\<lambda>_. 0) ucast of_nat key_a"
    by (simp add: hash_key_def hash_mix_def reverse_key_def key_a_def Let_def)
  ultimately show ?thesis by simp
qed

end
