(* ===== verification/Messages.thy ===== *)
theory Messages
  imports Prelude
begin

text \<open>
  The decoded message handed from the flows and the decoder to the timeline
  (\<^verbatim>\<open>include/gatewayforge/protocol/DecodedMessage.h\<close>).
\<close>

record message =
  m_timestamp_us :: u64
  m_direction :: string
  m_type :: string
  m_summary :: string

definition new_message :: message where
  "new_message = \<lparr>m_timestamp_us = 0, m_direction = [], m_type = [], m_summary = []\<rparr>"

definition make_message :: "u64 \<Rightarrow> string \<Rightarrow> string \<Rightarrow> string \<Rightarrow> message" where
  "make_message ts dir t summ =
     \<lparr>m_timestamp_us = ts, m_direction = dir, m_type = t, m_summary = summ\<rparr>"

end
