(* ===== verification/Tcp_Reassembler.thy ===== *)
theory Tcp_Reassembler
  imports Packets Messages
begin

text \<open>
  \<^verbatim>\<open>TcpReassembler\<close> (\<^verbatim>\<open>src/flow/TcpReassembler.cpp\<close>): one direction of a TCP
  connection, kept as the bytes accepted so far and the sequence number expected next. Sequence
  numbers are 32-bit words, so the expected number wraps as TCP's does.
\<close>

record reassembler =
  r_stream :: "byte list"
  r_next_seq :: u32
  r_initialized :: bool

definition new_reassembler :: reassembler where
  "new_reassembler = \<lparr>r_stream = [], r_next_seq = 0, r_initialized = False\<rparr>"

text \<open>
  \<open>next_seq_ = seg_seq + len\<close> adds a 32-bit and a 64-bit integer and truncates the sum. The
  direction argument is unused in the source, too.
\<close>

definition add_segment :: "packet \<Rightarrow> bool \<Rightarrow> reassembler \<Rightarrow> reassembler outcome" where
  "add_segment p is_client_to_server r0 =
     (let r = (if \<not> r_initialized r0
               then r0\<lparr>r_next_seq := p_tcp_seq p, r_initialized := True\<rparr> else r0)
      in obind (payload p) (\<lambda>data.
           let len = (of_nat (length data) :: size_t)
           in if len = 0 then Inr r
              else let seg_seq = p_tcp_seq p
                   in if seg_seq = r_next_seq r
                      then Inr (r\<lparr>r_stream := r_stream r @ data,
                                  r_next_seq := ucast ((ucast seg_seq :: u64) + len)\<rparr>)
                      else Inr r))"

definition reassembler_byte_count :: "reassembler \<Rightarrow> size_t" where
  "reassembler_byte_count r = of_nat (length (r_stream r))"

definition reassembler_messages :: "reassembler \<Rightarrow> message list" where
  "reassembler_messages r =
     (if r_stream r \<noteq> []
      then [new_message\<lparr>m_timestamp_us := 0, m_type := ''TCP_STREAM'', m_direction := ''->'',
              m_summary := ''TCP stream ('' @ show_nat (length (r_stream r)) @ '' bytes)''\<rparr>]
      else [])"

section \<open>One segment\<close>

lemma next_seq_sum:
  "(ucast ((ucast (s :: u32) :: u64) + of_nat n) :: u32) = s + of_nat n"
proof -
  have trunc: "(ucast (of_nat m :: u64) :: u32) = of_nat m" for m
    by (simp add: word_unat_eq_iff unsigned_ucast_eq unsigned_of_nat)
  have "(ucast s :: u64) + of_nat n = of_nat (unat s + n)"
    by simp
  then have "(ucast ((ucast s :: u64) + of_nat n) :: u32) = of_nat (unat s + n)"
    by (simp only: trunc)
  then show ?thesis by simp
qed

lemma add_segment_null: "p_payload p = None \<Longrightarrow> add_segment p dir r = Inl Null_Deref"
  by (simp add: add_segment_def payload_null Let_def)

lemma add_segment_eq:
  assumes "has_payload p"
  shows "add_segment p dir r =
    (let s = (if r_initialized r then r_next_seq r else p_tcp_seq p)
     in Inr (if payload_bytes p \<noteq> [] \<and> p_tcp_seq p = s
             then r\<lparr>r_stream := r_stream r @ payload_bytes p,
                    r_next_seq := s + of_nat (length (payload_bytes p)), r_initialized := True\<rparr>
             else r\<lparr>r_next_seq := s, r_initialized := True\<rparr>))"
proof -
  have "(of_nat (length (payload_bytes p)) :: size_t) = 0 \<longleftrightarrow> payload_bytes p = []"
    using has_payload_bound [OF assms] by (simp add: size_of_nat_0)
  then show ?thesis
    using assms by (cases r) (auto simp: add_segment_def Let_def next_seq_sum)
qed

section \<open>Runs of segments\<close>

definition feed :: "packet list \<Rightarrow> bool \<Rightarrow> reassembler \<Rightarrow> reassembler outcome" where
  "feed ps dir r = ofold (\<lambda>p. add_segment p dir) ps r"

lemma feed_simps [simp]:
  "feed [] dir r = Inr r"
  "feed (p # ps) dir r = obind (add_segment p dir r) (feed ps dir)"
  by (simp_all add: feed_def [abs_def])

lemma add_segment_total: "has_payload p \<Longrightarrow> \<exists>r'. add_segment p dir r = Inr r'"
  by (simp add: add_segment_eq Let_def)

lemma feed_total: "(\<And>p. p \<in> set ps \<Longrightarrow> has_payload p) \<Longrightarrow> \<exists>r'. feed ps dir r = Inr r'"
proof (induction ps arbitrary: r)
  case (Cons p ps)
  obtain r1 where "add_segment p dir r = Inr r1"
    using add_segment_total Cons.prems by (metis list.set_intros(1))
  with Cons show ?case by auto
qed simp

text \<open>
  What a sender puts on the wire: \<open>S\<close> is the byte stream of the connection and the byte at
  position \<open>k\<close> carries the sequence number \<open>isn + k\<close>.
\<close>

definition segment_at :: "byte list \<Rightarrow> u32 \<Rightarrow> packet \<Rightarrow> nat \<Rightarrow> bool" where
  "segment_at S isn p k \<longleftrightarrow>
     k + length (payload_bytes p) \<le> length S \<and> p_tcp_seq p = isn + of_nat k \<and>
     payload_bytes p = take (length (payload_bytes p)) (drop k S)"

definition carries :: "byte list \<Rightarrow> u32 \<Rightarrow> packet \<Rightarrow> bool" where
  "carries S isn p \<longleftrightarrow> (\<exists>k \<le> length S. segment_at S isn p k)"

definition holds_slice :: "byte list \<Rightarrow> u32 \<Rightarrow> nat \<Rightarrow> reassembler \<Rightarrow> bool" where
  "holds_slice S isn k0 r \<longleftrightarrow> r_initialized r \<and>
     (\<exists>m. k0 + m \<le> length S \<and> r_stream r = take m (drop k0 S) \<and>
          r_next_seq r = isn + of_nat (k0 + m))"

lemma seq_position_unique:
  assumes "isn + of_nat a = (isn + of_nat b :: u32)" and "a < 2 ^ 32" "b < 2 ^ 32"
  shows "a = b"
proof -
  have "(of_nat a :: u32) = of_nat b" using assms(1) by simp
  then have "unat (of_nat a :: u32) = unat (of_nat b :: u32)" by simp
  then show ?thesis using assms(2,3) by (simp add: unat_of_nat_less)
qed

lemma take_extend: "take m (drop k xs) @ take n (drop (k + m) xs) = take (m + n) (drop k xs)"
  by (simp add: take_add add.commute)

lemma add_segment_slice:
  assumes "holds_slice S isn k0 r" and "carries S isn p" and "length S < 2 ^ 32"
    and "has_payload p" and "add_segment p dir r = Inr r'"
  shows "holds_slice S isn k0 r'"
proof -
  obtain m where r: "r_initialized r" "k0 + m \<le> length S" "r_stream r = take m (drop k0 S)"
      "r_next_seq r = isn + of_nat (k0 + m)"
    using assms(1) by (auto simp: holds_slice_def)
  obtain k where k: "k + length (payload_bytes p) \<le> length S" "p_tcp_seq p = isn + of_nat k"
      "payload_bytes p = take (length (payload_bytes p)) (drop k S)"
    using assms(2) by (auto simp: carries_def segment_at_def)
  show ?thesis
  proof (cases "payload_bytes p \<noteq> [] \<and> p_tcp_seq p = r_next_seq r")
    case True
    then have "k = k0 + m"
      using r(2,4) k(1,2) assms(3) by (intro seq_position_unique [of isn]) auto
    with k(3) have stream: "r_stream r @ payload_bytes p =
        take (m + length (payload_bytes p)) (drop k0 S)"
      unfolding r(3) by (metis take_extend)
    have "r' = r\<lparr>r_stream := r_stream r @ payload_bytes p,
        r_next_seq := isn + of_nat (k0 + (m + length (payload_bytes p)))\<rparr>"
      using True assms(4,5) r by (cases r) (auto simp: add_segment_eq ac_simps)
    with stream k(1) r(1) \<open>k = k0 + m\<close> show ?thesis
      unfolding holds_slice_def
      by (intro conjI exI [of _ "m + length (payload_bytes p)"]) simp_all
  next
    case False
    with assms(4,5) r(1) have "r' = r"
      by (cases r) (auto simp: add_segment_eq split: if_splits)
    with assms(1) show ?thesis by simp
  qed
qed

lemma first_segment_slice:
  assumes "segment_at S isn p k" and "has_payload p" and "add_segment p dir new_reassembler = Inr r"
  shows "holds_slice S isn k r"
proof (cases "payload_bytes p = []")
  case True
  with assms show ?thesis
    unfolding holds_slice_def
    by (intro conjI exI [of _ 0]) (auto simp: add_segment_eq new_reassembler_def segment_at_def)
next
  case False
  with assms show ?thesis
    unfolding holds_slice_def
    by (intro conjI exI [of _ "length (payload_bytes p)"])
      (auto simp: add_segment_eq new_reassembler_def segment_at_def ac_simps)
qed

lemma feed_slice:
  assumes "holds_slice S isn k0 r" and "length S < 2 ^ 32"
    and "\<And>p. p \<in> set ps \<Longrightarrow> has_payload p \<and> carries S isn p"
    and "feed ps dir r = Inr r'"
  shows "holds_slice S isn k0 r'"
  using assms(4) [unfolded feed_def] assms(1)
  by (rule ofold_invariant) (use assms(2,3) in \<open>blast intro: add_segment_slice\<close>)

text \<open>C7: Whatever subset of a connection's segments is captured, in whatever order and with
  whatever duplicates, feeding them never fails and the reassembled stream is a gap-free
  run of the bytes the sender sent, starting at the first captured segment; the expected
  sequence number is the one of the byte that follows it.\<close>

theorem reassembly_is_a_slice:
  assumes "length S < 2 ^ 32" and "segment_at S isn p k" "has_payload p"
    and "\<forall>q \<in> set ps. has_payload q \<and> carries S isn q"
  shows "\<exists>r m. feed (p # ps) dir new_reassembler = Inr r \<and> k + m \<le> length S \<and>
    r_stream r = take m (drop k S) \<and> r_next_seq r = isn + of_nat (k + m)"
proof -
  obtain r1 r where r1: "add_segment p dir new_reassembler = Inr r1"
    and r: "feed ps dir r1 = Inr r"
    using add_segment_total [OF assms(3)] feed_total assms(4) by metis
  have "holds_slice S isn k r1"
    by (rule first_segment_slice [OF assms(2,3) r1])
  then have "holds_slice S isn k r"
    using r assms(1,4) by (blast intro: feed_slice)
  with r1 r show ?thesis by (auto simp: holds_slice_def)
qed

definition tcp_segment :: "u32 \<Rightarrow> byte list \<Rightarrow> packet" where
  "tcp_segment s pl = new_packet\<lparr>p_protocol := TCP, p_tcp_seq := s, p_payload := Some pl\<rparr>"

lemma tcp_segment_payload [simp]:
  "payload_bytes (tcp_segment s pl) = pl" "has_payload (tcp_segment s pl) \<longleftrightarrow> length pl < 2 ^ 64"
  "p_tcp_seq (tcp_segment s pl) = s"
  by (simp_all add: tcp_segment_def payload_bytes_def has_payload_def)

theorem reassembly_is_a_slice_witness:
  "\<exists>r m. feed [tcp_segment 0xFFFFFFFF [1, 2], tcp_segment 3 [5], tcp_segment 1 [3, 4]] True
      new_reassembler = Inr r \<and> 0 + m \<le> length [1, 2, 3, 4, 5 :: byte] \<and>
    r_stream r = take m (drop 0 [1, 2, 3, 4, 5]) \<and> r_next_seq r = 0xFFFFFFFF + of_nat (0 + m)"
proof (rule reassembly_is_a_slice)
  have at: "segment_at [1, 2, 3, 4, 5] 0xFFFFFFFF (tcp_segment 3 [5]) 4"
    "segment_at [1, 2, 3, 4, 5] 0xFFFFFFFF (tcp_segment 1 [3, 4]) 2"
    by (simp_all add: segment_at_def take_Cons' drop_Cons')
  have "carries [1, 2, 3, 4, 5] 0xFFFFFFFF (tcp_segment 3 [5])"
    unfolding carries_def by (rule exI [of _ 4]) (use at in simp)
  moreover have "carries [1, 2, 3, 4, 5] 0xFFFFFFFF (tcp_segment 1 [3, 4])"
    unfolding carries_def by (rule exI [of _ 2]) (use at in simp)
  ultimately show "\<forall>q\<in>set [tcp_segment 3 [5], tcp_segment 1 [3, 4]].
      has_payload q \<and> carries [1, 2, 3, 4, 5] 0xFFFFFFFF q"
    by simp
qed (simp_all add: segment_at_def take_Cons' drop_Cons')

fun contiguous :: "u32 \<Rightarrow> packet list \<Rightarrow> bool" where
  "contiguous s [] = True"
| "contiguous s (p # ps) =
     (p_tcp_seq p = s \<and> contiguous (s + of_nat (length (payload_bytes p))) ps)"

lemma feed_contiguous:
  assumes "\<And>p. p \<in> set ps \<Longrightarrow> has_payload p" and "contiguous s ps"
    and "r_initialized r \<Longrightarrow> r_next_seq r = s"
  shows "\<exists>r'. feed ps dir r = Inr r' \<and> r_stream r' = r_stream r @ concat (map payload_bytes ps) \<and>
    (ps \<noteq> [] \<longrightarrow> r_next_seq r' = s + of_nat (length (concat (map payload_bytes ps))))"
  using assms
proof (induction ps arbitrary: s r)
  case (Cons p ps)
  let ?pl = "payload_bytes p"
  obtain r1 where r1: "add_segment p dir r = Inr r1" "r_initialized r1"
      "r_stream r1 = r_stream r @ ?pl" "r_next_seq r1 = s + of_nat (length ?pl)"
    using Cons.prems by (auto simp: add_segment_eq Let_def)
  from Cons.IH [of "s + of_nat (length ?pl)" r1] Cons.prems r1 obtain r2 where
    "feed ps dir r1 = Inr r2" "r_stream r2 = r_stream r1 @ concat (map payload_bytes ps)"
    "ps \<noteq> [] \<longrightarrow> r_next_seq r2 = s + of_nat (length ?pl) + of_nat (length (concat (map payload_bytes ps)))"
    by auto
  with r1 show ?case by (cases "ps = []") (auto simp: ac_simps)
qed simp

text \<open>C8: In-order delivery: consecutive segments reassemble to the concatenation of their
  payloads, of any total length and across the wrap-around of sequence numbers.\<close>

theorem in_order_reassembly:
  assumes "contiguous s ps" and "\<forall>p \<in> set ps. has_payload p"
  shows "\<exists>r. feed ps dir new_reassembler = Inr r \<and> r_stream r = concat (map payload_bytes ps) \<and>
    (ps \<noteq> [] \<longrightarrow> r_next_seq r = s + of_nat (length (concat (map payload_bytes ps))))"
  using feed_contiguous [of ps s new_reassembler] assms
  by (auto simp: new_reassembler_def)

theorem in_order_reassembly_witness:
  "\<exists>r. feed [tcp_segment 0xFFFFFFFE [1, 2, 3], tcp_segment 1 [4]] True new_reassembler = Inr r \<and>
    r_stream r = [1, 2, 3, 4] \<and> r_next_seq r = 0xFFFFFFFE + 4"
  using in_order_reassembly [where s = "0xFFFFFFFE" and dir = True
      and ps = "[tcp_segment 0xFFFFFFFE [1, 2, 3], tcp_segment 1 [4]]"]
  by simp

lemma feed_blocked:
  assumes "r_initialized r" and "\<And>p. p \<in> set ps \<Longrightarrow> has_payload p \<and>
      (payload_bytes p = [] \<or> p_tcp_seq p \<noteq> r_next_seq r)"
  shows "feed ps dir r = Inr r"
  using assms(2)
proof (induction ps)
  case (Cons p ps)
  then have "add_segment p dir r = Inr r"
    using assms(1) by (cases r) (auto simp: add_segment_eq Let_def)
  with Cons show ?case by simp
qed simp

text \<open>C40: A captured handshake stalls the stream. The reassembler takes the expected number from the
  first segment, its payload included; a SYN carries no byte of the stream and consumes a number,
  and the padding of its frame, if any, is taken for payload. So after a SYN with \<open>n\<close> bytes (0
  or the padding) only a segment at \<open>n\<close> behind the SYN's own number is accepted, where
  the data starts at 1 behind it: without such a segment the direction never holds a byte of data.\<close>

theorem handshake_stalls_stream:
  assumes "has_payload syn" and "\<forall>p \<in> set ps. has_payload p \<and>
      (payload_bytes p = [] \<or> p_tcp_seq p \<noteq> p_tcp_seq syn + of_nat (length (payload_bytes syn)))"
  shows "\<exists>r. feed (syn # ps) dir new_reassembler = Inr r \<and> r_stream r = payload_bytes syn"
proof -
  let ?r = "\<lparr>r_stream = payload_bytes syn,
    r_next_seq = p_tcp_seq syn + of_nat (length (payload_bytes syn)), r_initialized = True\<rparr>"
  have "add_segment syn dir new_reassembler = Inr ?r"
    using assms(1) by (auto simp: add_segment_eq new_reassembler_def Let_def)
  moreover have "feed ps dir ?r = Inr ?r"
    using assms(2) by (intro feed_blocked) auto
  ultimately show ?thesis by simp
qed

theorem handshake_stalls_stream_witness:
  "\<exists>r. feed [tcp_segment 99 [], tcp_segment 100 [1, 2], tcp_segment 102 [3]] True new_reassembler =
    Inr r \<and> r_stream r = []"
  using handshake_stalls_stream [of "tcp_segment 99 []" "[tcp_segment 100 [1, 2], tcp_segment 102 [3]]" True]
  by simp

end
