(* ===== verification/Flows.thy ===== *)
theory Flows
  imports Complex_Main Flow_Key Tcp_Reassembler
begin

text \<open>
  The flows (\<^verbatim>\<open>src/flow/UdpDatagramTracker.cpp\<close>, \<^verbatim>\<open>UdpFlow.cpp\<close>, \<^verbatim>\<open>TcpFlow.cpp\<close>)
  and the abstract class \<^verbatim>\<open>Flow\<close> (\<^verbatim>\<open>include/gatewayforge/flow/FlowTracker.h\<close>) they
  implement. The class is the locale \<open>flow_class\<close>: what a client of \<open>Flow*\<close> may rely on;
  both subclasses and the virtual dispatch over them interpret it.
\<close>

section \<open>Datagram tracker\<close>

text \<open>
  No constructor initialises the three counters; \<open>None\<close> is their indeterminate value.
\<close>

record datagram_tracker =
  u_datagrams :: "packet list"
  u_missing_seq_count :: "size_t option"
  u_out_of_order_count :: "size_t option"
  u_duplicate_count :: "size_t option"

definition new_datagram_tracker :: datagram_tracker where
  "new_datagram_tracker = \<lparr>u_datagrams = [], u_missing_seq_count = None,
     u_out_of_order_count = None, u_duplicate_count = None\<rparr>"

definition add_datagram :: "packet \<Rightarrow> datagram_tracker \<Rightarrow> datagram_tracker" where
  "add_datagram p t = t\<lparr>u_datagrams := u_datagrams t @ [copy_packet p]\<rparr>"

definition datagram_count :: "datagram_tracker \<Rightarrow> size_t" where
  "datagram_count t = of_nat (length (u_datagrams t))"

definition datagram_byte_count :: "datagram_tracker \<Rightarrow> size_t outcome" where
  "datagram_byte_count t =
     ofold (\<lambda>d total. obind (payload_size d) (\<lambda>n. Inr (total + n))) (u_datagrams t) 0"

definition read_counter :: "size_t option \<Rightarrow> size_t outcome" where
  "read_counter c = (case c of None \<Rightarrow> Inl Indeterminate_Read | Some n \<Rightarrow> Inr n)"

definition loss_rate :: "datagram_tracker \<Rightarrow> real outcome" where
  "loss_rate t =
     (let total = datagram_count t
      in if total = 0 then Inr 0
         else obind (read_counter (u_missing_seq_count t))
                (\<lambda>n. Inr (real (unat n) / real (unat total))))"

definition reorder_rate :: "datagram_tracker \<Rightarrow> real outcome" where
  "reorder_rate t =
     (let total = datagram_count t
      in if total = 0 then Inr 0
         else obind (read_counter (u_out_of_order_count t))
                (\<lambda>n. Inr (real (unat n) / real (unat total))))"

section \<open>UDP flow\<close>

record udp_flow =
  uf_key :: flow_key
  uf_tracker :: datagram_tracker
  uf_first_seen :: u64
  uf_last_seen :: u64

definition new_udp_flow :: "flow_key \<Rightarrow> udp_flow" where
  "new_udp_flow key = \<lparr>uf_key = key, uf_tracker = new_datagram_tracker,
     uf_first_seen = 0, uf_last_seen = 0\<rparr>"

definition udp_packet_count :: "udp_flow \<Rightarrow> size_t" where
  "udp_packet_count f = datagram_count (uf_tracker f)"

definition udp_byte_count :: "udp_flow \<Rightarrow> size_t outcome" where
  "udp_byte_count f = datagram_byte_count (uf_tracker f)"

definition udp_on_packet :: "packet \<Rightarrow> udp_flow \<Rightarrow> udp_flow outcome" where
  "udp_on_packet p f0 =
     (let f = (if datagram_count (uf_tracker f0) = 0
               then f0\<lparr>uf_first_seen := p_timestamp_us p\<rparr> else f0);
          f = f\<lparr>uf_last_seen := p_timestamp_us p\<rparr>
      in Inr (f\<lparr>uf_tracker := add_datagram p (uf_tracker f)\<rparr>))"

definition udp_datagram_message :: "nat \<Rightarrow> packet \<Rightarrow> message outcome" where
  "udp_datagram_message i d =
     obind (payload_size d) (\<lambda>n.
       Inr (new_message\<lparr>m_timestamp_us := p_timestamp_us d, m_type := ''UDP_DATAGRAM'',
         m_direction := p_src_ip d @ '':'' @ show_nat (unat (p_src_port d)) @ '' -> '' @
           p_dst_ip d @ '':'' @ show_nat (unat (p_dst_port d)),
         m_summary := ''datagram #'' @ show_nat (i + 1) @ '' ('' @ show_nat (unat n) @ '' bytes)''\<rparr>))"

definition udp_messages :: "udp_flow \<Rightarrow> message list outcome" where
  "udp_messages f =
     ofold (\<lambda>i acc. obind (udp_datagram_message i (u_datagrams (uf_tracker f) ! i))
                      (\<lambda>m. Inr (acc @ [m])))
       [0..<length (u_datagrams (uf_tracker f))] []"

section \<open>TCP flow\<close>

record tcp_flow =
  tf_key :: flow_key
  tf_client_to_server :: reassembler
  tf_server_to_client :: reassembler
  tf_packet_count :: size_t
  tf_first_seen :: u64
  tf_last_seen :: u64

definition new_tcp_flow :: "flow_key \<Rightarrow> tcp_flow" where
  "new_tcp_flow key = \<lparr>tf_key = key, tf_client_to_server = new_reassembler,
     tf_server_to_client = new_reassembler, tf_packet_count = 0, tf_first_seen = 0,
     tf_last_seen = 0\<rparr>"

definition is_client_side :: "flow_key \<Rightarrow> packet \<Rightarrow> bool" where
  "is_client_side key p \<longleftrightarrow> p_src_ip p = k_src_ip key \<and> p_src_port p = k_src_port key"

definition tcp_on_packet :: "packet \<Rightarrow> tcp_flow \<Rightarrow> tcp_flow outcome" where
  "tcp_on_packet p f0 =
     (let f = (if tf_packet_count f0 = 0 then f0\<lparr>tf_first_seen := p_timestamp_us p\<rparr> else f0);
          f = f\<lparr>tf_last_seen := p_timestamp_us p, tf_packet_count := tf_packet_count f + 1\<rparr>
      in if is_client_side (tf_key f) p
         then obind (add_segment p True (tf_client_to_server f))
                (\<lambda>r. Inr (f\<lparr>tf_client_to_server := r\<rparr>))
         else obind (add_segment p False (tf_server_to_client f))
                (\<lambda>r. Inr (f\<lparr>tf_server_to_client := r\<rparr>)))"

definition tcp_byte_count :: "tcp_flow \<Rightarrow> size_t" where
  "tcp_byte_count f =
     reassembler_byte_count (tf_client_to_server f) + reassembler_byte_count (tf_server_to_client f)"

definition tcp_messages :: "tcp_flow \<Rightarrow> message list" where
  "tcp_messages f =
     reassembler_messages (tf_client_to_server f) @ reassembler_messages (tf_server_to_client f)"

text \<open>What the timeline reads of the two classes.\<close>

definition client_to_server :: "tcp_flow \<Rightarrow> reassembler" where
  [simp]: "client_to_server f = tf_client_to_server f"

definition server_to_client :: "tcp_flow \<Rightarrow> reassembler" where
  [simp]: "server_to_client f = tf_server_to_client f"

definition udp_tracker :: "udp_flow \<Rightarrow> datagram_tracker" where
  [simp]: "udp_tracker f = uf_tracker f"

definition datagrams :: "datagram_tracker \<Rightarrow> packet list" where
  [simp]: "datagrams t = u_datagrams t"

section \<open>The class Flow\<close>

text \<open>What the two classes override.\<close>

definition tcp_protocol :: "tcp_flow \<Rightarrow> transport_protocol" where
  [simp]: "tcp_protocol f = TCP"

definition tcp_key :: "tcp_flow \<Rightarrow> flow_key" where
  [simp]: "tcp_key f = tf_key f"

definition tcp_packet_count :: "tcp_flow \<Rightarrow> size_t" where
  [simp]: "tcp_packet_count f = tf_packet_count f"

definition tcp_first_seen :: "tcp_flow \<Rightarrow> u64" where
  [simp]: "tcp_first_seen f = tf_first_seen f"

definition tcp_last_seen :: "tcp_flow \<Rightarrow> u64" where
  [simp]: "tcp_last_seen f = tf_last_seen f"

definition udp_protocol :: "udp_flow \<Rightarrow> transport_protocol" where
  [simp]: "udp_protocol f = UDP"

definition udp_key :: "udp_flow \<Rightarrow> flow_key" where
  [simp]: "udp_key f = uf_key f"

definition udp_first_seen :: "udp_flow \<Rightarrow> u64" where
  [simp]: "udp_first_seen f = uf_first_seen f"

definition udp_last_seen :: "udp_flow \<Rightarrow> u64" where
  [simp]: "udp_last_seen f = uf_last_seen f"

datatype flow = Tcp_Flow tcp_flow | Udp_Flow udp_flow

primrec flow_protocol :: "flow \<Rightarrow> transport_protocol" where
  "flow_protocol (Tcp_Flow f) = tcp_protocol f"
| "flow_protocol (Udp_Flow f) = udp_protocol f"

primrec flow_on_packet :: "packet \<Rightarrow> flow \<Rightarrow> flow outcome" where
  "flow_on_packet p (Tcp_Flow f) = obind (tcp_on_packet p f) (\<lambda>f'. Inr (Tcp_Flow f'))"
| "flow_on_packet p (Udp_Flow f) = obind (udp_on_packet p f) (\<lambda>f'. Inr (Udp_Flow f'))"

primrec flow_key_of :: "flow \<Rightarrow> flow_key" where
  "flow_key_of (Tcp_Flow f) = tcp_key f"
| "flow_key_of (Udp_Flow f) = udp_key f"

primrec flow_packet_count :: "flow \<Rightarrow> size_t" where
  "flow_packet_count (Tcp_Flow f) = tcp_packet_count f"
| "flow_packet_count (Udp_Flow f) = udp_packet_count f"

primrec flow_byte_count :: "flow \<Rightarrow> size_t outcome" where
  "flow_byte_count (Tcp_Flow f) = Inr (tcp_byte_count f)"
| "flow_byte_count (Udp_Flow f) = udp_byte_count f"

primrec flow_first_seen :: "flow \<Rightarrow> u64" where
  "flow_first_seen (Tcp_Flow f) = tcp_first_seen f"
| "flow_first_seen (Udp_Flow f) = udp_first_seen f"

primrec flow_last_seen :: "flow \<Rightarrow> u64" where
  "flow_last_seen (Tcp_Flow f) = tcp_last_seen f"
| "flow_last_seen (Udp_Flow f) = udp_last_seen f"

text \<open>The contract: counting, timestamps and identity of a flow under \<open>OnPacket\<close>.\<close>

locale flow_class =
  fixes on_packet :: "packet \<Rightarrow> 'f \<Rightarrow> 'f outcome"
    and key :: "'f \<Rightarrow> flow_key"
    and packet_count :: "'f \<Rightarrow> size_t"
    and first_seen :: "'f \<Rightarrow> u64"
    and last_seen :: "'f \<Rightarrow> u64"
  assumes accepts: "has_payload p \<Longrightarrow> \<exists>f'. on_packet p f = Inr f'"
    and keeps_key: "on_packet p f = Inr f' \<Longrightarrow> key f' = key f"
    and counts: "on_packet p f = Inr f' \<Longrightarrow> packet_count f' = packet_count f + 1"
    and sets_first: "on_packet p f = Inr f' \<Longrightarrow>
      first_seen f' = (if packet_count f = 0 then p_timestamp_us p else first_seen f)"
    and sets_last: "on_packet p f = Inr f' \<Longrightarrow> last_seen f' = p_timestamp_us p"
begin

lemma run_total: "(\<And>p. p \<in> set ps \<Longrightarrow> has_payload p) \<Longrightarrow> \<exists>f'. ofold on_packet ps f = Inr f'"
proof (induction ps arbitrary: f)
  case (Cons p ps)
  obtain f1 where "on_packet p f = Inr f1"
    using accepts Cons.prems by (metis list.set_intros(1))
  with Cons show ?case by auto
qed simp

lemma run_key: "ofold on_packet ps f = Inr f' \<Longrightarrow> key f' = key f"
  by (induction ps arbitrary: f) (auto simp: obind_eq_Inr dest: keeps_key)

lemma run_count: "ofold on_packet ps f = Inr f' \<Longrightarrow> packet_count f' = packet_count f + of_nat (length ps)"
  by (induction ps arbitrary: f) (auto simp: obind_eq_Inr dest!: counts)

lemma run_seen:
  assumes "ofold on_packet ps f = Inr f'" and "packet_count f = 0" and "ps \<noteq> []"
    and "length ps < 2 ^ 64"
  shows "first_seen f' = p_timestamp_us (hd ps) \<and> last_seen f' = p_timestamp_us (last ps)"
  using assms(1,3,4)
proof (induction ps arbitrary: f' rule: rev_induct)
  case (snoc p ps)
  then obtain f1 where f1: "ofold on_packet ps f = Inr f1" "on_packet p f1 = Inr f'"
    by (auto simp: ofold_append obind_eq_Inr)
  have "packet_count f1 = of_nat (length ps)"
    using run_count [OF f1(1)] assms(2) by simp
  with snoc.prems have "packet_count f1 = 0 \<longleftrightarrow> ps = []"
    by (simp add: size_of_nat_0)
  then show ?case
    using snoc f1 sets_first [OF f1(2)] sets_last [OF f1(2)] by (cases "ps = []") auto
qed simp

end

lemma tcp_on_packet_ok:
  assumes "tcp_on_packet p f = Inr f'"
  shows "tf_key f' = tf_key f" "tf_packet_count f' = tf_packet_count f + 1"
    "tf_first_seen f' = (if tf_packet_count f = 0 then p_timestamp_us p else tf_first_seen f)"
    "tf_last_seen f' = p_timestamp_us p"
  using assms by (auto simp: tcp_on_packet_def Let_def obind_eq_Inr split: if_splits)

lemma tcp_on_packet_accepts: "has_payload p \<Longrightarrow> \<exists>f'. tcp_on_packet p f = Inr f'"
  using add_segment_total [of p] by (auto simp: tcp_on_packet_def Let_def) (metis obind_Inr)+

lemma udp_on_packet_ok:
  assumes "udp_on_packet p f = Inr f'"
  shows "uf_key f' = uf_key f" "udp_packet_count f' = udp_packet_count f + 1"
    "uf_first_seen f' = (if udp_packet_count f = 0 then p_timestamp_us p else uf_first_seen f)"
    "uf_last_seen f' = p_timestamp_us p"
  using assms
  by (auto simp: udp_on_packet_def Let_def udp_packet_count_def datagram_count_def add_datagram_def)

interpretation tcp: flow_class tcp_on_packet tf_key tf_packet_count tf_first_seen tf_last_seen
  by unfold_locales (simp_all add: tcp_on_packet_accepts tcp_on_packet_ok)

interpretation udp: flow_class udp_on_packet uf_key udp_packet_count uf_first_seen uf_last_seen
  by unfold_locales (simp_all add: udp_on_packet_ok, simp add: udp_on_packet_def Let_def)

interpretation fl: flow_class flow_on_packet flow_key_of flow_packet_count flow_first_seen flow_last_seen
proof unfold_locales
  fix p f f'
  show "has_payload p \<Longrightarrow> \<exists>f'. flow_on_packet p f = Inr f'"
    using tcp.accepts udp.accepts by (cases f) (metis flow_on_packet.simps obind_Inr)+
  assume "flow_on_packet p f = Inr f'"
  then show "flow_key_of f' = flow_key_of f" "flow_packet_count f' = flow_packet_count f + 1"
    "flow_first_seen f' = (if flow_packet_count f = 0 then p_timestamp_us p else flow_first_seen f)"
    "flow_last_seen f' = p_timestamp_us p"
    by (cases f; auto simp: obind_eq_Inr tcp_on_packet_ok udp_on_packet_ok)+
qed

section \<open>Runs of packets through a flow\<close>

definition run_flow :: "packet list \<Rightarrow> flow \<Rightarrow> flow outcome" where
  "run_flow ps f = ofold flow_on_packet ps f"

text \<open>A flow of either class summarises its packets: after any non-empty run of packets
  with payload buffers, the call has succeeded, the key is unchanged, the packet count is the
  number of packets, and the first and last timestamps are those of the first and last packet.\<close>

lemma flow_summary:
  assumes "flow_packet_count f = 0" and "ps \<noteq> []" "length ps < 2 ^ 64" "\<forall>p \<in> set ps. has_payload p"
  shows "\<exists>f'. run_flow ps f = Inr f' \<and> flow_key_of f' = flow_key_of f \<and>
    flow_packet_count f' = of_nat (length ps) \<and>
    flow_first_seen f' = p_timestamp_us (hd ps) \<and> flow_last_seen f' = p_timestamp_us (last ps)"
  using fl.run_total [of ps f] fl.run_key [of ps f] fl.run_count [of ps f] fl.run_seen [of ps f] assms
  by (auto simp: run_flow_def)

definition some_key :: flow_key where
  "some_key = \<lparr>k_src_ip = ''10.0.0.1'', k_src_port = 1, k_dst_ip = ''10.0.0.2'', k_dst_port = 2,
     k_protocol = TCP\<rparr>"

lemma flow_summary_instance:
  "\<exists>f'. run_flow [(tcp_segment 7 [1])\<lparr>p_timestamp_us := 5\<rparr>, (tcp_segment 8 [2])\<lparr>p_timestamp_us := 9\<rparr>]
      (Tcp_Flow (new_tcp_flow some_key)) = Inr f' \<and>
    flow_key_of f' = some_key \<and> flow_packet_count f' = of_nat 2 \<and>
    flow_first_seen f' = 5 \<and> flow_last_seen f' = 9"
  using flow_summary [of "Tcp_Flow (new_tcp_flow some_key)"
      "[(tcp_segment 7 [1])\<lparr>p_timestamp_us := 5\<rparr>, (tcp_segment 8 [2])\<lparr>p_timestamp_us := 9\<rparr>]"]
  by (simp add: new_tcp_flow_def has_payload_def tcp_segment_def)

lemma udp_run_datagrams:
  "ofold udp_on_packet ps f = Inr f' \<Longrightarrow>
    u_datagrams (uf_tracker f') = u_datagrams (uf_tracker f) @ ps \<and>
    u_missing_seq_count (uf_tracker f') = u_missing_seq_count (uf_tracker f) \<and>
    u_out_of_order_count (uf_tracker f') = u_out_of_order_count (uf_tracker f)"
  by (induction ps arbitrary: f) (auto simp: obind_eq_Inr udp_on_packet_def Let_def add_datagram_def)

lemma udp_run_total: "\<exists>f'. ofold udp_on_packet ps f = Inr f'"
  by (induction ps arbitrary: f) (auto simp: udp_on_packet_def Let_def)

lemma udp_dispatch:
  "ofold flow_on_packet ps (Udp_Flow f) = obind (ofold udp_on_packet ps f) (\<lambda>f'. Inr (Udp_Flow f'))"
  by (induction ps arbitrary: f) (auto simp: obind_assoc intro!: arg_cong [where f = "obind _"])

lemma tcp_dispatch:
  "ofold flow_on_packet ps (Tcp_Flow f) = obind (ofold tcp_on_packet ps f) (\<lambda>f'. Inr (Tcp_Flow f'))"
  by (induction ps arbitrary: f) (auto simp: obind_assoc intro!: arg_cong [where f = "obind _"])

lemma tcp_on_packet_sides:
  assumes "tcp_on_packet p f = Inr f'"
  shows "feed (filter (is_client_side (tf_key f)) [p]) True (tf_client_to_server f) =
      Inr (tf_client_to_server f')"
    and "feed (filter (\<lambda>p. \<not> is_client_side (tf_key f) p) [p]) False (tf_server_to_client f) =
      Inr (tf_server_to_client f')"
  using assms by (auto simp: tcp_on_packet_def Let_def obind_eq_Inr split: if_splits)

lemma feed_append: "feed (ps @ qs) dir r = obind (feed ps dir r) (feed qs dir)"
  by (simp add: feed_def [abs_def] ofold_append)

text \<open>Each direction's reassembler sees exactly its own packets, in order.\<close>

lemma tcp_run_sides:
  assumes "ofold tcp_on_packet ps f = Inr f'"
  shows "feed (filter (is_client_side (tf_key f)) ps) True (tf_client_to_server f) =
      Inr (tf_client_to_server f') \<and>
    feed (filter (\<lambda>p. \<not> is_client_side (tf_key f) p) ps) False (tf_server_to_client f) =
      Inr (tf_server_to_client f')"
  using assms
proof (induction ps arbitrary: f' rule: rev_induct)
  case (snoc p ps)
  then obtain f1 where f1: "ofold tcp_on_packet ps f = Inr f1" "tcp_on_packet p f1 = Inr f'"
    by (auto simp: ofold_append obind_eq_Inr)
  with tcp.run_key [OF f1(1)] tcp_on_packet_sides [OF f1(2)] snoc.IH show ?case
    by (simp add: feed_append del: filter.simps)
qed simp

text \<open>The loss and reorder rates of every UDP flow that has seen a datagram read a counter
  nothing ever initialised: no constructor sets the three counters and no operation updates
  them.\<close>

lemma loss_rate_is_indeterminate:
  assumes "ofold udp_on_packet ps (new_udp_flow k) = Inr f" and "ps \<noteq> []" "length ps < 2 ^ 64"
  shows "loss_rate (uf_tracker f) = Inl Indeterminate_Read \<and>
    reorder_rate (uf_tracker f) = Inl Indeterminate_Read"
  using udp_run_datagrams [OF assms(1)] assms(2,3)
  by (simp add: loss_rate_def reorder_rate_def datagram_count_def new_udp_flow_def
      new_datagram_tracker_def read_counter_def size_of_nat_0)

lemma byte_count_sum:
  assumes "\<And>d. d \<in> set ds \<Longrightarrow> has_payload d"
  shows "ofold (\<lambda>d total. obind (payload_size d) (\<lambda>n. Inr (total + n))) ds s =
    Inr (s + of_nat (sum_list (map (length \<circ> payload_bytes) ds)))"
  using assms by (induction ds arbitrary: s) (auto simp: ac_simps)

text \<open>A UDP flow keeps its datagrams in arrival order, and its packet and byte counts are
  the number of datagrams and the sum of their payload lengths (as \<open>size_t\<close>).\<close>

lemma udp_flow_keeps_datagrams:
  assumes "\<forall>p \<in> set ps. has_payload p"
  shows "\<exists>f. run_flow ps (Udp_Flow (new_udp_flow k)) = Inr (Udp_Flow f) \<and>
    u_datagrams (uf_tracker f) = ps \<and> udp_packet_count f = of_nat (length ps) \<and>
    udp_byte_count f = Inr (of_nat (sum_list (map (length \<circ> payload_bytes) ps)))"
proof -
  obtain f where f: "ofold udp_on_packet ps (new_udp_flow k) = Inr f"
    using udp_run_total by blast
  then have "u_datagrams (uf_tracker f) = ps"
    using udp_run_datagrams [OF f] by (simp add: new_udp_flow_def new_datagram_tracker_def)
  with f byte_count_sum [of ps 0] assms show ?thesis
    by (simp add: run_flow_def udp_dispatch udp_packet_count_def datagram_count_def udp_byte_count_def
        datagram_byte_count_def)
qed

text \<open>C35: Both directions of a TCP flow reassemble independently: if the packets whose source is
  the key's source endpoint carry one byte stream and all others carry another, then after any
  interleaving, loss, reordering and duplication each direction holds a gap-free run of
  its own sender's bytes.\<close>

theorem tcp_flow_separates_directions:
  assumes "\<forall>p \<in> set ps. has_payload p" and "length A < 2 ^ 32" "length B < 2 ^ 32"
    and "\<forall>p \<in> set ps. if is_client_side k p then carries A isn_a p else carries B isn_b p"
  shows "\<exists>f i m j n. ofold tcp_on_packet ps (new_tcp_flow k) = Inr f \<and>
    r_stream (tf_client_to_server f) = take m (drop i A) \<and>
    r_stream (tf_server_to_client f) = take n (drop j B)"
proof -
  obtain f where f: "ofold tcp_on_packet ps (new_tcp_flow k) = Inr f"
    using tcp.run_total assms(1) by blast
  have side: "\<exists>i m. r_stream r = take m (drop i S)"
    if "feed qs dir new_reassembler = Inr r" "length S < 2 ^ 32"
      "\<forall>q \<in> set qs. has_payload q \<and> carries S isn q" for qs dir r S isn
  proof (cases qs)
    case Nil
    with that(1) show ?thesis by (intro exI [of _ 0]) (auto simp: new_reassembler_def)
  next
    case (Cons q qs')
    with that obtain i where i: "segment_at S isn q i" by (auto simp: carries_def)
    from that(1) Cons obtain r1 where r1: "add_segment q dir new_reassembler = Inr r1"
        "feed qs' dir r1 = Inr r"
      by (auto simp: obind_eq_Inr)
    have "holds_slice S isn i r1"
      using i r1(1) that(3) Cons by (auto intro: first_segment_slice)
    then have "holds_slice S isn i r"
      by (rule feed_slice [OF _ that(2) _ r1(2)]) (use that(3) Cons in auto)
    then show ?thesis by (auto simp: holds_slice_def)
  qed
  note sides = tcp_run_sides [OF f]
  have "\<exists>i m. r_stream (tf_client_to_server f) = take m (drop i A)"
    by (rule side [where isn = isn_a, OF _ assms(2)]) (use sides assms(1,4) in \<open>auto simp: new_tcp_flow_def\<close>)
  moreover have "\<exists>j n. r_stream (tf_server_to_client f) = take n (drop j B)"
    by (rule side [where isn = isn_b, OF _ assms(3)]) (use sides assms(1,4) in \<open>auto simp: new_tcp_flow_def split: if_splits\<close>)
  ultimately show ?thesis using f by blast
qed

theorem tcp_flow_separates_directions_witness:
  "\<exists>f i m j n. ofold tcp_on_packet
      [(tcp_segment 5 [1])\<lparr>p_src_ip := ''10.0.0.1'', p_src_port := 1\<rparr>, tcp_segment 7 [2]]
      (new_tcp_flow some_key) = Inr f \<and>
    r_stream (tf_client_to_server f) = take m (drop i [1]) \<and>
    r_stream (tf_server_to_client f) = take n (drop j [2])"
  by (rule tcp_flow_separates_directions [where isn_a = 5 and isn_b = 7])
    (auto simp: is_client_side_def some_key_def carries_def segment_at_def tcp_segment_def
      has_payload_def payload_bytes_def new_packet_def)

end
