(* ===== verification/Flow_Tracker.thy ===== *)
theory Flow_Tracker
  imports Flows
begin

text \<open>
  \<^verbatim>\<open>FlowTracker\<close> (\<^verbatim>\<open>src/flow/FlowTracker.cpp\<close>): the table of flows. The
  \<open>std::unordered_map\<close> is an association list; the order in which it is iterated is
  unspecified in C++, so every operation that iterates takes that order as a parameter, a
  rearrangement of the table (\<open>iteration_order\<close>).
\<close>

type_synonym flow_table = "(flow_key \<times> flow) list"

definition make_key :: "packet \<Rightarrow> flow_key" where
  "make_key p = normalized \<lparr>k_src_ip = p_src_ip p, k_src_port = p_src_port p,
     k_dst_ip = p_dst_ip p, k_dst_port = p_dst_port p, k_protocol = p_protocol p\<rparr>"

text \<open>
  For a protocol other than TCP and UDP nothing is stored under a missing key, and
  \<open>flows_[key]\<close> then creates a null pointer that is followed.
\<close>

definition tracker_on_packet :: "packet \<Rightarrow> flow_table \<Rightarrow> flow_table outcome" where
  "tracker_on_packet p t0 =
     (let key = make_key p;
          t = (if map_of t0 key = None
               then if p_protocol p = TCP then AList.update key (Tcp_Flow (new_tcp_flow key)) t0
                    else if p_protocol p = UDP then AList.update key (Udp_Flow (new_udp_flow key)) t0
                    else t0
               else t0)
      in case map_of t key of
           None \<Rightarrow> Inl Null_Deref
         | Some f \<Rightarrow> obind (flow_on_packet p f) (\<lambda>f'. Inr (AList.update key f' t)))"

type_synonym iteration = "flow_table \<Rightarrow> flow_table"

definition iteration_order :: "iteration \<Rightarrow> bool" where
  "iteration_order ord \<longleftrightarrow> (\<forall>t. mset (ord t) = mset t)"

definition get_flows :: "iteration \<Rightarrow> flow_table \<Rightarrow> flow list" where
  "get_flows ord t = foldl (\<lambda>result pair. result @ [snd pair]) [] (ord t)"

definition flow_count :: "flow_table \<Rightarrow> size_t" where
  "flow_count t = of_nat (length t)"

definition tcp_flow_count :: "iteration \<Rightarrow> flow_table \<Rightarrow> size_t" where
  "tcp_flow_count ord t =
     foldl (\<lambda>count pair. if flow_protocol (snd pair) = TCP then count + 1 else count) 0 (ord t)"

definition udp_flow_count :: "iteration \<Rightarrow> flow_table \<Rightarrow> size_t" where
  "udp_flow_count ord t =
     foldl (\<lambda>count pair. if flow_protocol (snd pair) = UDP then count + 1 else count) 0 (ord t)"

definition track :: "packet list \<Rightarrow> flow_table outcome" where
  "track ps = ofold tracker_on_packet ps []"

section \<open>Iteration\<close>

lemma get_flows_map: "get_flows ord t = map snd (ord t)"
proof -
  have "foldl (\<lambda>result pair. result @ [snd pair]) acc xs = acc @ map snd xs"
    for acc :: "flow list" and xs :: flow_table
    by (induction xs arbitrary: acc) auto
  then show ?thesis by (simp add: get_flows_def)
qed

lemma count_foldl:
  "foldl (\<lambda>count pair. if P (snd pair) then count + 1 else count) c xs =
    (c :: size_t) + of_nat (length (filter (P \<circ> snd) xs))"
  by (induction xs arbitrary: c) auto

lemma flow_protocol_cases: "flow_protocol f = UDP \<longleftrightarrow> flow_protocol f \<noteq> TCP"
  by (cases f) auto

lemma tcp_flow_count_eq:
  "tcp_flow_count ord t = of_nat (length (filter ((\<lambda>f. flow_protocol f = TCP) \<circ> snd) (ord t)))"
  by (simp add: tcp_flow_count_def count_foldl [where P = "\<lambda>f. flow_protocol f = TCP"])

lemma udp_flow_count_eq:
  "udp_flow_count ord t = of_nat (length (filter ((\<lambda>f. flow_protocol f \<noteq> TCP) \<circ> snd) (ord t)))"
  by (simp add: udp_flow_count_def flow_protocol_cases
      count_foldl [where P = "\<lambda>f. flow_protocol f \<noteq> TCP"])

lemma iteration_filter:
  assumes "iteration_order ord"
  shows "length (filter P (ord t)) = length (filter P t)"
proof -
  have "size (filter_mset P (mset (ord t))) = size (filter_mset P (mset t))"
    using assms by (simp add: iteration_order_def)
  then show ?thesis by (simp flip: mset_filter)
qed

text \<open>The flow counts do not depend on the iteration order of the hash table, and every flow
  is counted as TCP or as UDP, once.\<close>

lemma flow_counts_partition:
  assumes "iteration_order ord" "iteration_order ord'"
  shows "tcp_flow_count ord t = tcp_flow_count ord' t \<and> udp_flow_count ord t = udp_flow_count ord' t \<and>
    tcp_flow_count ord t + udp_flow_count ord' t = flow_count t"
proof -
  have count: "tcp_flow_count o' t = of_nat (length (filter ((\<lambda>f. flow_protocol f = TCP) \<circ> snd) t))"
    "udp_flow_count o' t = of_nat (length (filter ((\<lambda>f. flow_protocol f \<noteq> TCP) \<circ> snd) t))"
    if "iteration_order o'" for o'
    by (simp_all add: tcp_flow_count_eq udp_flow_count_eq iteration_filter [OF that])
  have "length t = length (filter ((\<lambda>f. flow_protocol f = TCP) \<circ> snd) t) +
      length (filter ((\<lambda>f. flow_protocol f \<noteq> TCP) \<circ> snd) t)"
    using sum_length_filter_compl [of "(\<lambda>f. flow_protocol f = TCP) \<circ> snd" t] by (simp add: o_def)
  then show ?thesis
    using count assms by (simp add: flow_count_def flip: of_nat_add)
qed

section \<open>Demultiplexing\<close>

definition new_flow :: "flow_key \<Rightarrow> flow" where
  "new_flow k = (if k_protocol k = TCP then Tcp_Flow (new_tcp_flow k) else Udp_Flow (new_udp_flow k))"

definition packets_of :: "flow_key \<Rightarrow> packet list \<Rightarrow> packet list" where
  "packets_of k ps = filter (\<lambda>p. make_key p = k) ps"

text \<open>The table that packets \<open>ps\<close> should leave behind.\<close>

definition demultiplexed :: "packet list \<Rightarrow> flow_table \<Rightarrow> bool" where
  "demultiplexed ps t \<longleftrightarrow> distinct (map fst t) \<and>
     (\<forall>k. case map_of t k of
        None \<Rightarrow> packets_of k ps = []
      | Some f \<Rightarrow> packets_of k ps \<noteq> [] \<and> run_flow (packets_of k ps) (new_flow k) = Inr f)"

text \<open>A datagram is stored whatever it holds; a segment must have a payload buffer.\<close>

definition trackable :: "packet \<Rightarrow> bool" where
  "trackable p \<longleftrightarrow> p_protocol p = UDP \<or> p_protocol p = TCP \<and> has_payload p"

lemma make_key_protocol [simp]: "k_protocol (make_key p) = p_protocol p"
  by (simp add: make_key_def)

lemma make_key_normal [simp]: "is_normal (make_key p)"
  by (simp add: make_key_def)

lemma new_flow_facts:
  "flow_key_of (new_flow k) = k"
  "k_protocol k \<in> {TCP, UDP} \<Longrightarrow> flow_protocol (new_flow k) = k_protocol k"
  by (auto simp: new_flow_def new_tcp_flow_def new_udp_flow_def)

lemma flow_on_packet_protocol: "flow_on_packet p f = Inr f' \<Longrightarrow> flow_protocol f' = flow_protocol f"
  by (cases f) (auto simp: obind_eq_Inr)

lemma run_flow_protocol: "run_flow ps f = Inr f' \<Longrightarrow> flow_protocol f' = flow_protocol f"
  unfolding run_flow_def by (erule ofold_invariant) (simp_all add: flow_on_packet_protocol)

lemma trackable_accepted:
  assumes "trackable p" and "flow_protocol f = p_protocol p"
  shows "\<exists>f'. flow_on_packet p f = Inr f'"
proof (cases f)
  case (Udp_Flow g)
  then show ?thesis by (simp add: udp_on_packet_def Let_def)
next
  case (Tcp_Flow g)
  with assms have "has_payload p" by (auto simp: trackable_def)
  then show ?thesis by (rule fl.accepts)
qed

text \<open>One packet: the flow of its key, created when missing, receives it.\<close>

lemma tracker_on_packet_eq:
  assumes "p_protocol p \<in> {TCP, UDP}"
  shows "tracker_on_packet p t =
    (let k = make_key p;
         f = (case map_of t k of None \<Rightarrow> new_flow k | Some f \<Rightarrow> f)
     in obind (flow_on_packet p f) (\<lambda>f'. Inr (AList.update k f' (AList.update k f t))))"
proof (cases "map_of t (make_key p)")
  case None
  with assms show ?thesis
    by (auto simp: tracker_on_packet_def Let_def new_flow_def update_conv')
next
  case (Some f)
  then have "AList.update (make_key p) f' (AList.update (make_key p) f t) =
      AList.update (make_key p) f' t" for f'
    by (induction t) auto
  with Some show ?thesis
    by (simp add: tracker_on_packet_def Let_def)
qed

lemma tracker_step:
  assumes "demultiplexed ps t" and "trackable p"
  shows "\<exists>t'. tracker_on_packet p t = Inr t' \<and> demultiplexed (ps @ [p]) t'"
proof -
  let ?k = "make_key p"
  define f where "f = (case map_of t ?k of None \<Rightarrow> new_flow ?k | Some f \<Rightarrow> f)"
  have f: "run_flow (packets_of ?k ps) (new_flow ?k) = Inr f"
    using assms(1) unfolding demultiplexed_def f_def
    by (auto simp: run_flow_def split: option.split dest!: spec [of _ ?k])
  have proto: "p_protocol p \<in> {TCP, UDP}" using assms(2) by (auto simp: trackable_def)
  then have "flow_protocol f = p_protocol p"
    using run_flow_protocol [OF f] new_flow_facts(2) [of ?k] by simp
  then obtain f' where f': "flow_on_packet p f = Inr f'"
    using trackable_accepted [OF assms(2)] by blast
  let ?t = "AList.update ?k f' (AList.update ?k f t)"
  have look: "map_of ?t k = (if k = ?k then Some f' else map_of t k)" for k
    by (simp add: update_conv')
  have "tracker_on_packet p t = Inr ?t"
    using proto f' by (simp add: tracker_on_packet_eq f_def [symmetric] Let_def)
  moreover have "demultiplexed (ps @ [p]) ?t"
    unfolding demultiplexed_def
  proof (intro conjI allI)
    show "distinct (map fst ?t)"
      using assms(1) by (simp add: demultiplexed_def distinct_update)
    fix k
    show "case map_of ?t k of None \<Rightarrow> packets_of k (ps @ [p]) = []
      | Some f \<Rightarrow> packets_of k (ps @ [p]) \<noteq> [] \<and> run_flow (packets_of k (ps @ [p])) (new_flow k) = Inr f"
    proof (cases "k = ?k")
      case True
      have "run_flow (packets_of ?k ps @ [p]) (new_flow ?k) = Inr f'"
        using f f' by (simp add: run_flow_def ofold_append)
      with True look [of k] show ?thesis by (simp add: packets_of_def)
    next
      case False
      then have "packets_of k (ps @ [p]) = packets_of k ps" by (auto simp: packets_of_def)
      moreover have "map_of ?t k = map_of t k" using look False by simp
      ultimately show ?thesis using assms(1) unfolding demultiplexed_def by metis
    qed
  qed
  ultimately show ?thesis by blast
qed

lemma track_demultiplexed:
  "(\<And>p. p \<in> set ps \<Longrightarrow> trackable p) \<Longrightarrow> \<exists>t. track ps = Inr t \<and> demultiplexed ps t"
proof (induction ps rule: rev_induct)
  case Nil
  then show ?case by (simp add: track_def demultiplexed_def packets_of_def)
next
  case (snoc p ps)
  then obtain t where t: "track ps = Inr t" "demultiplexed ps t" by auto
  from tracker_step [OF t(2)] snoc.prems obtain t' where
    "tracker_on_packet p t = Inr t'" "demultiplexed (ps @ [p]) t'" by auto
  with t(1) show ?case by (auto simp: track_def ofold_append)
qed

lemma demultiplexed_flow:
  assumes "demultiplexed ps t" and "(k, f) \<in> set t"
  shows "packets_of k ps \<noteq> []" "run_flow (packets_of k ps) (new_flow k) = Inr f"
proof -
  from assms have "map_of t k = Some f" by (simp add: demultiplexed_def)
  moreover from assms(1) have "case map_of t k of None \<Rightarrow> packets_of k ps = []
      | Some f \<Rightarrow> packets_of k ps \<noteq> [] \<and> run_flow (packets_of k ps) (new_flow k) = Inr f"
    by (simp add: demultiplexed_def)
  ultimately show "packets_of k ps \<noteq> []" "run_flow (packets_of k ps) (new_flow k) = Inr f" by simp_all
qed

lemma demultiplexed_key:
  assumes "demultiplexed ps t" and "p \<in> set ps"
  shows "make_key p \<in> set (map fst t)"
proof (rule ccontr)
  assume "make_key p \<notin> set (map fst t)"
  then have "map_of t (make_key p) = None" by (simp add: map_of_eq_None_iff)
  moreover from assms(1) have "case map_of t (make_key p) of None \<Rightarrow> packets_of (make_key p) ps = []
      | Some f \<Rightarrow> packets_of (make_key p) ps \<noteq> [] \<and>
          run_flow (packets_of (make_key p) ps) (new_flow (make_key p)) = Inr f"
    by (simp add: demultiplexed_def)
  ultimately show False using assms(2) by (auto simp: packets_of_def filter_empty_conv)
qed

text \<open>The table in terms of its keys and flows.\<close>

lemma track_table:
  assumes "\<forall>p \<in> set ps. trackable p"
  shows "\<exists>t. track ps = Inr t \<and> distinct (map fst t) \<and> set (map fst t) = make_key ` set ps \<and>
    (\<forall>(k, f) \<in> set t. run_flow (packets_of k ps) (new_flow k) = Inr f)"
proof -
  obtain t where t: "track ps = Inr t" "demultiplexed ps t"
    using track_demultiplexed assms by blast
  then have dist: "distinct (map fst t)"
    and look: "\<And>k. case map_of t k of None \<Rightarrow> packets_of k ps = []
      | Some f \<Rightarrow> packets_of k ps \<noteq> [] \<and> run_flow (packets_of k ps) (new_flow k) = Inr f"
    by (auto simp: demultiplexed_def)
  have "k \<in> set (map fst t) \<longleftrightarrow> k \<in> make_key ` set ps" for k
    using look [of k]
    by (cases "map_of t k") (auto simp: map_of_eq_None_iff packets_of_def filter_empty_conv
        dest: map_of_SomeD intro: rev_image_eqI)
  then have "set (map fst t) = make_key ` set ps" by blast
  moreover have "run_flow (packets_of k ps) (new_flow k) = Inr f" if "(k, f) \<in> set t" for k f
    using look [of k] map_of_is_SomeI [OF dist that] by simp
  ultimately show ?thesis using t(1) dist by blast
qed


definition hello_packet :: packet where
  "hello_packet = new_packet\<lparr>p_src_ip := ''10.0.0.2'', p_src_port := 5678, p_dst_ip := ''10.0.0.1'',
     p_dst_port := 1234, p_protocol := UDP, p_payload := Some [0xCA]\<rparr>"


section \<open>Invariant of the table\<close>

definition table_inv :: "flow_table \<Rightarrow> bool" where
  "table_inv t \<longleftrightarrow> distinct (map fst t) \<and>
     (\<forall>(k, f) \<in> set t. is_normal k \<and> flow_key_of f = k \<and> flow_protocol f = k_protocol k)"

lemma set_update_cases: "(k, f) \<in> set (AList.update k0 f0 t) \<Longrightarrow> (k, f) = (k0, f0) \<or> (k, f) \<in> set t"
  by (induction t) (auto split: if_splits)

lemma unknown_faults:
  assumes "p_protocol p = UNKNOWN" and "table_inv t"
  shows "tracker_on_packet p t = Inl Null_Deref"
proof -
  have "map_of t (make_key p) = None"
  proof (rule ccontr)
    assume "map_of t (make_key p) \<noteq> None"
    then obtain f where "(make_key p, f) \<in> set t" by (auto dest: map_of_SomeD)
    with assms have "flow_protocol f = UNKNOWN" by (auto simp: table_inv_def)
    then show False by (cases f) auto
  qed
  with assms(1) show ?thesis by (simp add: tracker_on_packet_def Let_def)
qed

lemma tracker_step_inv:
  assumes "table_inv t" and step: "tracker_on_packet p t = Inr t'"
  shows "table_inv t'"
proof -
  have proto: "p_protocol p \<in> {TCP, UDP}"
    using step unknown_faults [OF _ assms(1)] by (cases "p_protocol p") auto
  let ?k = "make_key p"
  define f where "f = (case map_of t ?k of None \<Rightarrow> new_flow ?k | Some f \<Rightarrow> f)"
  have f: "flow_key_of f = ?k" "flow_protocol f = k_protocol ?k"
    using assms(1) proto new_flow_facts [of ?k]
    by (auto simp: f_def table_inv_def split: option.split dest!: map_of_SomeD)
  from step proto obtain f' where f': "flow_on_packet p f = Inr f'"
      "t' = AList.update ?k f' (AList.update ?k f t)"
    by (auto simp: tracker_on_packet_eq Let_def f_def obind_eq_Inr)
  have "flow_key_of f' = ?k" "flow_protocol f' = k_protocol ?k"
    using f fl.keeps_key [OF f'(1)] flow_on_packet_protocol [OF f'(1)] by simp_all
  with f assms(1) show "table_inv t'"
    unfolding f'(2) table_inv_def by (auto simp: distinct_update dest!: set_update_cases)
qed

lemma track_inv: "track ps = Inr t \<Longrightarrow> table_inv t"
  unfolding track_def by (erule ofold_invariant) (simp_all add: table_inv_def [of "[]"] tracker_step_inv)

text \<open>Every step keeps the table's invariant: keys are distinct and in normal form, and each
  flow is stored under its own key with the class of that key's protocol. A packet of unknown
  protocol never gets that far: it follows a null pointer.\<close>

lemma tracker_keeps_invariant:
  assumes "table_inv t"
  shows "(\<forall>t'. tracker_on_packet p t = Inr t' \<longrightarrow> table_inv t') \<and>
    (p_protocol p = UNKNOWN \<longrightarrow> tracker_on_packet p t = Inl Null_Deref)"
  using tracker_step_inv [OF assms] unknown_faults [OF _ assms] by blast

lemma tracker_keeps_invariant_instance:
  "table_inv [] \<and> tracker_on_packet new_packet [] = Inl Null_Deref"
  using tracker_keeps_invariant [of "[]" new_packet] by (simp add: table_inv_def new_packet_def)

lemma bare_segment:
  assumes "table_inv t" and "p_protocol p = TCP" "p_payload p = None"
  shows "tracker_on_packet p t = Inl Null_Deref"
proof -
  define f where "f = (case map_of t (make_key p) of None \<Rightarrow> new_flow (make_key p) | Some f \<Rightarrow> f)"
  have "flow_protocol f = TCP"
    using assms new_flow_facts(2) [of "make_key p"]
    by (auto simp: f_def table_inv_def split: option.split dest!: map_of_SomeD)
  then obtain g where "f = Tcp_Flow g" by (cases f) auto
  then have "flow_on_packet p f = Inl Null_Deref"
    using assms(3) by (simp add: tcp_on_packet_def Let_def add_segment_null)
  with assms(2) show ?thesis by (simp add: tracker_on_packet_eq Let_def f_def [symmetric])
qed

section \<open>The counts of a tracked capture\<close>

definition conversations :: "transport_protocol \<Rightarrow> packet list \<Rightarrow> nat" where
  "conversations pr ps = card {k \<in> make_key ` set ps. k_protocol k = pr}"

lemma length_filter_keys:
  assumes "distinct (map fst t)" and "\<And>k f. (k, f) \<in> set t \<Longrightarrow> P (snd (k, f)) \<longleftrightarrow> Q k"
  shows "length (filter (\<lambda>kf. P (snd kf)) t) = card {k \<in> fst ` set t. Q k}"
proof -
  have "map fst (filter (\<lambda>kf. P (snd kf)) t) = filter Q (map fst t)"
    using assms(2) by (induction t) force+
  then have "length (filter (\<lambda>kf. P (snd kf)) t) = length (filter Q (map fst t))"
    by (metis length_map)
  also have "\<dots> = card (set (filter Q (map fst t)))"
    using assms(1) by (intro distinct_card [symmetric] distinct_filter)
  finally show ?thesis by simp
qed

text \<open>The three counts: conversations in all, of TCP and of UDP.\<close>

lemma track_counts:
  assumes "\<forall>p \<in> set ps. trackable p" "length ps < 2 ^ 64" "iteration_order ord" "track ps = Inr t"
  shows "unat (flow_count t) = card (make_key ` set ps)"
    "unat (tcp_flow_count ord t) = conversations TCP ps"
    "unat (udp_flow_count ord t) = conversations UDP ps"
proof -
  have t: "distinct (map fst t)" "fst ` set t = make_key ` set ps"
    using track_table [OF assms(1)] assms(4) by auto
  have proto: "flow_protocol (snd (k, f)) = k_protocol k" if "(k, f) \<in> set t" for k f
    using track_inv [OF assms(4)] that by (auto simp: table_inv_def)
  have len: "length t = card (make_key ` set ps)"
    using distinct_card [OF t(1)] t(2) by simp
  then have small: "length t < 2 ^ 64"
    using card_image_le [of "set ps" make_key] card_length [of ps] assms(2) by simp
  then have less: "length (filter P t) < 2 ^ 64" for P
    using length_filter_le [of P t] by (rule le_less_trans [rotated])
  show "unat (flow_count t) = card (make_key ` set ps)"
    using small len by (simp add: flow_count_def unat_of_nat_less)
  have udp: "flow_protocol f \<noteq> TCP \<longleftrightarrow> k_protocol k = UDP" if "(k, f) \<in> set t" for k f
    using proto [OF that] by (cases f) auto
  have "length (filter (\<lambda>kf. flow_protocol (snd kf) = TCP) t) = conversations TCP ps"
    "length (filter (\<lambda>kf. flow_protocol (snd kf) \<noteq> TCP) t) = conversations UDP ps"
    using length_filter_keys [OF t(1), of "\<lambda>f. flow_protocol f = TCP" "\<lambda>k. k_protocol k = TCP"]
      length_filter_keys [OF t(1), of "\<lambda>f. flow_protocol f \<noteq> TCP" "\<lambda>k. k_protocol k = UDP"] proto udp t(2)
    by (simp_all add: conversations_def)
  with less [of "\<lambda>kf. flow_protocol (snd kf) = TCP"] less [of "\<lambda>kf. flow_protocol (snd kf) \<noteq> TCP"]
  show "unat (tcp_flow_count ord t) = conversations TCP ps" "unat (udp_flow_count ord t) = conversations UDP ps"
    by (simp_all add: tcp_flow_count_eq udp_flow_count_eq iteration_filter [OF assms(3)] unat_of_nat_less o_def)
qed

end
