(* ===== verification/Binary_Decoder.thy ===== *)
theory Binary_Decoder
  imports Field_Types Messages
begin

text \<open>
  \<^verbatim>\<open>BinaryDecoder\<close> (\<^verbatim>\<open>src/protocol/BinaryDecoder.cpp\<close>): a byte stream or a datagram
  cut into messages and fields under a schema. Offsets are \<open>size_t\<close> words and wrap; every
  \<open>memcpy\<close> is a checked read of the \<open>data\<close> object. The framing loop may not end, so it is
  a partial function: \<open>None\<close> is a call that never returns.
\<close>

text \<open>A decoded message; \<open>message[name] = value\<close> overwrites an earlier field of that name.\<close>

type_synonym fields = "(string \<times> field_value) list"

section \<open>Reading one field\<close>

definition to_chars :: "byte list \<Rightarrow> string" where
  "to_chars bs = map (\<lambda>b. char_of (unat b)) bs"

text \<open>
  The \<open>switch\<close> of the TCP branch: 16- and 32-bit values are converted from network order,
  64-bit values are taken as they lie in memory. \<open>vlen\<close> is \<open>payload_len\<close>.
\<close>

fun read_field :: "byte list \<Rightarrow> size_t \<Rightarrow> u16 \<Rightarrow> field_type \<Rightarrow> field_value outcome" where
  "read_field d off vlen U8 = obind (mem_read d off 1) (\<lambda>bs. Inr (VU8 (of_nat (le_val bs))))"
| "read_field d off vlen U16 =
     obind (mem_read d off 2) (\<lambda>bs. Inr (VU16 (ntohs (of_nat (le_val bs)))))"
| "read_field d off vlen U32 =
     obind (mem_read d off 4) (\<lambda>bs. Inr (VU32 (ntohl (of_nat (le_val bs)))))"
| "read_field d off vlen U64 = obind (mem_read d off 8) (\<lambda>bs. Inr (VU64 (of_nat (le_val bs))))"
| "read_field d off vlen I8 = obind (mem_read d off 1) (\<lambda>bs. Inr (VI8 (of_nat (le_val bs))))"
| "read_field d off vlen I16 =
     obind (mem_read d off 2) (\<lambda>bs. Inr (VI16 (ntohs (of_nat (le_val bs)))))"
| "read_field d off vlen I32 =
     obind (mem_read d off 4) (\<lambda>bs. Inr (VI32 (ntohl (of_nat (le_val bs)))))"
| "read_field d off vlen I64 = obind (mem_read d off 8) (\<lambda>bs. Inr (VI64 (of_nat (le_val bs))))"
| "read_field d off vlen BYTES = obind (mem_read d off (unat vlen)) (\<lambda>bs. Inr (VBytes bs))"
| "read_field d off vlen STRING =
     obind (mem_read d off (unat vlen)) (\<lambda>bs. Inr (VString (to_chars bs)))"

text \<open>The \<open>switch\<close> of the UDP branch, a second copy in the source; \<open>BYTES\<close> and
  \<open>STRING\<close> take the rest of the datagram.\<close>

fun read_field_udp :: "byte list \<Rightarrow> size_t \<Rightarrow> size_t \<Rightarrow> field_type \<Rightarrow> field_value outcome" where
  "read_field_udp d len off U8 = obind (mem_read d off 1) (\<lambda>bs. Inr (VU8 (of_nat (le_val bs))))"
| "read_field_udp d len off U16 =
     obind (mem_read d off 2) (\<lambda>bs. Inr (VU16 (ntohs (of_nat (le_val bs)))))"
| "read_field_udp d len off U32 =
     obind (mem_read d off 4) (\<lambda>bs. Inr (VU32 (ntohl (of_nat (le_val bs)))))"
| "read_field_udp d len off U64 = obind (mem_read d off 8) (\<lambda>bs. Inr (VU64 (of_nat (le_val bs))))"
| "read_field_udp d len off I8 = obind (mem_read d off 1) (\<lambda>bs. Inr (VI8 (of_nat (le_val bs))))"
| "read_field_udp d len off I16 =
     obind (mem_read d off 2) (\<lambda>bs. Inr (VI16 (ntohs (of_nat (le_val bs)))))"
| "read_field_udp d len off I32 =
     obind (mem_read d off 4) (\<lambda>bs. Inr (VI32 (ntohl (of_nat (le_val bs)))))"
| "read_field_udp d len off I64 = obind (mem_read d off 8) (\<lambda>bs. Inr (VI64 (of_nat (le_val bs))))"
| "read_field_udp d len off BYTES =
     obind (mem_read d off (unat (len - off))) (\<lambda>bs. Inr (VBytes bs))"
| "read_field_udp d len off STRING =
     obind (mem_read d off (unat (len - off))) (\<lambda>bs. Inr (VString (to_chars bs)))"

section \<open>The TCP branch: length-field framing\<close>

fun find_length ::
    "framing_config \<Rightarrow> byte list \<Rightarrow> size_t \<Rightarrow> field_def list \<Rightarrow> size_t \<Rightarrow> u16 \<Rightarrow> u16 outcome" where
  "find_length fr d len [] off payload_len = Inr payload_len"
| "find_length fr d len (f # fs) off payload_len =
     (let field_size = field_type_size (fd_type f)
      in if off + field_size > len then Inr payload_len
         else if fd_name f = fr_length_field fr \<and> fd_type f = U16
         then obind (mem_read d off 2) (\<lambda>bs.
                find_length fr d len fs (off + field_size) (ntohs (of_nat (le_val bs))))
         else find_length fr d len fs (off + field_size) payload_len)"

definition message_size :: "framing_config \<Rightarrow> u16 \<Rightarrow> size_t" where
  "message_size fr payload_len =
     (if \<not> fr_length_includes_header fr then fr_header_len fr + ucast payload_len
      else ucast payload_len)"

fun decode_fields ::
    "byte list \<Rightarrow> u16 \<Rightarrow> size_t \<Rightarrow> field_def list \<Rightarrow> size_t \<Rightarrow> fields \<Rightarrow> fields outcome" where
  "decode_fields d payload_len msg_end [] off m = Inr m"
| "decode_fields d payload_len msg_end (f # fs) off m =
     (let field_size = (if fd_type f = BYTES \<or> fd_type f = STRING then ucast payload_len
                        else field_type_size (fd_type f))
      in if off + field_size > msg_end then Inr m
         else obind (read_field d off payload_len (fd_type f)) (\<lambda>v.
                decode_fields d payload_len msg_end fs (off + field_size)
                  (AList.update (fd_name f) v m)))"

text \<open>
  One iteration of the loop: \<open>None\<close> leaves the loop, \<open>Some (m, off')\<close> appends a message
  and continues at \<open>off'\<close>.
\<close>

definition frame_step ::
    "protocol_schema \<Rightarrow> byte list \<Rightarrow> size_t \<Rightarrow> size_t \<Rightarrow> (fields \<times> size_t) option outcome" where
  "frame_step s d len off =
     (if \<not> off < len then Inr None
      else if off + fr_header_len (s_framing s) > len then Inr None
      else obind (find_length (s_framing s) d len (s_fields s) off 0) (\<lambda>payload_len.
             let msg_size = message_size (s_framing s) payload_len
             in if off + msg_size > len then Inr None
                else obind (decode_fields d payload_len (off + msg_size) (s_fields s) off [])
                       (\<lambda>m. Inr (Some (m, off + msg_size)))))"

partial_function (option) frame_loop ::
    "protocol_schema \<Rightarrow> byte list \<Rightarrow> size_t \<Rightarrow> size_t \<Rightarrow> fields list \<Rightarrow> fields list outcome option" where
  "frame_loop s d len off messages =
     (case frame_step s d len off of
        Inl e \<Rightarrow> Some (Inl e)
      | Inr r \<Rightarrow> (case r of
          None \<Rightarrow> Some (Inr messages)
        | Some mo \<Rightarrow> frame_loop s d len (snd mo) (messages @ [fst mo])))"

section \<open>The UDP branch and Decode\<close>

fun decode_datagram ::
    "byte list \<Rightarrow> size_t \<Rightarrow> field_def list \<Rightarrow> size_t \<Rightarrow> fields \<Rightarrow> fields outcome" where
  "decode_datagram d len [] off m = Inr m"
| "decode_datagram d len (f # fs) off m =
     (let field_size = (if fd_type f = BYTES \<or> fd_type f = STRING then len - off
                        else field_type_size (fd_type f))
      in if off + field_size > len then Inr m
         else obind (read_field_udp d len off (fd_type f)) (\<lambda>v.
                decode_datagram d len fs (off + field_size) (AList.update (fd_name f) v m)))"

definition decode :: "protocol_schema \<Rightarrow> byte list option \<Rightarrow> size_t \<Rightarrow> fields list outcome option" where
  "decode s data len =
     (case data of
        None \<Rightarrow> Some (Inr [])
      | Some d \<Rightarrow>
          if len = 0 then Some (Inr [])
          else if s_transport s = ''tcp'' \<and> fr_type (s_framing s) = LENGTH_FIELD
          then frame_loop s d len 0 []
          else if s_transport s = ''udp''
          then Some (obind (decode_datagram d len (s_fields s) 0 []) (\<lambda>m. Inr [m]))
          else Some (Inr []))"

text \<open>The class: a decoder refers to its schema; \<open>decode\<close> takes the schema it refers to.\<close>

record binary_decoder =
  bd_schema :: protocol_schema

definition new_decoder :: "protocol_schema \<Rightarrow> binary_decoder" where
  "new_decoder schema = \<lparr>bd_schema = schema\<rparr>"

section \<open>DecodeToMessages\<close>

text \<open>
  The summary iterates over the fields of an \<open>std::unordered_map\<close>; the unspecified order
  is a parameter that rearranges the fields.
\<close>

definition message_type :: "fields \<Rightarrow> string" where
  "message_type m = (case map_of m ''msg_type'' of
     Some v \<Rightarrow> field_value_to_string v | None \<Rightarrow> ''DATA'')"

definition message_summary :: "(fields \<Rightarrow> fields) \<Rightarrow> fields \<Rightarrow> string" where
  "message_summary ord m =
     concat (map (\<lambda>(n, v). if n \<noteq> ''magic'' then n @ ''='' @ field_value_to_string v @ '' '' else [])
       (ord m))"

definition to_message :: "(fields \<Rightarrow> fields) \<Rightarrow> u64 \<Rightarrow> string \<Rightarrow> fields \<Rightarrow> message" where
  "to_message ord ts dir m =
     new_message\<lparr>m_timestamp_us := ts, m_direction := dir, m_type := message_type m,
       m_summary := message_summary ord m\<rparr>"

definition decode_to_messages ::
    "(fields \<Rightarrow> fields) \<Rightarrow> protocol_schema \<Rightarrow> byte list option \<Rightarrow> size_t \<Rightarrow> u64 \<Rightarrow> string \<Rightarrow>
     message list outcome option" where
  "decode_to_messages ord s data len ts dir =
     (case decode s data len of
        None \<Rightarrow> None
      | Some r \<Rightarrow> Some (obind r (\<lambda>ms. Inr (map (to_message ord ts dir) ms))))"

end
