(* ===== verification/Decoder_Safety.thy ===== *)
theory Decoder_Safety
  imports Binary_Decoder
begin

text \<open>
  Memory safety and termination of the decoder: no schema and no input make it read outside the
  data object, and the framing loop returns exactly when no message of size zero is reached.
\<close>

section \<open>Memory safety\<close>

text \<open>An object of \<open>len\<close> bytes; no object is larger than half the address space.\<close>

definition valid_object :: "byte list \<Rightarrow> size_t \<Rightarrow> bool" where
  "valid_object d len \<longleftrightarrow> length d = unat len \<and> unat len < 2 ^ 63"

lemma u16_bound: "unat (v :: u16) < 65536"
proof -
  have "unat v < 2 ^ LENGTH(16)" by (rule unsigned_less)
  then show ?thesis by simp
qed

lemma ucast_len_nat [simp]: "unat (ucast (v :: u16) :: size_t) = unat v"
  using u16_bound [of v] by (simp add: unsigned_ucast_eq take_bit_nat_eq_self)

lemma field_end_nat:
  fixes off n :: size_t
  assumes "unat off < 2 ^ 63" and "unat n < 2 ^ 63"
  shows "unat (off + n) = unat off + unat n"
  using assms by (intro size_add_nat) simp

lemma read_field_inside:
  assumes "unat off + unat (if t = BYTES \<or> t = STRING then ucast vlen else field_type_size t) \<le> length d"
  shows "\<exists>v. read_field d off vlen t = Inr v"
  using assms by (cases t) (auto simp: mem_read_def)

lemma read_field_udp_inside:
  assumes "unat off + unat (if t = BYTES \<or> t = STRING then len - off else field_type_size t) \<le> length d"
  shows "\<exists>v. read_field_udp d len off t = Inr v"
  using assms by (cases t) (auto simp: mem_read_def)

lemma find_length_safe:
  assumes "valid_object d len" and "unat off \<le> unat len"
  shows "\<exists>n. find_length fr d len fs off n0 = Inr n"
  using assms(2)
proof (induction fs arbitrary: off n0)
  case (Cons f fs)
  let ?sz = "field_type_size (fd_type f)"
  have sum: "unat (off + ?sz) = unat off + unat ?sz"
    using Cons.prems assms(1) field_type_size_le [of "fd_type f"]
    by (intro field_end_nat) (auto simp: valid_object_def)
  show ?case
  proof (cases "off + ?sz > len")
    case False
    then have inside: "unat (off + ?sz) \<le> unat len"
      by (simp add: word_le_nat_alt not_less)
    moreover have "fd_type f = U16 \<Longrightarrow> mem_read d off 2 = Inr (take 2 (drop (unat off) d))"
      using inside sum assms(1) by (intro mem_read_ok) (simp add: valid_object_def)
    ultimately show ?thesis using False Cons.IH by (auto simp: Let_def)
  qed simp
qed simp

lemma decode_fields_safe:
  assumes "valid_object d len" and "unat msg_end \<le> unat len" and "unat off < 2 ^ 63"
  shows "\<exists>m'. decode_fields d n msg_end fs off m = Inr m'"
  using assms(3)
proof (induction fs arbitrary: off m)
  case (Cons f fs)
  let ?sz = "if fd_type f = BYTES \<or> fd_type f = STRING then ucast n else field_type_size (fd_type f)"
  have "unat ?sz < 2 ^ 63"
    using field_type_size_le [of "fd_type f"] u16_bound [of n] by auto
  then have sum: "unat (off + ?sz) = unat off + unat ?sz"
    using Cons.prems by (intro field_end_nat)
  show ?case
  proof (cases "off + ?sz > msg_end")
    case False
    then have inside: "unat off + unat ?sz \<le> length d" and "unat (off + ?sz) < 2 ^ 63"
      using sum assms(1,2) by (auto simp: word_le_nat_alt not_less valid_object_def)
    then show ?thesis
      using False Cons.IH read_field_inside [OF inside] by (auto simp: Let_def)
  qed (simp add: Let_def)
qed simp

lemma decode_datagram_safe:
  assumes "valid_object d len" and "unat off \<le> unat len"
  shows "\<exists>m'. decode_datagram d len fs off m = Inr m'"
  using assms(2)
proof (induction fs arbitrary: off m)
  case (Cons f fs)
  let ?sz = "if fd_type f = BYTES \<or> fd_type f = STRING then len - off else field_type_size (fd_type f)"
  have "unat (len - off) = unat len - unat off"
    using Cons.prems by (simp add: size_sub_nat word_le_nat_alt)
  then have "unat ?sz < 2 ^ 63"
    using field_type_size_le [of "fd_type f"] assms(1) by (auto simp: valid_object_def)
  then have sum: "unat (off + ?sz) = unat off + unat ?sz"
    using Cons.prems assms(1) by (intro field_end_nat) (auto simp: valid_object_def)
  show ?case
  proof (cases "off + ?sz > len")
    case False
    then have "unat (off + ?sz) \<le> unat len" by (simp add: word_le_nat_alt not_less)
    moreover from this have inside: "unat off + unat ?sz \<le> length d"
      using sum assms(1) by (simp add: valid_object_def)
    ultimately show ?thesis
      using False Cons.IH read_field_udp_inside [OF inside] by (auto simp: Let_def)
  qed (simp add: Let_def)
qed simp

lemma frame_step_safe:
  assumes "valid_object d len"
  shows "\<exists>r. frame_step s d len off = Inr r"
proof (cases "off < len")
  case True
  then have "unat off \<le> unat len" and "unat off < 2 ^ 63"
    using assms by (auto simp: word_less_nat_alt valid_object_def)
  then obtain n where n: "find_length (s_framing s) d len (s_fields s) off 0 = Inr n"
    using find_length_safe [OF assms] by blast
  show ?thesis
  proof (cases "off + message_size (s_framing s) n > len")
    case False
    then have "unat (off + message_size (s_framing s) n) \<le> unat len"
      by (simp add: word_le_nat_alt not_less)
    from decode_fields_safe [OF assms this \<open>unat off < 2 ^ 63\<close>] obtain m where
      "decode_fields d n (off + message_size (s_framing s) n) (s_fields s) off [] = Inr m"
      by blast
    with n False True show ?thesis
      by (auto simp: frame_step_def Let_def)
  qed (use n True in \<open>auto simp: frame_step_def Let_def\<close>)
qed (simp add: frame_step_def)

lemma frame_loop_safe:
  assumes "valid_object d len" and "frame_loop s d len off acc = Some r"
  shows "\<exists>ms. r = Inr ms"
proof -
  have "valid_object d len \<longrightarrow> (\<exists>ms. r = Inr ms)"
  proof (rule frame_loop.raw_induct [where P = "\<lambda>s d len off acc r.
      valid_object d len \<longrightarrow> (\<exists>ms. r = Inr ms)", OF _ assms(2)])
    fix f s d len off acc r
    assume IH: "\<And>s d len off acc r. f s d len off acc = Some r \<Longrightarrow>
        valid_object d len \<longrightarrow> (\<exists>ms. r = Inr ms)"
      and eq: "(case frame_step s d len off of Inl e \<Rightarrow> Some (Inl e)
        | Inr r \<Rightarrow> (case r of None \<Rightarrow> Some (Inr acc)
          | Some mo \<Rightarrow> f s d len (snd mo) (acc @ [fst mo]))) = Some r"
    show "valid_object d len \<longrightarrow> (\<exists>ms. r = Inr ms)"
    proof
      assume v: "valid_object d len"
      from frame_step_safe [OF v] obtain x where "frame_step s d len off = Inr x" by blast
      with eq IH v show "\<exists>ms. r = Inr ms" by (cases x) auto
    qed
  qed
  with assms(1) show ?thesis by blast
qed

text \<open>C13: The decoder never reads outside its input: for every schema (whatever its field types,
  header length and length field) and every input object, a call that returns, returns messages.\<close>

theorem decode_memory_safe:
  assumes "valid_object d len" and "decode s (Some d) len = Some r"
  shows "\<exists>ms. r = Inr ms"
proof (cases "len = 0")
  case False
  obtain m where "decode_datagram d len (s_fields s) 0 [] = Inr m"
    using decode_datagram_safe [OF assms(1), of 0 "s_fields s" "[]"] by auto
  with False show ?thesis
    using assms(2) frame_loop_safe [OF assms(1)] by (auto simp: decode_def split: if_splits)
qed (use assms(2) in \<open>auto simp: decode_def\<close>)

text \<open>A schema whose header length wraps the offset computation around.\<close>

definition wrapping_schema :: protocol_schema where
  "wrapping_schema = new_schema\<lparr>s_transport := ''tcp'', s_framing := new_framing\<lparr>fr_type := LENGTH_FIELD,
     fr_length_field := ''n'', fr_header_len := - 1\<rparr>,
     s_fields := [new_field_def\<lparr>fd_name := ''n'', fd_type := U16\<rparr>]\<rparr>"

lemma wrapping_step: "frame_step wrapping_schema [0, 9] 2 0 = Inr None"
  by (simp add: frame_step_def wrapping_schema_def new_framing_def new_schema_def)

lemma wrapping_decode: "decode wrapping_schema (Some [0, 9]) 2 = Some (Inr [])"
  by (simp add: decode_def frame_loop.simps wrapping_step)
    (simp add: wrapping_schema_def new_schema_def)

theorem decode_memory_safe_witness:
  "\<exists>ms. (Inr [] :: fields list outcome) = Inr ms \<and> decode wrapping_schema (Some [0, 9]) 2 = Some (Inr [])"
  using decode_memory_safe [OF _ wrapping_decode] wrapping_decode by (auto simp: valid_object_def)

section \<open>Termination\<close>

text \<open>The offsets and messages a run of the loop goes through.\<close>

inductive frame_run ::
    "protocol_schema \<Rightarrow> byte list \<Rightarrow> size_t \<Rightarrow> size_t \<Rightarrow> fields list \<Rightarrow> size_t \<Rightarrow> bool"
  for s d len off where
  run_start: "frame_run s d len off [] off"
| run_next: "frame_run s d len off ms o1 \<Longrightarrow> frame_step s d len o1 = Inr (Some (m, o2)) \<Longrightarrow>
     frame_run s d len off (ms @ [m]) o2"

inductive_cases frame_run_NilE: "frame_run s d len off [] o1"

lemma frame_loop_next:
  "frame_step s d len off = Inr (Some (m, off')) \<Longrightarrow>
    frame_loop s d len off acc = frame_loop s d len off' (acc @ [m])"
  by (subst frame_loop.simps) simp

lemma frame_loop_stop:
  "frame_step s d len off = Inr None \<Longrightarrow> frame_loop s d len off acc = Some (Inr acc)"
  by (subst frame_loop.simps) simp

lemma frame_run_loop:
  "frame_run s d len off ms o1 \<Longrightarrow> frame_loop s d len off acc = frame_loop s d len o1 (acc @ ms)"
  by (induction rule: frame_run.induct) (auto simp: frame_loop_next)

lemma stuck_step_diverges:
  assumes "frame_step s d len off = Inr (Some (m, off))"
  shows "frame_loop s d len off acc = None"
proof (rule ccontr)
  assume "frame_loop s d len off acc \<noteq> None"
  then obtain r where r: "frame_loop s d len off acc = Some r" by blast
  have "\<not> frame_step s d len off = Inr (Some (m, off))"
  proof (rule frame_loop.raw_induct [where P = "\<lambda>s d len off acc r.
      \<not> frame_step s d len off = Inr (Some (m, off))", OF _ r])
    fix f s d len off acc r
    assume IH: "\<And>s d len off acc r. f s d len off acc = Some r \<Longrightarrow>
        \<not> frame_step s d len off = Inr (Some (m, off))"
      and eq: "(case frame_step s d len off of Inl e \<Rightarrow> Some (Inl e)
        | Inr r \<Rightarrow> (case r of None \<Rightarrow> Some (Inr acc)
          | Some mo \<Rightarrow> f s d len (snd mo) (acc @ [fst mo]))) = Some r"
    show "\<not> frame_step s d len off = Inr (Some (m, off))"
    proof
      assume "frame_step s d len off = Inr (Some (m, off))"
      with eq have "f s d len off (acc @ [m]) = Some r" by simp
      then have "\<not> frame_step s d len off = Inr (Some (m, off))" by (rule IH)
      with \<open>frame_step s d len off = Inr (Some (m, off))\<close> show False by blast
    qed
  qed
  with assms show False by blast
qed

text \<open>A header length that a schema of this program can mean: no wrap-around in the offsets.\<close>

definition sane_header :: "framing_config \<Rightarrow> bool" where
  "sane_header fr \<longleftrightarrow> unat (fr_header_len fr) < 2 ^ 62"

lemma message_size_bound: "sane_header fr \<Longrightarrow> unat (message_size fr n) < 2 ^ 63"
  using u16_bound [of n]
  by (auto simp: message_size_def sane_header_def size_add_nat)

lemma frame_step_advance:
  assumes "valid_object d len" and "sane_header (s_framing s)"
    and "frame_step s d len off = Inr (Some (m, off'))"
  shows "unat off \<le> unat off' \<and> unat off' \<le> unat len \<and> unat off < unat len"
proof -
  from assms(3) obtain n where n: "off < len" "off' = off + message_size (s_framing s) n" "\<not> off' > len"
    by (auto simp: frame_step_def Let_def outcome_simps split: if_splits)
  then have "unat off' = unat off + unat (message_size (s_framing s) n)"
    using assms(1) message_size_bound [OF assms(2), of n]
    by (simp only: n(2)) (intro field_end_nat, auto simp: valid_object_def word_less_nat_alt)
  with n show ?thesis by (simp add: word_less_nat_alt not_less)
qed

lemma frame_loop_returns:
  assumes "valid_object d len" and "sane_header (s_framing s)"
    and "\<And>ms o1 m. frame_run s d len off ms o1 \<Longrightarrow> frame_step s d len o1 \<noteq> Inr (Some (m, o1))"
  shows "\<exists>ms. frame_loop s d len off acc = Some (Inr ms)"
  using assms(3)
proof (induction "unat len - unat off" arbitrary: off acc rule: less_induct)
  case less
  from frame_step_safe [OF assms(1)] obtain x where x: "frame_step s d len off = Inr x" by blast
  show ?case
  proof (cases x)
    case None
    with x show ?thesis by (simp add: frame_loop_stop)
  next
    case (Some mo)
    then obtain m off' where mo: "frame_step s d len off = Inr (Some (m, off'))"
      using x by (cases mo) auto
    have "off' \<noteq> off"
      using less.prems [OF run_start] mo by auto
    with frame_step_advance [OF assms(1,2) mo] have "unat len - unat off' < unat len - unat off"
      by (simp add: word_unat_eq_iff) linarith
    moreover have "frame_run s d len off (m # ms) o1" if "frame_run s d len off' ms o1" for ms o1
      using that
    proof (induction rule: frame_run.induct)
      case run_start
      show ?case using run_next [OF frame_run.run_start mo] by simp
    next
      case (run_next ms o1 m' o2)
      then show ?case using frame_run.run_next [OF run_next.IH run_next.hyps(2)] by simp
    qed
    then have "frame_step s d len o1 \<noteq> Inr (Some (m', o1))" if "frame_run s d len off' ms o1" for ms o1 m'
      using less.prems that by blast
    ultimately have "\<exists>ms. frame_loop s d len off' (acc @ [m]) = Some (Inr ms)"
      by (rule less.hyps)
    then show ?thesis by (simp add: frame_loop_next [OF mo])
  qed
qed

text \<open>C16: The framing loop, exactly: on a valid object and a header length below \<open>2^62\<close> it
  fails to return if and only if some offset it reaches announces a message of size zero, at
  which it then appends that message for ever.\<close>

theorem framing_termination_iff:
  assumes "valid_object d len" and "sane_header (s_framing s)"
  shows "frame_loop s d len off acc = None \<longleftrightarrow>
    (\<exists>ms o1 m. frame_run s d len off ms o1 \<and> frame_step s d len o1 = Inr (Some (m, o1)))"
proof
  assume "frame_loop s d len off acc = None"
  then show "\<exists>ms o1 m. frame_run s d len off ms o1 \<and> frame_step s d len o1 = Inr (Some (m, o1))"
    using frame_loop_returns [OF assms, of off acc] by fastforce
next
  assume "\<exists>ms o1 m. frame_run s d len off ms o1 \<and> frame_step s d len o1 = Inr (Some (m, o1))"
  then show "frame_loop s d len off acc = None"
    using frame_run_loop stuck_step_diverges by metis
qed

definition total_length_schema :: protocol_schema where
  "total_length_schema = new_schema\<lparr>s_transport := ''tcp'', s_framing := new_framing\<lparr>fr_type := LENGTH_FIELD,
     fr_length_field := ''n'', fr_header_len := 2, fr_length_includes_header := True\<rparr>,
     s_fields := [new_field_def\<lparr>fd_name := ''n'', fd_type := U16\<rparr>]\<rparr>"

lemma total_length_sane: "sane_header (s_framing total_length_schema)"
  by (simp add: sane_header_def total_length_schema_def)

lemma total_length_zero_step: "frame_step total_length_schema [0, 0] 2 0 = Inr (Some ([], 0))"
  by (simp add: frame_step_def total_length_schema_def new_framing_def new_schema_def
      mem_read_def message_size_def ntohs_def new_field_def_def Let_def numeral_2_eq_2)

theorem framing_termination_iff_witness:
  "frame_loop total_length_schema [0, 0] 2 0 [] = None"
proof -
  have "frame_run total_length_schema [0, 0] 2 0 [] 0"
    by (rule run_start)
  with total_length_zero_step have "\<exists>ms o1 m. frame_run total_length_schema [0, 0] 2 0 ms o1 \<and>
      frame_step total_length_schema [0, 0] 2 o1 = Inr (Some (m, o1))"
    by blast
  then show ?thesis
    by (subst framing_termination_iff [OF _ total_length_sane]) (simp_all add: valid_object_def)
qed

lemma decode_advances:
  assumes "valid_object d len" and "sane_header (s_framing s)"
    and "\<not> fr_length_includes_header (s_framing s)" "0 < fr_header_len (s_framing s)"
  shows "\<exists>ms. decode s (Some d) len = Some (Inr ms)"
proof -
  have "frame_step s d len o1 \<noteq> Inr (Some (m, o1))" for o1 m
  proof
    assume "frame_step s d len o1 = Inr (Some (m, o1))"
    then obtain n where n: "o1 = o1 + message_size (s_framing s) n"
      by (auto simp: frame_step_def Let_def outcome_simps split: if_splits)
    then have "unat (message_size (s_framing s) n) = 0" by (simp add: unat_eq_zero)
    moreover have "unat (message_size (s_framing s) n) = unat (fr_header_len (s_framing s)) + unat n"
      using assms(2,3) u16_bound [of n] by (simp add: message_size_def sane_header_def size_add_nat)
    ultimately show False using assms(4) by (simp add: word_less_nat_alt)
  qed
  then have "\<exists>ms. frame_loop s d len 0 [] = Some (Inr ms)"
    using frame_loop_returns [OF assms(1,2)] by blast
  then show ?thesis
    using decode_datagram_safe [OF assms(1), of 0 "s_fields s" "[]"] by (auto simp: decode_def)
qed

text \<open>With the length counting only the payload and a non-empty header, decoding always
  returns, for every input.\<close>

lemma decode_returns:
  assumes "valid_object d len" and "sane_header (s_framing s)"
    and "\<not> fr_length_includes_header (s_framing s)" "0 < fr_header_len (s_framing s)"
  shows "\<exists>ms. decode s (Some d) len = Some (Inr ms)"
  by (rule decode_advances [OF assms])

lemma decode_returns_instance:
  "\<exists>ms. decode vehicle_tcp_schema (Some [0xCA, 0xFE, 1]) 3 = Some (Inr ms)"
  by (rule decode_returns) (simp_all add: valid_object_def sane_header_def vehicle_tcp_schema_def)

text \<open>With a length that includes the header, a message announcing length zero makes the
  decoder loop for ever, wherever it stands in the stream.\<close>

lemma zero_length_never_returns:
  assumes "s_transport s = ''tcp''" "fr_type (s_framing s) = LENGTH_FIELD"
    and "fr_length_includes_header (s_framing s)" and "valid_object d len"
    and "frame_run s d len 0 ms off" and "off < len" "\<not> off + fr_header_len (s_framing s) > len"
    and "find_length (s_framing s) d len (s_fields s) off 0 = Inr 0"
  shows "decode s (Some d) len = None"
proof -
  have "unat off \<le> unat len" "unat off < 2 ^ 63"
    using assms(4,6) by (auto simp: word_less_nat_alt valid_object_def)
  then obtain m where "decode_fields d 0 off (s_fields s) off [] = Inr m"
    using decode_fields_safe [OF assms(4)] by blast
  then have "frame_step s d len off = Inr (Some (m, off))"
    using assms(3,6-8) by (simp add: frame_step_def message_size_def Let_def)
  then have "frame_loop s d len 0 [] = None"
    using frame_run_loop [OF assms(5)] stuck_step_diverges by metis
  then show ?thesis using assms(1,2,6) by (auto simp: decode_def)
qed

text \<open>Schemas on whose streams no message can have size zero: those under which every call returns.\<close>

definition returning_schema :: "protocol_schema \<Rightarrow> bool" where
  "returning_schema s \<longleftrightarrow> s_transport s = ''tcp'' \<and> fr_type (s_framing s) = LENGTH_FIELD \<longrightarrow>
     sane_header (s_framing s) \<and> \<not> fr_length_includes_header (s_framing s) \<and> 0 < fr_header_len (s_framing s)"

lemma decode_answers:
  assumes "returning_schema s" and "valid_object d len"
  shows "\<exists>ms. decode s (Some d) len = Some (Inr ms)"
proof (cases "s_transport s = ''tcp'' \<and> fr_type (s_framing s) = LENGTH_FIELD")
  case True
  then show ?thesis using decode_advances [OF assms(2)] assms(1) by (simp add: returning_schema_def)
next
  case False
  then show ?thesis
    using decode_datagram_safe [OF assms(2), of 0 "s_fields s" "[]"] by (auto simp: decode_def)
qed

end
