(* ===== verification/Decoder_Framing.thy ===== *)
theory Decoder_Framing
  imports Decoder_Safety
begin

text \<open>
  What the decoder computes: encoders for field values, messages and streams, and the round
  trips through \<open>decode\<close>: several messages in one buffer, an incomplete message at the end,
  trailing variable-length fields, and datagrams.
\<close>

section \<open>Encoding fields\<close>

text \<open>
  The wire form each alternative is decoded from: 16- and 32-bit values in network order,
  64-bit values in the order of the (little-endian) host.
\<close>

primrec encode_value :: "field_value \<Rightarrow> byte list" where
  "encode_value (VU8 v) = [v]"
| "encode_value (VU16 v) = be_bytes 2 (unat v)"
| "encode_value (VU32 v) = be_bytes 4 (unat v)"
| "encode_value (VU64 v) = le_bytes 8 (unat v)"
| "encode_value (VI8 v) = [v]"
| "encode_value (VI16 v) = be_bytes 2 (unat v)"
| "encode_value (VI32 v) = be_bytes 4 (unat v)"
| "encode_value (VI64 v) = le_bytes 8 (unat v)"
| "encode_value (VBytes bs) = bs"
| "encode_value (VString s) = map (\<lambda>c. of_nat (of_char c)) s"

definition encode_values :: "field_value list \<Rightarrow> byte list" where
  "encode_values vs = concat (map encode_value vs)"

definition fixed_values :: "field_def list \<Rightarrow> field_value list \<Rightarrow> bool" where
  "fixed_values fs vs \<longleftrightarrow> map fd_type fs = map value_type vs \<and> (\<forall>v \<in> set vs. \<not> is_variable (value_type v))"

definition assign_fields :: "field_def list \<Rightarrow> field_value list \<Rightarrow> fields \<Rightarrow> fields" where
  "assign_fields fs vs m = foldl (\<lambda>m (f, v). AList.update (fd_name f) v m) m (zip fs vs)"

lemma encode_values_simps [simp]:
  "encode_values [] = []" "encode_values (v # vs) = encode_value v @ encode_values vs"
  by (simp_all add: encode_values_def)

lemma assign_fields_simps [simp]:
  "assign_fields [] vs m = m" "assign_fields fs [] m = m"
  "assign_fields (f # fs) (v # vs) m = assign_fields fs vs (AList.update (fd_name f) v m)"
  by (simp_all add: assign_fields_def)

lemma fixed_values_simps [simp]:
  "fixed_values [] vs \<longleftrightarrow> vs = []" "fixed_values fs [] \<longleftrightarrow> fs = []"
  "fixed_values (f # fs) (v # vs) \<longleftrightarrow>
    fd_type f = value_type v \<and> \<not> is_variable (value_type v) \<and> fixed_values fs vs"
  by (auto simp: fixed_values_def)

lemma unat_mod_u64 [simp]: "unat (w :: u64) mod 18446744073709551616 = unat w"
proof -
  have "unat w < 2 ^ LENGTH(64)" by (rule unsigned_less)
  then show ?thesis by simp
qed

lemma encode_value_size:
  "\<not> is_variable (value_type v) \<Longrightarrow> length (encode_value v) = unat (field_type_size (value_type v))"
  by (cases v) (simp_all add: is_variable_def)

lemma mem_read_at:
  "unat off = length pre \<Longrightarrow> n = length bs \<Longrightarrow> mem_read (pre @ bs @ post) off n = Inr bs"
  by (simp add: mem_read_def)

lemma mem_read_byte: "unat off = length pre \<Longrightarrow> mem_read (pre @ b # post) off (Suc 0) = Inr [b]"
  by (simp add: mem_read_def)

lemma read_encoded:
  assumes "\<not> is_variable (value_type v)" and "unat off = length pre"
  shows "read_field (pre @ encode_value v @ post) off n (value_type v) = Inr v"
  using assms by (cases v) (simp_all add: mem_read_at mem_read_byte is_variable_def)

text \<open>The second copy of the \<open>switch\<close> reads the same values.\<close>

lemma read_field_udp_eq:
  "unat (len - off) = unat n \<Longrightarrow> read_field_udp d len off t = read_field d off n t"
  by (cases t) simp_all

lemma read_field_udp_fixed: "\<not> is_variable t \<Longrightarrow> read_field_udp d len off t = read_field d off n t"
  by (cases t) (simp_all add: is_variable_def)

section \<open>Decoding the fixed-size fields\<close>

lemma field_end_fixed:
  assumes "\<not> is_variable (value_type v)" and "unat off = length pre"
    and "length pre + length (encode_value v @ encode_values vs) \<le> unat lim" and "unat lim < 2 ^ 63"
  shows "unat (off + field_type_size (value_type v)) = length (pre @ encode_value v)"
    and "\<not> off + field_type_size (value_type v) > lim"
    and "off + field_type_size (value_type v) + of_nat (length (encode_values vs)) =
      off + of_nat (length (encode_value v @ encode_values vs))"
proof -
  let ?sz = "field_type_size (value_type v)"
  have sz: "unat ?sz = length (encode_value v)" using encode_value_size [OF assms(1)] by simp
  show sum: "unat (off + ?sz) = length (pre @ encode_value v)"
    using assms(2-4) sz field_type_size_le [of "value_type v"] by (subst field_end_nat) auto
  show "\<not> off + ?sz > lim"
    using sum assms(3) by (simp add: word_less_nat_alt)
  have "?sz = of_nat (length (encode_value v))"
    by (simp add: sz [symmetric])
  then show "off + ?sz + of_nat (length (encode_values vs)) =
      off + of_nat (length (encode_value v @ encode_values vs))"
    by simp
qed

lemma decode_fields_step:
  assumes "\<not> is_variable (value_type v)" and "fd_type f = value_type v" and "unat off = length pre"
    and "\<not> off + field_type_size (value_type v) > msg_end"
  shows "decode_fields (pre @ encode_value v @ rest) n msg_end (f # fs) off m =
    decode_fields (pre @ encode_value v @ rest) n msg_end fs (off + field_type_size (value_type v))
      (AList.update (fd_name f) v m)"
proof -
  have "value_type v \<noteq> BYTES" "value_type v \<noteq> STRING"
    using assms(1) by (auto simp: is_variable_def)
  then show ?thesis using assms(2,4) read_encoded [OF assms(1,3)] by (simp add: Let_def)
qed

lemma decode_fields_fixed:
  assumes "fixed_values fs vs" and "unat off = length pre" and "unat msg_end < 2 ^ 63"
    and "length pre + length (encode_values vs) \<le> unat msg_end"
  shows "decode_fields (pre @ encode_values vs @ post) n msg_end (fs @ gs) off m =
    decode_fields (pre @ encode_values vs @ post) n msg_end gs
      (off + of_nat (length (encode_values vs))) (assign_fields fs vs m)"
  using assms
proof (induction fs arbitrary: vs off pre m)
  case (Cons f fs)
  then obtain v vs' where vs: "vs = v # vs'" by (cases vs) auto
  with Cons.prems(1) have v: "\<not> is_variable (value_type v)" and f: "fd_type f = value_type v"
    and fs: "fixed_values fs vs'" by auto
  let ?d = "(pre @ encode_value v) @ encode_values vs' @ post"
  let ?o = "off + field_type_size (value_type v)"
  note ends = field_end_fixed [OF v Cons.prems(2) _ Cons.prems(3), of vs']
  have fit: "length pre + length (encode_value v @ encode_values vs') \<le> unat msg_end"
    using Cons.prems(4) vs by simp
  have "decode_fields ?d n msg_end ((f # fs) @ gs) off m =
      decode_fields ?d n msg_end (fs @ gs) ?o (AList.update (fd_name f) v m)"
    using decode_fields_step [OF v f Cons.prems(2) ends(2) [OF fit]] by simp
  also have "\<dots> = decode_fields ?d n msg_end gs (?o + of_nat (length (encode_values vs')))
      (assign_fields fs vs' (AList.update (fd_name f) v m))"
    using Cons.prems(3) fit by (intro Cons.IH [OF fs ends(1) [OF fit]]) auto
  finally show ?case unfolding ends(3) [OF fit] by (simp add: vs)
qed (simp add: fixed_values_def)

text \<open>The length the header announces: the last 16-bit field with the name of the length field.\<close>

fun announced :: "framing_config \<Rightarrow> field_def list \<Rightarrow> field_value list \<Rightarrow> u16 \<Rightarrow> u16" where
  "announced fr (f # fs) (v # vs) n =
     announced fr fs vs
       (case v of VU16 w \<Rightarrow> if fd_name f = fr_length_field fr then w else n | _ \<Rightarrow> n)"
| "announced fr _ _ n = n"

lemma find_length_step:
  assumes "\<not> off + field_type_size (value_type v) > len" and "fd_type f = value_type v"
    and "unat off = length pre"
  shows "find_length fr (pre @ encode_value v @ rest) len (f # fs) off n =
    find_length fr (pre @ encode_value v @ rest) len fs (off + field_type_size (value_type v))
      (case v of VU16 w \<Rightarrow> if fd_name f = fr_length_field fr then w else n | _ \<Rightarrow> n)"
  using assms by (cases v) (simp_all add: Let_def mem_read_at)

lemma find_length_fixed:
  assumes "fixed_values fs vs" and "unat off = length pre" and "unat len < 2 ^ 63"
    and "length pre + length (encode_values vs) \<le> unat len"
  shows "find_length fr (pre @ encode_values vs @ post) len (fs @ gs) off n =
    find_length fr (pre @ encode_values vs @ post) len gs
      (off + of_nat (length (encode_values vs))) (announced fr fs vs n)"
  using assms
proof (induction fs arbitrary: vs off pre n)
  case (Cons f fs)
  then obtain v vs' where vs: "vs = v # vs'" by (cases vs) auto
  with Cons.prems(1) have v: "\<not> is_variable (value_type v)" and f: "fd_type f = value_type v"
    and fs: "fixed_values fs vs'" by auto
  let ?d = "(pre @ encode_value v) @ encode_values vs' @ post"
  let ?o = "off + field_type_size (value_type v)"
  let ?n = "case v of VU16 w \<Rightarrow> if fd_name f = fr_length_field fr then w else n | _ \<Rightarrow> n"
  note ends = field_end_fixed [OF v Cons.prems(2) _ Cons.prems(3), of vs']
  have fit: "length pre + length (encode_value v @ encode_values vs') \<le> unat len"
    using Cons.prems(4) vs by simp
  have "find_length fr ?d len ((f # fs) @ gs) off n = find_length fr ?d len (fs @ gs) ?o ?n"
    using find_length_step [OF ends(2) [OF fit] f Cons.prems(2)] by simp
  also have "\<dots> = find_length fr ?d len gs (?o + of_nat (length (encode_values vs')))
      (announced fr fs vs' ?n)"
    using Cons.prems(3) fit by (intro Cons.IH [OF fs ends(1) [OF fit]]) auto
  finally show ?case unfolding ends(3) [OF fit] by (simp add: vs)
qed (simp add: fixed_values_def)

section \<open>Frames\<close>

text \<open>
  A frame is the values of the fixed-size fields and a payload. A schema may end with one
  variable-length field (\<open>vf\<close>), which then holds the payload.
\<close>

type_synonym frame = "field_value list \<times> byte list"

definition frame_bytes :: "frame \<Rightarrow> byte list" where
  "frame_bytes fr = encode_values (fst fr) @ snd fr"

definition tail_value :: "field_def \<Rightarrow> byte list \<Rightarrow> field_value" where
  "tail_value f pl = (if fd_type f = BYTES then VBytes pl else VString (to_chars pl))"

definition frame_fields :: "field_def list \<Rightarrow> field_def list \<Rightarrow> frame \<Rightarrow> fields" where
  "frame_fields fs vf fr =
     (let m = assign_fields fs (fst fr) []
      in case vf of [] \<Rightarrow> m | f # _ \<Rightarrow> AList.update (fd_name f) (tail_value f (snd fr)) m)"

definition tail_ok :: "field_def list \<Rightarrow> bool" where
  "tail_ok vf \<longleftrightarrow> (case vf of [] \<Rightarrow> True | [f] \<Rightarrow> is_variable (fd_type f) | _ \<Rightarrow> False)"

definition framed_schema :: "protocol_schema \<Rightarrow> field_def list \<Rightarrow> field_def list \<Rightarrow> bool" where
  "framed_schema s fs vf \<longleftrightarrow> s_transport s = ''tcp'' \<and> fr_type (s_framing s) = LENGTH_FIELD \<and>
     s_fields s = fs @ vf \<and> tail_ok vf \<and> 0 < fr_header_len (s_framing s)"

definition stream_schema :: "protocol_schema \<Rightarrow> field_def list \<Rightarrow> field_def list \<Rightarrow> bool" where
  "stream_schema s fs vf \<longleftrightarrow> framed_schema s fs vf \<and>
     (fr_length_includes_header (s_framing s) \<longrightarrow> vf = [])"

definition frame_ok :: "protocol_schema \<Rightarrow> field_def list \<Rightarrow> frame \<Rightarrow> bool" where
  "frame_ok s fs fr \<longleftrightarrow> fixed_values fs (fst fr) \<and>
     length (encode_values (fst fr)) = unat (fr_header_len (s_framing s)) \<and>
     unat (announced (s_framing s) fs (fst fr) 0) =
       (if fr_length_includes_header (s_framing s) then length (frame_bytes fr) else length (snd fr))"

lemma framed: "stream_schema s fs vf \<Longrightarrow> framed_schema s fs vf"
  by (simp add: stream_schema_def)

lemma find_length_tail: "tail_ok vf \<Longrightarrow> find_length fr d len vf off n = Inr n"
  by (auto simp: tail_ok_def is_variable_def Let_def split: list.splits)

lemma frame_ok_size:
  assumes "frame_ok s fs fr" and "length (frame_bytes fr) < 2 ^ 63"
  shows "unat (message_size (s_framing s) (announced (s_framing s) fs (fst fr) 0)) = length (frame_bytes fr)"
  using assms by (auto simp: frame_ok_def message_size_def frame_bytes_def size_add_nat)

lemma tail_fields:
  assumes "tail_ok vf" and "unat off = length pre" and "unat n = length pl"
    and "length pre + length pl = unat msg_end" and "unat msg_end < 2 ^ 63"
  shows "decode_fields (pre @ pl @ post) n msg_end vf off m =
    Inr (case vf of [] \<Rightarrow> m | f # _ \<Rightarrow> AList.update (fd_name f) (tail_value f pl) m)"
proof (cases vf)
  case (Cons f rest)
  then have f: "rest = []" "fd_type f = BYTES \<or> fd_type f = STRING"
    using assms(1) by (auto simp: tail_ok_def is_variable_def split: list.splits)
  have "unat (off + ucast n) = unat msg_end"
    using assms(2-5) by (subst field_end_nat) (auto simp: u16_bound)
  then have "\<not> off + ucast n > msg_end" by (simp add: word_less_nat_alt)
  then show ?thesis
    using Cons f assms(2,3) by (auto simp: Let_def mem_read_at tail_value_def)
qed simp

text \<open>A complete frame: the fixed-size fields decode to the frame's values, the trailing field is
  left to the rest of the loop.\<close>

lemma frame_step_header:
  assumes s: "framed_schema s fs vf" and fr: "frame_ok s fs (vs, pl)"
    and d: "valid_object (pre @ encode_values vs @ pl @ post) len" and off: "unat off = length pre"
  defines "n \<equiv> announced (s_framing s) fs vs 0"
    and "msg_end \<equiv> off + of_nat (length (frame_bytes (vs, pl)))"
    and "body \<equiv> off + fr_header_len (s_framing s)"
  shows "unat body = length (pre @ encode_values vs)"
    and "unat msg_end = length (pre @ encode_values vs @ pl)"
    and "frame_step s (pre @ encode_values vs @ pl @ post) len off =
      obind (decode_fields ((pre @ encode_values vs) @ pl @ post) n msg_end vf body (assign_fields fs vs []))
        (\<lambda>m. Inr (Some (m, msg_end)))"
proof -
  define hl where "hl = fr_header_len (s_framing s)"
  let ?ms = "message_size (s_framing s) n"
  have len: "unat len = length pre + (length (encode_values vs) + length pl) + length post" "unat len < 2 ^ 63"
    using d by (simp_all add: valid_object_def)
  have hl: "unat hl = length (encode_values vs)" "0 < unat hl"
    using fr s by (simp_all add: frame_ok_def hl_def framed_schema_def word_less_nat_alt)
  have vs: "fixed_values fs vs" using fr by (simp add: frame_ok_def)
  show hend: "unat body = length (pre @ encode_values vs)"
    unfolding body_def hl_def [symmetric] using off hl(1) len by (subst field_end_nat) auto
  have size: "unat ?ms = length (frame_bytes (vs, pl))"
    using frame_ok_size [OF fr] len by (simp add: n_def frame_bytes_def)
  then have msize: "?ms = of_nat (length (frame_bytes (vs, pl)))"
    by (metis of_nat_unat ucast_id)
  show mend: "unat msg_end = length (pre @ encode_values vs @ pl)"
    unfolding msg_end_def msize [symmetric]
    using off size len by (subst field_end_nat) (auto simp: frame_bytes_def)
  have fl: "find_length (s_framing s) (pre @ encode_values vs @ pl @ post) len (fs @ vf) off 0 = Inr n"
    using len find_length_fixed [OF vs off len(2)] s
    by (simp add: n_def find_length_tail framed_schema_def)
  have hw: "off + of_nat (length (encode_values vs)) = body"
    by (simp add: hl(1) [symmetric] body_def hl_def)
  have df: "decode_fields (pre @ encode_values vs @ pl @ post) n msg_end (fs @ vf) off [] =
    decode_fields ((pre @ encode_values vs) @ pl @ post) n msg_end vf body (assign_fields fs vs [])"
    using decode_fields_fixed [OF vs off, of msg_end "pl @ post" n vf "[]"] mend len hw by simp
  have bounds: "off < len" "\<not> body > len" "\<not> msg_end > len"
    using off len hl hend mend by (simp_all add: word_less_nat_alt)
  have ends: "off + ?ms = msg_end" by (simp add: msg_end_def msize)
  show "frame_step s (pre @ encode_values vs @ pl @ post) len off =
      obind (decode_fields ((pre @ encode_values vs) @ pl @ post) n msg_end vf body (assign_fields fs vs []))
        (\<lambda>m. Inr (Some (m, msg_end)))"
    using fl df bounds s
    by (simp add: frame_step_def framed_schema_def Let_def ends body_def [symmetric])
qed

text \<open>
  What the decoder makes of a complete frame. With a length that counts the header as well, a trailing
  variable-length field is asked for with the length of the whole message, does not fit, and is left out.
\<close>

definition recovered :: "protocol_schema \<Rightarrow> field_def list \<Rightarrow> field_def list \<Rightarrow> frame \<Rightarrow> fields" where
  "recovered s fs vf fr =
     (if fr_length_includes_header (s_framing s) \<and> vf \<noteq> [] then assign_fields fs (fst fr) []
      else frame_fields fs vf fr)"

lemma recovered_stream: "stream_schema s fs vf \<Longrightarrow> recovered s fs vf = frame_fields fs vf"
  by (auto simp: recovered_def stream_schema_def fun_eq_iff)

lemma frame_step_complete:
  assumes s: "framed_schema s fs vf" and fr: "frame_ok s fs fr"
    and d: "valid_object (pre @ frame_bytes fr @ post) len" and off: "unat off = length pre"
  shows "frame_step s (pre @ frame_bytes fr @ post) len off =
    Inr (Some (recovered s fs vf fr, off + of_nat (length (frame_bytes fr))))"
proof -
  obtain vs pl where fr_eq: "fr = (vs, pl)" by (cases fr)
  have v: "valid_object (pre @ encode_values vs @ pl @ post) len"
    using d by (simp add: fr_eq frame_bytes_def)
  let ?n = "announced (s_framing s) fs vs 0"
  let ?stop = "off + of_nat (length (frame_bytes (vs, pl)))" and ?body = "off + fr_header_len (s_framing s)"
  note step = frame_step_header [OF s fr [unfolded fr_eq] v off]
  have "decode_fields ((pre @ encode_values vs) @ pl @ post) ?n ?stop vf ?body (assign_fields fs vs []) =
    Inr (recovered s fs vf (vs, pl))"
  proof (cases vf)
    case Nil
    then show ?thesis by (simp add: recovered_def frame_fields_def)
  next
    case (Cons f rest)
    then have var: "vf = [f]" "fd_type f = BYTES \<or> fd_type f = STRING"
      using s by (auto simp: framed_schema_def tail_ok_def is_variable_def split: list.splits)
    show ?thesis
    proof (cases "fr_length_includes_header (s_framing s)")
      case True
      then have n: "unat ?n = length (encode_values vs) + length pl"
        using fr by (simp add: frame_ok_def fr_eq frame_bytes_def)
      have vs: "0 < length (encode_values vs)"
        using s fr by (simp add: framed_schema_def frame_ok_def fr_eq word_less_nat_alt del: length_greater_0_conv)
      have "unat (?body + ucast ?n) = length (pre @ encode_values vs) + (length (encode_values vs) + length pl)"
        using step(1) v n u16_bound [of ?n] by (subst field_end_nat) (auto simp: valid_object_def)
      then have "?body + ucast ?n > ?stop"
        using step(2) vs by (simp add: word_less_nat_alt)
      then show ?thesis using var True by (auto simp: Let_def recovered_def)
    next
      case False
      then have n: "unat ?n = length pl" using fr by (simp add: frame_ok_def fr_eq)
      have "decode_fields ((pre @ encode_values vs) @ pl @ post) ?n ?stop vf ?body (assign_fields fs vs []) =
          Inr (case vf of [] \<Rightarrow> assign_fields fs vs []
            | f # _ \<Rightarrow> AList.update (fd_name f) (tail_value f pl) (assign_fields fs vs []))"
        by (rule tail_fields [OF _ step(1) n])
          (use s step(2) v in \<open>simp_all add: framed_schema_def valid_object_def\<close>)
      then show ?thesis using False by (simp add: recovered_def frame_fields_def Let_def split: list.splits)
    qed
  qed
  then show ?thesis using step(3) by (simp add: fr_eq frame_bytes_def)
qed

lemma frame_step_partial:
  assumes s: "framed_schema s fs vf" and fr: "frame_ok s fs fr" and k: "k < length (frame_bytes fr)"
    and size: "length (frame_bytes fr) < 2 ^ 62"
    and d: "valid_object (pre @ take k (frame_bytes fr)) len" and off: "unat off = length pre"
  shows "frame_step s (pre @ take k (frame_bytes fr)) len off = Inr None"
proof -
  obtain vs pl where fr_eq: "fr = (vs, pl)" by (cases fr)
  define hl where "hl = fr_header_len (s_framing s)"
  define n where "n = announced (s_framing s) fs vs 0"
  have len: "unat len = length pre + k" "unat len < 2 ^ 63"
    using d k by (simp_all add: valid_object_def)
  have hl: "unat hl = length (encode_values vs)"
    using fr by (simp add: frame_ok_def fr_eq hl_def)
  have hend: "unat (off + hl) = length pre + length (encode_values vs)"
    using off hl len size by (subst field_end_nat) (auto simp: fr_eq frame_bytes_def)
  show ?thesis
  proof (cases "off < len \<and> \<not> off + hl > len")
    case False
    then show ?thesis by (auto simp: frame_step_def hl_def)
  next
    case True
    then have hk: "length (encode_values vs) \<le> k"
      using hend len by (simp add: word_less_nat_alt)
    have vs: "fixed_values fs vs" using fr by (simp add: frame_ok_def fr_eq)
    have split: "take k (frame_bytes fr) = encode_values vs @ take (k - length (encode_values vs)) pl"
      using hk by (simp add: fr_eq frame_bytes_def)
    have fl: "find_length (s_framing s) (pre @ take k (frame_bytes fr)) len (fs @ vf) off 0 = Inr n"
      unfolding split using len hk find_length_fixed [OF vs off len(2)] s
      by (simp add: n_def find_length_tail framed_schema_def)
    have "unat (message_size (s_framing s) n) = length (frame_bytes fr)"
      using frame_ok_size [OF fr] size by (simp add: fr_eq n_def)
    then have "unat (off + message_size (s_framing s) n) = length pre + length (frame_bytes fr)"
      using off len size by (subst field_end_nat) auto
    then have "off + message_size (s_framing s) n > len"
      using k len by (simp add: word_less_nat_alt)
    with True fl s show ?thesis
      by (simp add: frame_step_def framed_schema_def hl_def Let_def)
  qed
qed

lemma frame_bytes_nonempty:
  "framed_schema s fs vf \<Longrightarrow> frame_ok s fs fr \<Longrightarrow> 0 < length (frame_bytes fr)"
  by (simp add: framed_schema_def frame_ok_def frame_bytes_def word_less_nat_alt del: length_greater_0_conv)

lemma frame_loop_frames:
  assumes s: "framed_schema s fs vf" and frs: "\<And>fr. fr \<in> set frs \<Longrightarrow> frame_ok s fs fr"
    and l: "frame_ok s fs l" "k < length (frame_bytes l)" "length (frame_bytes l) < 2 ^ 62"
    and d: "valid_object (pre @ concat (map frame_bytes frs) @ take k (frame_bytes l)) len"
    and off: "unat off = length pre"
  shows "frame_loop s (pre @ concat (map frame_bytes frs) @ take k (frame_bytes l)) len off acc =
    Some (Inr (acc @ map (recovered s fs vf) frs))"
  using frs d off
proof (induction frs arbitrary: pre off acc)
  case Nil
  then show ?case
    using frame_step_partial [OF s l, of pre] by (simp add: frame_loop_stop)
next
  case (Cons fr frs)
  let ?post = "concat (map frame_bytes frs) @ take k (frame_bytes l)"
  let ?off = "off + of_nat (length (frame_bytes fr))"
  have fr: "frame_ok s fs fr" using Cons.prems(1) by simp
  have v: "valid_object (pre @ frame_bytes fr @ ?post) len" using Cons.prems(2) by simp
  have step: "frame_step s (pre @ frame_bytes fr @ ?post) len off =
      Inr (Some (recovered s fs vf fr, ?off))"
    by (rule frame_step_complete [OF s fr v Cons.prems(3)])
  have bound: "length pre + length (frame_bytes fr) < 2 ^ 63"
    using v by (simp add: valid_object_def)
  then have "unat ?off = length (pre @ frame_bytes fr)"
    using Cons.prems(3) by (subst field_end_nat) (simp_all add: unat_of_nat_less)
  then have "frame_loop s ((pre @ frame_bytes fr) @ ?post) len ?off (acc @ [recovered s fs vf fr]) =
      Some (Inr ((acc @ [recovered s fs vf fr]) @ map (recovered s fs vf) frs))"
    using Cons.prems(1) v by (intro Cons.IH) auto
  with frame_loop_next [OF step] show ?case by simp
qed

lemma decode_framed:
  assumes s: "framed_schema s fs vf" and frs: "\<And>fr. fr \<in> set frs \<Longrightarrow> frame_ok s fs fr"
    and l: "frame_ok s fs l" "k < length (frame_bytes l)" "length (frame_bytes l) < 2 ^ 62"
    and d: "d = concat (map frame_bytes frs) @ take k (frame_bytes l)" "valid_object d len"
  shows "decode s (Some d) len = Some (Inr (map (recovered s fs vf) frs))"
proof (cases "len = 0")
  case True
  then have "d = []" using d(2) by (simp add: valid_object_def)
  then have "frs = []"
    using d(1) frame_bytes_nonempty [OF s] frs by (cases frs) force+
  with True show ?thesis by (simp add: decode_def)
next
  case False
  then show ?thesis
    using frame_loop_frames [where pre = "[]" and off = 0 and acc = "[]", OF s _ l] frs d s
    by (simp add: decode_def framed_schema_def)
qed

lemma decode_frames:
  assumes s: "stream_schema s fs vf" and "\<And>fr. fr \<in> set frs \<Longrightarrow> frame_ok s fs fr"
    and "frame_ok s fs l" "k < length (frame_bytes l)" "length (frame_bytes l) < 2 ^ 62"
    and "d = concat (map frame_bytes frs) @ take k (frame_bytes l)" "valid_object d len"
  shows "decode s (Some d) len = Some (Inr (map (frame_fields fs vf) frs))"
  using decode_framed [OF framed [OF s] assms(2-7)] by (simp add: recovered_stream [OF s])

section \<open>Network order\<close>

text \<open>
  A sender that follows the schemas (\<^verbatim>\<open>endian: big\<close>) writes every integer most significant byte first.
  The decoder does not look at the byte order of the schema: it takes 16- and 32-bit integers in
  network order and 64-bit ones in the order of the host, so that it reads the latter reversed.
\<close>

primrec wire_value :: "field_value \<Rightarrow> byte list" where
  "wire_value (VU8 v) = [v]"
| "wire_value (VU16 v) = be_bytes 2 (unat v)"
| "wire_value (VU32 v) = be_bytes 4 (unat v)"
| "wire_value (VU64 v) = be_bytes 8 (unat v)"
| "wire_value (VI8 v) = [v]"
| "wire_value (VI16 v) = be_bytes 2 (unat v)"
| "wire_value (VI32 v) = be_bytes 4 (unat v)"
| "wire_value (VI64 v) = be_bytes 8 (unat v)"
| "wire_value (VBytes bs) = bs"
| "wire_value (VString s) = map (\<lambda>c. of_nat (of_char c)) s"

definition wire_values :: "field_value list \<Rightarrow> byte list" where
  "wire_values vs = concat (map wire_value vs)"

definition byte_swap :: "u64 \<Rightarrow> u64" where
  "byte_swap v = of_nat (le_val (be_bytes 8 (unat v)))"

fun read_as :: "field_value \<Rightarrow> field_value" where
  "read_as (VU64 v) = VU64 (byte_swap v)"
| "read_as (VI64 v) = VI64 (byte_swap v)"
| "read_as v = v"

definition wire_frame :: "frame \<Rightarrow> byte list" where
  "wire_frame fr = wire_values (fst fr) @ snd fr"

definition frame_as :: "frame \<Rightarrow> frame" where
  "frame_as fr = (map read_as (fst fr), snd fr)"

lemma unat_byte_swap: "unat (byte_swap v) = le_val (be_bytes 8 (unat v))"
proof -
  have "le_val (be_bytes 8 (unat v)) < 2 ^ 64" using le_val_less [of "be_bytes 8 (unat v)"] by simp
  then show ?thesis by (simp add: byte_swap_def unat_of_nat_less)
qed

lemma byte_swap_bytes: "le_bytes 8 (unat (byte_swap v)) = be_bytes 8 (unat v)"
  by (simp add: unat_byte_swap)

lemma byte_swap_twice [simp]: "byte_swap (byte_swap v) = v"
proof -
  have "be_bytes 8 (unat (byte_swap v)) = le_bytes 8 (unat v)"
    by (metis be_bytes_def byte_swap_bytes rev_rev_ident)
  then have "unat (byte_swap (byte_swap v)) = unat v" by (simp add: unat_byte_swap)
  then show ?thesis by (simp only: word_unat_eq_iff)
qed

lemma read_as_encoded [simp]: "encode_value (read_as v) = wire_value v" "value_type (read_as v) = value_type v"
  by (cases v; simp add: byte_swap_bytes)+

lemma frame_as_bytes: "encode_values (map read_as vs) = wire_values vs" "frame_bytes (frame_as fr) = wire_frame fr"
  by (simp_all add: encode_values_def wire_values_def frame_bytes_def frame_as_def wire_frame_def o_def)

lemma length_wire_value [simp]: "length (wire_value v) = length (encode_value v)"
  by (cases v) simp_all

lemma length_wire_values [simp]: "length (wire_values vs) = length (encode_values vs)"
  by (simp add: wire_values_def encode_values_def length_concat o_def)

lemma fixed_as [simp]: "fixed_values fs (map read_as vs) = fixed_values fs vs"
  by (simp add: fixed_values_def o_def)

lemma announced_as [simp]: "announced fr fs (map read_as vs) n = announced fr fs vs n"
  by (induction fr fs vs n rule: announced.induct) (auto split: field_value.splits)

lemma frame_ok_as [simp]: "frame_ok s fs (frame_as fr) = frame_ok s fs fr"
  by (simp add: frame_ok_def frame_as_def frame_bytes_def frame_as_bytes)

text \<open>C5: Half packets and sticky packets, for every TCP schema with a length field whose fields are of fixed
  size, together as long as the header, but for possibly a last one of variable length: a
  buffer that holds any number of complete frames in network byte order, back to back, and then a proper prefix of
  one more decodes to the complete frames, in order, and the incomplete one is left. Each field has the
  value sent, with two exceptions: the bytes of 64-bit integers are read in reverse, whatever the schema says, and if
  the announced length counts the header, a last field of variable length is missing.\<close>

theorem decode_recovers_frames:
  assumes "framed_schema s fs vf" and "\<forall>fr \<in> set frs. frame_ok s fs fr"
    and "frame_ok s fs l" "k < length (wire_frame l)" "length (wire_frame l) < 2 ^ 62"
    and "d = concat (map wire_frame frs) @ take k (wire_frame l)" "valid_object d len"
  shows "decode s (Some d) len = Some (Inr (map (\<lambda>(vs, pl).
    if fr_length_includes_header (s_framing s) \<and> vf \<noteq> [] then assign_fields fs (map read_as vs) []
    else frame_fields fs vf (map read_as vs, pl)) frs))"
proof -
  have "decode s (Some d) len = Some (Inr (map (recovered s fs vf) (map frame_as frs)))"
    by (rule decode_framed [OF assms(1), where l = "frame_as l" and k = k])
      (use assms in \<open>auto simp: frame_as_bytes o_def\<close>)
  then show ?thesis by (simp only: recovered_def frame_as_def case_prod_unfold list.map_comp o_def fst_conv snd_conv)
qed

definition vehicle_frame :: "u32 \<Rightarrow> byte list \<Rightarrow> frame" where
  "vehicle_frame seq pl =
     ([VU16 0xCAFE, VU8 1, VU8 2, VU32 seq, VU16 (of_nat (length pl))], pl)"

lemma vehicle_stream: "stream_schema vehicle_tcp_schema (s_fields vehicle_tcp_schema) []"
  by (simp add: stream_schema_def framed_schema_def vehicle_tcp_schema_def new_schema_def tail_ok_def)

lemma vehicle_frame_ok:
  "length pl < 65536 \<Longrightarrow> frame_ok vehicle_tcp_schema (s_fields vehicle_tcp_schema) (vehicle_frame seq pl)"
  by (simp add: frame_ok_def vehicle_frame_def vehicle_tcp_schema_def new_schema_def plain_field_def
      new_field_def_def is_variable_def unat_of_nat_less)

lemma vehicle_frame_size [simp]: "length (frame_bytes (vehicle_frame seq pl)) = 10 + length pl"
  by (simp add: vehicle_frame_def frame_bytes_def)

text \<open>With a length that counts the header as well, a complete frame of a schema that ends in
  a variable-length field loses that field.\<close>

lemma total_length_drops_payload:
  assumes "framed_schema s fs [f]" and "fr_length_includes_header (s_framing s)"
    and "frame_ok s fs fr" and "valid_object (frame_bytes fr) len" and "length (frame_bytes fr) < 2 ^ 62"
  shows "decode s (Some (frame_bytes fr)) len = Some (Inr [assign_fields fs (fst fr) []])"
  using decode_framed [OF assms(1), of "[fr]" fr 0 "frame_bytes fr" len] assms(2-5) frame_bytes_nonempty [OF assms(1,3)]
  by (simp add: recovered_def)

definition total_bytes_schema :: protocol_schema where
  "total_bytes_schema = total_length_schema\<lparr>s_fields :=
     [plain_field ''n'' U16, plain_field ''data'' BYTES]\<rparr>"

lemma total_bytes_frame:
  "framed_schema total_bytes_schema [plain_field ''n'' U16] [plain_field ''data'' BYTES]"
  "frame_ok total_bytes_schema [plain_field ''n'' U16] ([VU16 4], [7, 8])"
  by (simp_all add: framed_schema_def total_bytes_schema_def total_length_schema_def new_schema_def
      new_framing_def tail_ok_def is_variable_def frame_ok_def frame_bytes_def)

lemma total_length_drops_payload_instance:
  "decode total_bytes_schema (Some (frame_bytes ([VU16 4], [7, 8]))) 4 = Some (Inr [[(''n'', VU16 4)]])"
  using total_length_drops_payload [OF total_bytes_frame(1) _ total_bytes_frame(2), of 4]
  by (simp add: total_bytes_schema_def total_length_schema_def valid_object_def frame_bytes_def)

text \<open>A schema with a 64-bit field and a payload, whose length field counts the payload or the whole message.\<close>

definition clock_schema :: "bool \<Rightarrow> protocol_schema" where
  "clock_schema whole = total_length_schema\<lparr>
     s_framing := (s_framing total_length_schema)\<lparr>fr_header_len := 10, fr_length_includes_header := whole\<rparr>,
     s_fields := [plain_field ''n'' U16, plain_field ''clock'' U64, plain_field ''data'' BYTES]\<rparr>"

lemma clock_frames:
  "framed_schema (clock_schema b) [plain_field ''n'' U16, plain_field ''clock'' U64] [plain_field ''data'' BYTES]"
  "frame_ok (clock_schema True) [plain_field ''n'' U16, plain_field ''clock'' U64] ([VU16 12, VU64 1], [7, 8])"
  "frame_ok (clock_schema False) [plain_field ''n'' U16, plain_field ''clock'' U64] ([VU16 2, VU64 1], [7, 8])"
  by (simp_all add: framed_schema_def clock_schema_def total_length_schema_def new_schema_def
      new_framing_def tail_ok_def is_variable_def frame_ok_def frame_bytes_def)

lemma le_bytes_numeral: "le_bytes (numeral k) v = of_nat v # le_bytes (pred_numeral k) (v div 256)"
  by (simp only: numeral_eq_Suc [of k] le_bytes.simps)

lemma clock_bytes: "be_bytes 8 (Suc 0) = [0, 0, 0, 0, 0, 0, 0, 1]" "be_bytes 2 2 = [0, 2]" "be_bytes 2 12 = [0, 12]"
  by (simp_all add: be_bytes_def le_bytes_numeral)

lemma byte_swap_one: "byte_swap 1 = 0x0100000000000000"
  by (simp add: byte_swap_def clock_bytes)

lemma clock_wire: "wire_frame ([VU16 2, VU64 1], [7, 8]) = [0, 2, 0, 0, 0, 0, 0, 0, 0, 1, 7, 8]"
    "wire_frame ([VU16 12, VU64 1], [7, 8]) = [0, 12, 0, 0, 0, 0, 0, 0, 0, 1, 7, 8]"
  by (simp_all add: wire_frame_def wire_values_def clock_bytes)

theorem decode_recovers_frames_witness:
  "decode (clock_schema False) (Some ([0, 2, 0, 0, 0, 0, 0, 0, 0, 1, 7, 8] @ [0, 2, 0])) 15 =
     Some (Inr [[(''n'', VU16 2), (''clock'', VU64 0x0100000000000000), (''data'', VBytes [7, 8])]]) \<and>
   decode (clock_schema True) (Some ([0, 12, 0, 0, 0, 0, 0, 0, 0, 1, 7, 8] @ [0, 12, 0])) 15 =
     Some (Inr [[(''n'', VU16 12), (''clock'', VU64 0x0100000000000000)]])"
proof -
  let ?fs = "[plain_field ''n'' U16, plain_field ''clock'' U64]" and ?vf = "[plain_field ''data'' BYTES]"
  let ?a = "([VU16 2, VU64 1], [7, 8]) :: frame" and ?b = "([VU16 12, VU64 1], [7, 8]) :: frame"
  have "decode (clock_schema False) (Some (concat (map wire_frame [?a]) @ take 3 (wire_frame ?a))) 15 =
      Some (Inr [frame_fields ?fs ?vf ([VU16 2, VU64 (byte_swap 1)], [7, 8])])"
    using decode_recovers_frames [OF clock_frames(1) [of False] _ clock_frames(3) _ _ refl, of "[?a]" 3 15]
    by (simp add: clock_frames(3) clock_wire valid_object_def) (simp add: clock_schema_def)
  moreover have "decode (clock_schema True) (Some (concat (map wire_frame [?b]) @ take 3 (wire_frame ?b))) 15 =
      Some (Inr [assign_fields ?fs [VU16 12, VU64 (byte_swap 1)] []])"
    using decode_recovers_frames [OF clock_frames(1) [of True] _ clock_frames(2) _ _ refl, of "[?b]" 3 15]
    by (simp add: clock_frames(2) clock_wire valid_object_def) (simp add: clock_schema_def)
  ultimately show ?thesis
    by (simp add: clock_wire frame_fields_def byte_swap_one tail_value_def plain_field_def new_field_def_def)
qed

end
