(* ===== verification/Decoder_Datagrams.thy ===== *)
theory Decoder_Datagrams
  imports Decoder_Framing
begin

text \<open>
  The datagram branch of the decoder and the messages made from decoded fields: round trips for
  complete datagrams, the prefix property of truncated ones, and what
  \<open>decode_to_messages\<close> reports for a stream.
\<close>

section \<open>Datagrams\<close>

lemma decode_datagram_fixed:
  assumes "fixed_values fs vs" and "unat off = length pre" and "unat len < 2 ^ 63"
    and "length pre + length (encode_values vs) \<le> unat len"
  shows "decode_datagram (pre @ encode_values vs @ post) len (fs @ gs) off m =
    decode_datagram (pre @ encode_values vs @ post) len gs
      (off + of_nat (length (encode_values vs))) (assign_fields fs vs m)"
  using assms
proof (induction fs arbitrary: vs off pre m)
  case (Cons f fs)
  then obtain v vs' where vs: "vs = v # vs'" by (cases vs) auto
  with Cons.prems(1) have v: "\<not> is_variable (value_type v)" and f: "fd_type f = value_type v"
    and fs: "fixed_values fs vs'" by auto
  let ?d = "(pre @ encode_value v) @ encode_values vs' @ post"
  let ?o = "off + field_type_size (value_type v)"
  note ends = field_end_fixed [OF v Cons.prems(2) _ Cons.prems(3), of vs']
  have fit: "length pre + length (encode_value v @ encode_values vs') \<le> unat len"
    using Cons.prems(4) vs by simp
  have read: "read_field_udp ?d len off (value_type v) = Inr v"
    using read_encoded [OF v Cons.prems(2), of "encode_values vs' @ post"] v
    by (simp add: read_field_udp_fixed [where n = 0])
  have "value_type v \<noteq> BYTES" "value_type v \<noteq> STRING"
    using v by (auto simp: is_variable_def)
  then have "decode_datagram ?d len ((f # fs) @ gs) off m =
      decode_datagram ?d len (fs @ gs) ?o (AList.update (fd_name f) v m)"
    using ends(2) [OF fit] read f by (simp add: Let_def)
  also have "\<dots> = decode_datagram ?d len gs (?o + of_nat (length (encode_values vs')))
      (assign_fields fs vs' (AList.update (fd_name f) v m))"
    using Cons.prems(3) fit by (intro Cons.IH [OF fs ends(1) [OF fit]]) auto
  finally show ?case unfolding ends(3) [OF fit] by (simp add: vs)
qed (simp add: fixed_values_def)

text \<open>The trailing variable-length field of a datagram takes whatever bytes are left.\<close>

lemma datagram_tail:
  assumes "tail_ok vf" and "unat off = length pre" and "valid_object (pre @ pl) len"
  shows "decode_datagram (pre @ pl) len vf off m =
    Inr (case vf of [] \<Rightarrow> m | f # _ \<Rightarrow> AList.update (fd_name f) (tail_value f pl) m)"
proof (cases vf)
  case (Cons f rest)
  then have f: "rest = []" "fd_type f = BYTES \<or> fd_type f = STRING"
    using assms(1) by (auto simp: tail_ok_def is_variable_def split: list.splits)
  have "unat (len - off) = length pl"
    using assms(2,3) by (subst size_sub_nat) (auto simp: word_le_nat_alt valid_object_def)
  then show ?thesis
    using Cons f assms(2) mem_read_at [OF assms(2), of "length pl" pl "[]"]
    by (auto simp: Let_def tail_value_def)
qed simp

definition datagram_schema :: "protocol_schema \<Rightarrow> field_def list \<Rightarrow> field_def list \<Rightarrow> bool" where
  "datagram_schema s fs vf \<longleftrightarrow> s_transport s = ''udp'' \<and> s_fields s = fs @ vf \<and> tail_ok vf"

lemma datagram_frame:
  assumes "datagram_schema s fs vf" and "fixed_values fs (fst fr)"
    and "valid_object (frame_bytes fr) len" and "frame_bytes fr \<noteq> []"
  shows "decode s (Some (frame_bytes fr)) len = Some (Inr [frame_fields fs vf fr])"
proof -
  obtain vs pl where fr: "fr = (vs, pl)" by (cases fr)
  let ?off = "of_nat (length (encode_values vs)) :: size_t"
  have v: "valid_object (encode_values vs @ pl) len" and len: "unat len < 2 ^ 63" "len \<noteq> 0"
    using assms(3,4) by (auto simp: fr frame_bytes_def valid_object_def)
  then have off: "unat ?off = length (encode_values vs)"
    by (intro unat_of_nat_less) (simp add: valid_object_def)
  have "decode_datagram (encode_values vs @ pl) len (fs @ vf) 0 [] =
      decode_datagram (encode_values vs @ pl) len vf ?off (assign_fields fs vs [])"
    using decode_datagram_fixed [of fs vs 0 "[]" len pl vf "[]"] assms(2) v
    by (simp add: fr valid_object_def)
  also have "\<dots> = Inr (frame_fields fs vf fr)"
    using datagram_tail [OF _ off v] assms(1)
    by (simp add: datagram_schema_def frame_fields_def fr Let_def split: list.splits)
  finally show ?thesis
    using assms(1) len(2) by (simp add: decode_def datagram_schema_def fr frame_bytes_def)
qed

text \<open>C17: A complete datagram in network byte order, for any schema of fixed-size fields and possibly a last
  one of variable length, decodes to one message that has every field: with the value sent where it
  has at most 32 bits, with its bytes reversed where it is a 64-bit integer, whatever byte order the
  schema declares; a trailing variable-length field holds every byte after the others.\<close>

theorem datagram_roundtrip:
  assumes "datagram_schema s fs vf" and "fixed_values fs vs"
    and "d = wire_values vs @ pl" "valid_object d len" "d \<noteq> []"
  shows "decode s (Some d) len = Some (Inr [frame_fields fs vf (map read_as vs, pl)])"
  using datagram_frame [of s fs vf "(map read_as vs, pl)" len] assms by (simp add: frame_bytes_def frame_as_bytes)

definition beacon_values :: "field_value list" where
  "beacon_values = [VU16 0xCAFE, VU8 1, VU8 2, VU64 77, VU32 5, VU64 1000, VU16 0]"

lemma beacon_fixed: "fixed_values (s_fields vehicle_udp_schema) beacon_values"
  by (simp add: fixed_values_def vehicle_udp_schema_def beacon_values_def is_variable_def
      plain_field_def new_field_def_def)

lemma beacon_size: "length (encode_values beacon_values) = 26"
  by (simp add: beacon_values_def)

lemma beacon_schema: "datagram_schema vehicle_udp_schema (s_fields vehicle_udp_schema) []"
  by (simp add: datagram_schema_def vehicle_udp_schema_def new_schema_def tail_ok_def)

text \<open>The shipped UDP schema declares \<^verbatim>\<open>endian: big\<close>; device 1 is shown as device \<open>2 ^ 56\<close>.\<close>

theorem datagram_roundtrip_witness:
  "decode vehicle_udp_schema (Some (wire_values [VU16 0xCAFE, VU8 1, VU8 2, VU64 1, VU32 5, VU64 1, VU16 0])) 26 =
    Some (Inr [[(''magic'', VU16 0xCAFE), (''version'', VU8 1), (''msg_type'', VU8 2),
      (''device_id'', VU64 (2 ^ 56)), (''seq'', VU32 5), (''timestamp'', VU64 (2 ^ 56)), (''payload_len'', VU16 0)]])"
proof -
  let ?vs = "[VU16 0xCAFE, VU8 1, VU8 2, VU64 1, VU32 5, VU64 1, VU16 0]"
  have fixed: "fixed_values (s_fields vehicle_udp_schema) ?vs"
    by (simp add: fixed_values_def vehicle_udp_schema_def is_variable_def plain_field_def new_field_def_def)
  have "decode vehicle_udp_schema (Some (wire_values ?vs)) 26 =
      Some (Inr [frame_fields (s_fields vehicle_udp_schema) [] (map read_as ?vs, [])])"
    by (rule datagram_roundtrip [OF beacon_schema fixed])
      (simp_all add: valid_object_def wire_values_def flip: length_0_conv)
  then show ?thesis
    by (simp add: frame_fields_def byte_swap_one) (simp add: vehicle_udp_schema_def plain_field_def new_field_def_def)
qed

section \<open>Truncated datagrams\<close>

lemma fitting_prefix:
  "\<exists>j \<le> length vs. length (encode_values (take j vs)) \<le> k \<and>
    (j < length vs \<longrightarrow> k < length (encode_values (take j vs)) + length (encode_value (vs ! j)))"
proof (induction vs arbitrary: k)
  case (Cons v vs)
  show ?case
  proof (cases "length (encode_value v) \<le> k")
    case True
    from Cons.IH [of "k - length (encode_value v)"] obtain j where "j \<le> length vs"
      "length (encode_values (take j vs)) \<le> k - length (encode_value v)"
      "j < length vs \<longrightarrow> k - length (encode_value v) <
        length (encode_values (take j vs)) + length (encode_value (vs ! j))" by blast
    with True show ?thesis by (intro exI [of _ "Suc j"]) auto
  qed (intro exI [of _ 0], auto)
qed simp

lemma encode_values_append [simp]: "encode_values (vs @ ws) = encode_values vs @ encode_values ws"
  by (simp add: encode_values_def)

lemma fixed_values_take: "fixed_values fs vs \<Longrightarrow> fixed_values (take j fs) (take j vs)"
  by (auto simp: fixed_values_def take_map [symmetric] dest: in_set_takeD)

lemma fixed_values_nth:
  assumes "fixed_values fs vs" and "j < length vs"
  shows "fd_type (fs ! j) = value_type (vs ! j)" "\<not> is_variable (value_type (vs ! j))"
    "length fs = length vs"
  using assms by (auto simp: fixed_values_def dest: map_eq_imp_length_eq)
    (metis length_map nth_map)

lemma datagram_prefix_stops:
  assumes "fixed_values fs vs" and "j \<le> length vs" and "unat off = length (encode_values (take j vs))"
    and "unat len < 2 ^ 62" and "length (encode_values (take j vs)) \<le> unat len"
    and "j < length vs \<longrightarrow>
      unat len < length (encode_values (take j vs)) + length (encode_value (vs ! j))"
  shows "decode_datagram d len (drop j fs) off m = Inr m"
proof (cases "j < length vs")
  case True
  note f = fixed_values_nth [OF assms(1) True]
  then have d: "drop j fs = fs ! j # drop (Suc j) fs" using True by (simp add: Cons_nth_drop_Suc)
  have size: "unat (field_type_size (value_type (vs ! j))) = length (encode_value (vs ! j))"
    using encode_value_size f(2) by simp
  then have "unat (off + field_type_size (value_type (vs ! j))) =
      length (encode_values (take j vs)) + length (encode_value (vs ! j))"
    using assms(3-5) field_type_size_le [of "value_type (vs ! j)"] by (subst field_end_nat) auto
  then have "off + field_type_size (fd_type (fs ! j)) > len"
    using assms(6) True f(1) by (simp add: word_less_nat_alt)
  then show ?thesis using d f(1,2) by (simp add: Let_def is_variable_def)
next
  case False
  then have "length fs = j" using assms(1,2) by (auto simp: fixed_values_def dest: map_eq_imp_length_eq)
  then show ?thesis by simp
qed

text \<open>C18: A truncated datagram yields the longest prefix of fields that is completely present,
  with their values (64-bit integers taken in the order of the host), and nothing of the field that was cut.\<close>

theorem truncated_datagram_prefix:
  assumes "s_transport s = ''udp''" and "fixed_values (s_fields s) vs"
    and "0 < k" "k \<le> length (encode_values vs)" "length (encode_values vs) < 2 ^ 62"
  shows "\<exists>j \<le> length vs. length (encode_values (take j vs)) \<le> k \<and>
    (j < length vs \<longrightarrow> k < length (encode_values (take (Suc j) vs))) \<and>
    decode s (Some (take k (encode_values vs))) (of_nat k) =
      Some (Inr [assign_fields (take j (s_fields s)) (take j vs) []])"
proof -
  let ?fs = "s_fields s" and ?len = "of_nat k :: size_t" and ?d = "take k (encode_values vs)"
  obtain j where j: "j \<le> length vs" "length (encode_values (take j vs)) \<le> k"
    "j < length vs \<longrightarrow> k < length (encode_values (take j vs)) + length (encode_value (vs ! j))"
    using fitting_prefix by blast
  have len: "unat ?len = k" using assms(4,5) by (intro unat_of_nat_less) simp
  let ?off = "of_nat (length (encode_values (take j vs))) :: size_t"
  have off: "unat ?off = length (encode_values (take j vs))"
    using j(2) assms(4,5) by (intro unat_of_nat_less) simp
  have "encode_values vs = encode_values (take j vs) @ encode_values (drop j vs)"
    by (metis append_take_drop_id encode_values_append)
  then have d: "?d = encode_values (take j vs) @ take (k - length (encode_values (take j vs))) (encode_values (drop j vs))"
    using j(2) by (metis append_Nil take_all take_append)
  have "decode_datagram ?d ?len (take j ?fs @ drop j ?fs) 0 [] =
      decode_datagram ?d ?len (drop j ?fs) ?off (assign_fields (take j ?fs) (take j vs) [])"
    unfolding d
    using decode_datagram_fixed [OF fixed_values_take [OF assms(2)], of 0 "[]" ?len j _ "drop j ?fs" "[]"]
      len j(2) assms(4,5) by simp
  also have "\<dots> = Inr (assign_fields (take j ?fs) (take j vs) [])"
    using j off len assms(4,5) by (intro datagram_prefix_stops [OF assms(2) j(1)]) auto
  finally have "decode_datagram ?d ?len ?fs 0 [] = Inr (assign_fields (take j ?fs) (take j vs) [])"
    by simp
  moreover have "?len \<noteq> 0" using len assms(3) by auto
  moreover have "j < length vs \<longrightarrow> k < length (encode_values (take (Suc j) vs))"
    using j(3) by (simp add: take_Suc_conv_app_nth)
  ultimately show ?thesis using j(1,2) assms(1) by (auto simp: decode_def)
qed

theorem truncated_datagram_prefix_witness:
  "\<exists>j \<le> length beacon_values. length (encode_values (take j beacon_values)) \<le> 10 \<and>
    decode vehicle_udp_schema (Some (take 10 (encode_values beacon_values))) (of_nat 10) =
      Some (Inr [assign_fields (take j (s_fields vehicle_udp_schema)) (take j beacon_values) []])"
proof -
  have "s_transport vehicle_udp_schema = ''udp''" by (simp add: vehicle_udp_schema_def new_schema_def)
  from truncated_datagram_prefix [OF this beacon_fixed, of 10] show ?thesis
    by (auto simp: beacon_size simp del: of_nat_numeral)
qed

end
