(* ===== verification/Timeline.thy ===== *)
theory Timeline
  imports Flow_Tracker Decoder_Datagrams
begin

text \<open>
  The timeline (\<^verbatim>\<open>src/timeline/TimelineEvent.cpp\<close>, \<^verbatim>\<open>TimelineBuilder.cpp\<close>): the
  flows of a tracker, decoded under a schema and merged by time. Three orders the standard
  library leaves open are parameters: the iteration orders of the flow table and of the decoded
  fields, and the arrangement \<open>std::sort\<close> gives to events with equal timestamps.
\<close>

record timeline_event =
  te_timestamp_us :: u64
  te_transport :: string
  te_src :: string
  te_dst :: string
  te_message_type :: string
  te_details :: string

definition from_message :: "message \<Rightarrow> string \<Rightarrow> string \<Rightarrow> string \<Rightarrow> timeline_event" where
  "from_message msg transport src dst = \<lparr>te_timestamp_us = m_timestamp_us msg,
     te_transport = transport, te_src = src, te_dst = dst, te_message_type = m_type msg,
     te_details = m_summary msg\<rparr>"

type_synonym field_order = "fields \<Rightarrow> fields"
type_synonym comparator = "timeline_event \<Rightarrow> timeline_event \<Rightarrow> bool"
type_synonym sorter = "comparator \<Rightarrow> timeline_event list \<Rightarrow> timeline_event list"

text \<open>The comparator handed to \<open>std::sort\<close>.\<close>

definition event_before :: comparator where
  "event_before a b \<longleftrightarrow> te_timestamp_us a < te_timestamp_us b"

text \<open>
  What \<open>std::sort\<close> promises of any comparator that is a strict weak ordering: a permutation in which no element
  is before one that stands ahead of it. How it arranges equivalent elements is left open.
\<close>

definition strict_weak :: "comparator \<Rightarrow> bool" where
  "strict_weak lt \<longleftrightarrow> (\<forall>a. \<not> lt a a) \<and> (\<forall>a b c. lt a b \<longrightarrow> lt b c \<longrightarrow> lt a c) \<and>
     (\<forall>a b c. \<not> lt a b \<longrightarrow> \<not> lt b c \<longrightarrow> \<not> lt a c)"

definition event_sorter :: "sorter \<Rightarrow> bool" where
  "event_sorter srt \<longleftrightarrow> (\<forall>lt es. strict_weak lt \<longrightarrow>
     mset (srt lt es) = mset es \<and> sorted_wrt (\<lambda>a b. \<not> lt b a) (srt lt es))"

lemma event_before_weak: "strict_weak event_before"
  by (auto simp: strict_weak_def event_before_def)

lemma sorted_events:
  assumes "event_sorter srt"
  shows "mset (srt event_before es) = mset es" "sorted (map te_timestamp_us (srt event_before es))"
proof -
  have "sorted_wrt (\<lambda>a b. \<not> event_before b a) (srt event_before es)"
    using assms event_before_weak by (simp add: event_sorter_def)
  then show "sorted (map te_timestamp_us (srt event_before es))"
    by (simp add: sorted_map event_before_def linorder_not_less)
  show "mset (srt event_before es) = mset es" using assms event_before_weak by (simp add: event_sorter_def)
qed

section \<open>Building the timeline\<close>

definition stream_events ::
    "field_order \<Rightarrow> protocol_schema \<Rightarrow> u64 \<Rightarrow> string \<Rightarrow> byte list \<Rightarrow> string \<Rightarrow> string \<Rightarrow>
     timeline_event list run" where
  "stream_events ford s ts dir stream src dst =
     (if stream = [] then Some (Inr [])
      else rbind (decode_to_messages ford s (Some stream) (of_nat (length stream)) ts dir)
             (\<lambda>ms. Some (Inr (map (\<lambda>m. from_message m ''TCP'' src dst) ms))))"

definition datagram_events ::
    "field_order \<Rightarrow> protocol_schema \<Rightarrow> packet \<Rightarrow> timeline_event list run" where
  "datagram_events ford s d =
     rbind (Some (payload d)) (\<lambda>data.
     rbind (Some (payload_size d)) (\<lambda>n.
     rbind (decode_to_messages ford s (Some data) n (p_timestamp_us d)
              (endpoint (p_src_ip d) (p_src_port d) @ '' -> '' @ endpoint (p_dst_ip d) (p_dst_port d)))
       (\<lambda>ms. Some (Inr (map (\<lambda>m. from_message m ''UDP'' (endpoint (p_src_ip d) (p_src_port d))
                                    (endpoint (p_dst_ip d) (p_dst_port d))) ms)))))"

primrec flow_events :: "field_order \<Rightarrow> protocol_schema \<Rightarrow> flow \<Rightarrow> timeline_event list run" where
  "flow_events ford s (Tcp_Flow f) =
     (let k = tf_key f;
          src = endpoint (k_src_ip k) (k_src_port k);
          dst = endpoint (k_dst_ip k) (k_dst_port k)
      in rbind (stream_events ford s (tf_first_seen f) ''C->S'' (r_stream (client_to_server f)) src dst)
           (\<lambda>es. rbind (stream_events ford s (tf_first_seen f) ''S->C''
                          (r_stream (server_to_client f)) dst src)
              (\<lambda>es'. Some (Inr (es @ es')))))"
| "flow_events ford s (Udp_Flow f) = collect (datagram_events ford s) (datagrams (udp_tracker f)) []"

definition build ::
    "iteration \<Rightarrow> field_order \<Rightarrow> sorter \<Rightarrow> protocol_schema \<Rightarrow> flow_table \<Rightarrow> timeline_event list run" where
  "build ord ford srt s t =
     rbind (collect (flow_events ford s) (get_flows ord t) []) (\<lambda>events. Some (Inr (srt event_before events)))"

text \<open>The class: references to the tracker and the schema, the decoder made for the schema, and the
  events of the last \<open>Build\<close>.\<close>

record timeline_builder =
  tb_tracker :: flow_table
  tb_schema :: protocol_schema
  tb_decoder :: binary_decoder
  tb_events :: "timeline_event list"

definition new_builder :: "flow_table \<Rightarrow> protocol_schema \<Rightarrow> timeline_builder" where
  "new_builder tracker schema = \<lparr>tb_tracker = tracker, tb_schema = schema,
     tb_decoder = new_decoder schema, tb_events = []\<rparr>"

definition builder_build ::
    "iteration \<Rightarrow> field_order \<Rightarrow> sorter \<Rightarrow> timeline_builder \<Rightarrow> timeline_builder run" where
  "builder_build ord ford srt b =
     rbind (build ord ford srt (bd_schema (tb_decoder b)) (tb_tracker b)) (\<lambda>es. Some (Inr (b\<lparr>tb_events := es\<rparr>)))"

definition builder_events :: "timeline_builder \<Rightarrow> timeline_event list" where
  [simp]: "builder_events b = tb_events b"

text \<open>Events are cleared first: building again yields the same events.\<close>

lemma builder_build_again:
  "rbind (builder_build ord ford srt b) (builder_build ord ford srt) = builder_build ord ford srt b"
proof (cases "build ord ford srt (bd_schema (tb_decoder b)) (tb_tracker b)")
  case (Some r)
  then show ?thesis by (cases r) (simp_all add: builder_build_def)
qed (simp add: builder_build_def)

section \<open>Order and completeness\<close>

lemma from_message_timestamp [simp]: "te_timestamp_us (from_message m tr src dst) = m_timestamp_us m"
  by (simp add: from_message_def)

lemma mset_concat_map_cong:
  "mset xs = mset ys \<Longrightarrow> mset (concat (map h xs)) = mset (concat (map h ys))"
  by (simp add: mset_concat flip: sum_mset_sum_list)

lemma get_flows_mset: "iteration_order ord \<Longrightarrow> mset (get_flows ord t) = mset (map snd t)"
  by (simp add: get_flows_map iteration_order_def)

lemma get_flows_set: "iteration_order ord \<Longrightarrow> set (get_flows ord t) = snd ` set t"
  using get_flows_mset [of ord t] by (metis set_mset_mset set_map)

text \<open>What a successful build returns.\<close>

lemma build_ok:
  assumes "iteration_order ord" and "event_sorter srt"
    and "\<forall>f \<in> snd ` set t. flow_events ford s f = Some (Inr (h f))"
  shows "\<exists>es. build ord ford srt s t = Some (Inr es) \<and> sorted (map te_timestamp_us es) \<and>
    mset es = mset (concat (map h (map snd t)))"
proof -
  have "\<forall>f \<in> set (get_flows ord t). flow_events ford s f = Some (Inr (h f))"
    using assms(1,3) by (simp add: get_flows_set)
  from collect_ok [OF this, of "[]"]
  have "collect (flow_events ford s) (get_flows ord t) [] = Some (Inr (concat (map h (get_flows ord t))))"
    by simp
  moreover have "mset (concat (map h (get_flows ord t))) = mset (concat (map h (map snd t)))"
    by (intro mset_concat_map_cong get_flows_mset assms(1))
  ultimately show ?thesis using sorted_events [OF assms(2)] by (simp add: build_def)
qed

text \<open>
  Building from a capture, one conversation at a time: whatever the flow of each five-tuple
  contributes, the timeline lists the contributions of all five-tuples and nothing else.
\<close>

lemma build_tracked:
  assumes "\<forall>p \<in> set ps. trackable p" and "iteration_order ord" "event_sorter srt"
    and ev: "\<And>k f. k \<in> make_key ` set ps \<Longrightarrow> run_flow (packets_of k ps) (new_flow k) = Inr f \<Longrightarrow>
      flow_events ford s f = Some (Inr (ev k))"
  shows "\<exists>t es. track ps = Inr t \<and> build ord ford srt s t = Some (Inr es) \<and>
    sorted (map te_timestamp_us es) \<and> mset es = (\<Sum>k \<in> make_key ` set ps. mset (ev k))"
proof -
  obtain t where t: "track ps = Inr t" "distinct (map fst t)" "set (map fst t) = make_key ` set ps"
    "\<forall>(k, f) \<in> set t. run_flow (packets_of k ps) (new_flow k) = Inr f"
    using track_table [OF assms(1)] by blast
  have flow: "flow_events ford s f = Some (Inr (ev k))" if "(k, f) \<in> set t" for k f
    using ev [of k f] t(3,4) that by force
  define h where "h f = (case flow_events ford s f of Some (Inr es) \<Rightarrow> es | _ \<Rightarrow> [])" for f
  have "\<forall>f \<in> snd ` set t. flow_events ford s f = Some (Inr (h f))"
    using flow by (auto simp: h_def)
  from build_ok [OF assms(2,3) this] obtain es where es: "build ord ford srt s t = Some (Inr es)"
    "sorted (map te_timestamp_us es)" "mset es = mset (concat (map h (map snd t)))" by blast
  have "map h (map snd t) = map ev (map fst t)"
    using flow by (auto simp: h_def)
  then have "mset es = mset (concat (map ev (map fst t)))"
    using es(3) by (simp only:)
  also have "\<dots> = (\<Sum>k \<leftarrow> map fst t. mset (ev k))"
    by (simp add: mset_concat o_def)
  also have "\<dots> = (\<Sum>k \<in> make_key ` set ps. mset (ev k))"
    using sum_list_distinct_conv_sum_set [OF t(2)] t(3) by (simp only:)
  finally show ?thesis using t(1) es by blast
qed

lemma build_inv:
  assumes "build ord ford srt s t = Some (Inr es)" and "iteration_order ord"
  shows "\<exists>h. \<forall>f \<in> snd ` set t. flow_events ford s f = Some (Inr (h f))"
proof -
  from assms(1) obtain es0 where "collect (flow_events ford s) (get_flows ord t) [] = Some (Inr es0)"
    by (auto simp: build_def rbind_eq_Inr)
  then obtain h where "\<forall>f \<in> set (get_flows ord t). flow_events ford s f = Some (Inr (h f))"
    by (auto simp: collect_eq_Inr)
  then show ?thesis using assms(2) by (auto simp: get_flows_set)
qed

text \<open>
  What a flow contributes, in terms of the decoder alone: one event for each message of a byte string, those of
  the client's stream from client to server, those of the server's stream the other way, all with the time the
  connection was first seen; those of a datagram with its own time and endpoints.
\<close>

definition decoded :: "protocol_schema \<Rightarrow> byte list \<Rightarrow> fields list" where
  "decoded s bs = (case decode s (Some bs) (of_nat (length bs)) of Some (Inr ms) \<Rightarrow> ms | _ \<Rightarrow> [])"

definition listed_event :: "field_order \<Rightarrow> string \<Rightarrow> string \<Rightarrow> string \<Rightarrow> u64 \<Rightarrow> fields \<Rightarrow> timeline_event" where
  "listed_event ford tr src dst ts m = \<lparr>te_timestamp_us = ts, te_transport = tr, te_src = src, te_dst = dst,
     te_message_type = message_type m, te_details = message_summary ford m\<rparr>"

primrec flow_listing :: "field_order \<Rightarrow> protocol_schema \<Rightarrow> flow \<Rightarrow> timeline_event list" where
  "flow_listing ford s (Tcp_Flow f) =
     (let client = endpoint (k_src_ip (tf_key f)) (k_src_port (tf_key f));
          server = endpoint (k_dst_ip (tf_key f)) (k_dst_port (tf_key f))
      in map (listed_event ford ''TCP'' client server (tf_first_seen f)) (decoded s (r_stream (tf_client_to_server f))) @
         map (listed_event ford ''TCP'' server client (tf_first_seen f)) (decoded s (r_stream (tf_server_to_client f))))"
| "flow_listing ford s (Udp_Flow f) = concat (map (\<lambda>p.
     map (listed_event ford ''UDP'' (endpoint (p_src_ip p) (p_src_port p)) (endpoint (p_dst_ip p) (p_dst_port p))
       (p_timestamp_us p)) (decoded s (payload_bytes p))) (u_datagrams (uf_tracker f)))"

lemma messages_decoded:
  assumes "decode_to_messages ford s (Some bs) (of_nat (length bs)) ts dir = Some (Inr ms)"
  shows "map (\<lambda>m. from_message m tr src dst) ms = map (listed_event ford tr src dst ts) (decoded s bs)"
  using assms
  by (auto simp: decode_to_messages_def decoded_def obind_eq_Inr listed_event_def from_message_def to_message_def
      new_message_def split: option.splits)

lemma stream_events_listed:
  assumes "stream_events ford s ts dir bs src dst = Some (Inr es)"
  shows "es = map (listed_event ford ''TCP'' src dst ts) (decoded s bs)"
proof (cases "bs = []")
  case True
  then show ?thesis using assms by (simp add: stream_events_def decoded_def decode_def)
next
  case False
  then obtain ms where "decode_to_messages ford s (Some bs) (of_nat (length bs)) ts dir = Some (Inr ms)"
    "es = map (\<lambda>m. from_message m ''TCP'' src dst) ms"
    using assms by (auto simp: stream_events_def rbind_eq_Inr)
  with messages_decoded show ?thesis by metis
qed

lemma datagram_events_listed:
  assumes "datagram_events ford s p = Some (Inr es)"
  shows "es = map (listed_event ford ''UDP'' (endpoint (p_src_ip p) (p_src_port p)) (endpoint (p_dst_ip p) (p_dst_port p))
    (p_timestamp_us p)) (decoded s (payload_bytes p))"
proof -
  obtain bs where bs: "p_payload p = Some bs"
    using assms by (cases "p_payload p") (simp_all add: datagram_events_def payload_def)
  then have "payload p = Inr (payload_bytes p)" "payload_size p = Inr (of_nat (length (payload_bytes p)))"
    by (simp_all add: payload_def payload_size_def payload_bytes_def)
  then obtain ms dir where
    "decode_to_messages ford s (Some (payload_bytes p)) (of_nat (length (payload_bytes p))) (p_timestamp_us p) dir = Some (Inr ms)"
    "es = map (\<lambda>m. from_message m ''UDP'' (endpoint (p_src_ip p) (p_src_port p)) (endpoint (p_dst_ip p) (p_dst_port p))) ms"
    using assms by (auto simp: datagram_events_def rbind_eq_Inr)
  with messages_decoded show ?thesis by metis
qed

lemma flow_events_listed: "flow_events ford s f = Some (Inr es) \<Longrightarrow> es = flow_listing ford s f"
proof (cases f)
  case (Tcp_Flow g)
  assume "flow_events ford s f = Some (Inr es)"
  with Tcp_Flow show ?thesis
    by (auto simp: Let_def rbind_eq_Inr dest!: stream_events_listed)
next
  case (Udp_Flow g)
  assume run: "flow_events ford s f = Some (Inr es)"
  then obtain h where h: "\<forall>d \<in> set (u_datagrams (uf_tracker g)). datagram_events ford s d = Some (Inr (h d))"
    "es = concat (map h (u_datagrams (uf_tracker g)))"
    unfolding Udp_Flow by (auto simp: collect_eq_Inr)
  show ?thesis
    unfolding Udp_Flow h(2) flow_listing.simps
  proof (rule arg_cong [where f = concat], rule map_cong [OF refl])
    fix p assume "p \<in> set (u_datagrams (uf_tracker g))"
    then have "datagram_events ford s p = Some (Inr (h p))" using h(1) by blast
    then show "h p = map (listed_event ford ''UDP'' (endpoint (p_src_ip p) (p_src_port p))
        (endpoint (p_dst_ip p) (p_dst_port p)) (p_timestamp_us p)) (decoded s (payload_bytes p))"
      by (rule datagram_events_listed)
  qed
qed

text \<open>C24: The timeline of any table of flows, when it can be built: sorted by time, it has for every
  flow the messages its two streams or its datagrams decode to, with source and destination of their direction,
  and nothing else. Neither the iteration order of the hash table nor what the sort does with ties decides
  whether it can be built, which events it has, or the sequence of its timestamps.\<close>

theorem timeline_lists_flows:
  assumes "iteration_order ord" "iteration_order ord'" "event_sorter srt" "event_sorter srt'"
    and "build ord ford srt s t = Some (Inr es)"
  shows "sorted (map te_timestamp_us es) \<and> mset es = mset (concat (map (flow_listing ford s \<circ> snd) t)) \<and>
    (\<exists>es'. build ord' ford srt' s t = Some (Inr es') \<and> mset es' = mset es \<and>
      map te_timestamp_us es' = map te_timestamp_us es)"
proof -
  obtain g where g: "\<forall>f \<in> snd ` set t. flow_events ford s f = Some (Inr (g f))"
    using build_inv [OF assms(5,1)] by (elim exE)
  have h: "\<forall>f \<in> snd ` set t. flow_events ford s f = Some (Inr (flow_listing ford s f))"
  proof
    fix f assume "f \<in> snd ` set t"
    then have "flow_events ford s f = Some (Inr (g f))" using g by (rule_tac bspec)
    with flow_events_listed [OF this] show "flow_events ford s f = Some (Inr (flow_listing ford s f))" by simp
  qed
  from build_ok [OF assms(1,3) h] assms(5) have es: "sorted (map te_timestamp_us es)"
    "mset es = mset (concat (map (flow_listing ford s) (map snd t)))" by auto
  from build_ok [OF assms(2,4) h] obtain es' where
    es': "build ord' ford srt' s t = Some (Inr es')" "sorted (map te_timestamp_us es')"
      "mset es' = mset (concat (map (flow_listing ford s) (map snd t)))" by blast
  have "mset (map te_timestamp_us es') = mset (map te_timestamp_us es)"
    using es(2) es'(3) by (metis mset_map)
  with es es' have "map te_timestamp_us es' = map te_timestamp_us es"
    by (metis properties_for_sort)
  with es es' show ?thesis by auto
qed

text \<open>A sort that promises this: insertion.\<close>

primrec insert_event :: "comparator \<Rightarrow> timeline_event \<Rightarrow> timeline_event list \<Rightarrow> timeline_event list" where
  "insert_event lt x [] = [x]"
| "insert_event lt x (y # ys) = (if lt y x then y # insert_event lt x ys else x # y # ys)"

definition stable_sorter :: sorter where
  "stable_sorter lt es = foldr (insert_event lt) es []"

lemma mset_insert_event [simp]: "mset (insert_event lt x es) = add_mset x (mset es)"
  by (induction es) auto

lemma set_insert_event [simp]: "set (insert_event lt x es) = insert x (set es)"
  by (metis mset_insert_event set_mset_add_mset_insert set_mset_mset)

lemma sorted_insert_event:
  assumes "strict_weak lt" "sorted_wrt (\<lambda>a b. \<not> lt b a) es"
  shows "sorted_wrt (\<lambda>a b. \<not> lt b a) (insert_event lt x es)"
  using assms(2)
proof (induction es)
  case (Cons y es)
  have "\<not> lt x y" if "lt y x" using assms(1) that unfolding strict_weak_def by blast
  moreover have "\<not> lt z x" if "\<not> lt y x" "\<not> lt z y" for z
    using assms(1) that unfolding strict_weak_def by blast
  ultimately show ?case using Cons by auto
qed simp

lemma stable_sorter [simp]: "event_sorter stable_sorter"
  unfolding event_sorter_def
proof (intro allI impI)
  fix lt es
  assume "strict_weak lt"
  then show "mset (stable_sorter lt es) = mset es \<and> sorted_wrt (\<lambda>a b. \<not> lt b a) (stable_sorter lt es)"
    unfolding stable_sorter_def by (induction es) (auto simp: sorted_insert_event)
qed

text \<open>Another arrangement of ties that the standard allows.\<close>

definition reversing_sorter :: sorter where
  "reversing_sorter lt es = stable_sorter lt (rev es)"

lemma reversing_sorter [simp]: "event_sorter reversing_sorter"
  using stable_sorter unfolding event_sorter_def reversing_sorter_def by simp

lemma iteration_order_id [simp]: "iteration_order (\<lambda>t. t)" "iteration_order rev" "iteration_order id"
  by (simp_all add: iteration_order_def)

section \<open>Captures of datagrams\<close>

definition datagram_fields :: "protocol_schema \<Rightarrow> packet \<Rightarrow> fields" where
  "datagram_fields s p =
     (case decode_datagram (payload_bytes p) (of_nat (length (payload_bytes p))) (s_fields s) 0 [] of
        Inr m \<Rightarrow> m | Inl _ \<Rightarrow> [])"

definition datagram_event :: "field_order \<Rightarrow> protocol_schema \<Rightarrow> packet \<Rightarrow> timeline_event" where
  "datagram_event ford s p = \<lparr>te_timestamp_us = p_timestamp_us p, te_transport = ''UDP'',
     te_src = endpoint (p_src_ip p) (p_src_port p), te_dst = endpoint (p_dst_ip p) (p_dst_port p),
     te_message_type = message_type (datagram_fields s p),
     te_details = message_summary ford (datagram_fields s p)\<rparr>"

definition small_payload :: "packet \<Rightarrow> bool" where
  "small_payload p \<longleftrightarrow> has_payload p \<and> length (payload_bytes p) < 2 ^ 63"

lemma small_payload_object:
  assumes "small_payload p"
  shows "valid_object (payload_bytes p) (of_nat (length (payload_bytes p)))"
  using assms by (simp add: small_payload_def valid_object_def unat_of_nat_less)

lemma datagram_events_udp:
  assumes "small_payload p" and "s_transport s = ''udp''"
  shows "datagram_events ford s p =
    Some (Inr (if payload_bytes p = [] then [] else [datagram_event ford s p]))"
proof -
  let ?len = "of_nat (length (payload_bytes p)) :: size_t"
  have hp: "has_payload p" using assms(1) by (simp add: small_payload_def)
  obtain m where m: "decode_datagram (payload_bytes p) ?len (s_fields s) 0 [] = Inr m"
    using decode_datagram_safe [OF small_payload_object [OF assms(1)], of 0 "s_fields s" "[]"] by auto
  have zero: "?len = 0 \<longleftrightarrow> payload_bytes p = []"
    using has_payload_bound [OF hp] by (simp add: size_of_nat_0)
  have "decode s (Some (payload_bytes p)) ?len = Some (Inr (if payload_bytes p = [] then [] else [m]))"
    using zero m assms(2) by (simp add: decode_def)
  moreover have "datagram_fields s p = m" using m by (simp add: datagram_fields_def)
  ultimately show ?thesis
    using hp by (simp add: datagram_events_def decode_to_messages_def datagram_event_def from_message_def
        to_message_def new_message_def)
qed

text \<open>The five-tuples partition a capture.\<close>

lemma packets_of_partition:
  assumes "finite K" "make_key ` set ps \<subseteq> K"
  shows "(\<Sum>k \<in> K. mset (map g (filter P (packets_of k ps)))) = mset (map g (filter P ps))"
  using assms(2)
proof (induction ps)
  case Nil
  then show ?case by (simp add: packets_of_def)
next
  case (Cons p ps)
  have "mset (map g (filter P (packets_of k (p # ps)))) =
      (if make_key p = k then if P p then {#g p#} else {#} else {#}) +
      mset (map g (filter P (packets_of k ps)))" for k
    by (cases "make_key p = k") (simp_all add: packets_of_def)
  with Cons assms(1) show ?case by (simp add: sum.distrib)
qed

lemma udp_flow_of_packets:
  assumes "run_flow qs (Udp_Flow (new_udp_flow k)) = Inr f"
  shows "\<exists>g. f = Udp_Flow g \<and> u_datagrams (uf_tracker g) = qs"
  using assms udp_run_datagrams
  by (fastforce simp: run_flow_def udp_dispatch obind_eq_Inr new_udp_flow_def new_datagram_tracker_def)

lemma udp_flow_events:
  assumes "u_datagrams (uf_tracker g) = qs" and "\<And>q. q \<in> set qs \<Longrightarrow> small_payload q"
    and "s_transport s = ''udp''"
  shows "flow_events ford s (Udp_Flow g) =
    Some (Inr (map (datagram_event ford s) (filter (\<lambda>p. payload_bytes p \<noteq> []) qs)))"
proof -
  let ?h = "\<lambda>p. if payload_bytes p = [] then [] else [datagram_event ford s p]"
  have "collect (datagram_events ford s) qs [] = Some (Inr ([] @ concat (map ?h qs)))"
    by (intro collect_ok ballI datagram_events_udp assms(2,3))
  moreover have "concat (map ?h qs) = map (datagram_event ford s) (filter (\<lambda>p. payload_bytes p \<noteq> []) qs)"
    by (induction qs) auto
  ultimately show ?thesis using assms(1) by simp
qed

lemma udp_capture:
  assumes "\<forall>p \<in> set ps. p_protocol p = UDP \<and> small_payload p" and "s_transport s = ''udp''"
    and "iteration_order ord" "event_sorter srt"
  shows "\<exists>t es. track ps = Inr t \<and> build ord ford srt s t = Some (Inr es) \<and>
    sorted (map te_timestamp_us es) \<and>
    mset es = mset (map (datagram_event ford s) (filter (\<lambda>p. payload_bytes p \<noteq> []) ps))"
proof -
  let ?ev = "\<lambda>k. map (datagram_event ford s) (filter (\<lambda>p. payload_bytes p \<noteq> []) (packets_of k ps))"
  have events: "flow_events ford s f = Some (Inr (?ev k))"
    if k: "k \<in> make_key ` set ps" and run: "run_flow (packets_of k ps) (new_flow k) = Inr f" for k f
  proof -
    have "k_protocol k = UDP" using k assms(1) by auto
    then obtain g where g: "f = Udp_Flow g" "u_datagrams (uf_tracker g) = packets_of k ps"
      using run udp_flow_of_packets [of "packets_of k ps" k f] by (auto simp: new_flow_def)
    have "small_payload q" if "q \<in> set (packets_of k ps)" for q
      using that assms(1) by (auto simp: packets_of_def)
    from udp_flow_events [OF g(2) this assms(2)] g(1) show ?thesis by simp
  qed
  have "\<forall>p \<in> set ps. trackable p" using assms(1) by (simp add: trackable_def small_payload_def)
  from build_tracked [where ev = ?ev, OF this assms(3,4) events] obtain t es where "track ps = Inr t"
    "build ord ford srt s t = Some (Inr es)" "sorted (map te_timestamp_us es)"
    "mset es = (\<Sum>k \<in> make_key ` set ps. mset (?ev k))"
    by blast
  moreover have "(\<Sum>k \<in> make_key ` set ps. mset (?ev k)) =
      mset (map (datagram_event ford s) (filter (\<lambda>p. payload_bytes p \<noteq> []) ps))"
    by (rule packets_of_partition) simp_all
  ultimately show ?thesis by auto
qed

text \<open>From capture to timeline, UDP: tracking any sequence of UDP packets and building the
  timeline under a datagram schema always succeeds and lists every packet with a non-empty
  payload exactly once, sorted by time, with its own timestamp and endpoints and the fields its
  own payload decodes to.\<close>

lemma udp_capture_timeline:
  assumes "\<forall>p \<in> set ps. p_protocol p = UDP \<and> small_payload p" and "s_transport s = ''udp''"
    and "iteration_order ord" "event_sorter srt"
  shows "\<exists>t es. track ps = Inr t \<and> build ord ford srt s t = Some (Inr es) \<and>
    sorted (map te_timestamp_us es) \<and>
    mset es = mset (map (datagram_event ford s) (filter (\<lambda>p. payload_bytes p \<noteq> []) ps))"
  by (rule udp_capture [OF assms])

lemma hello_packet_small: "small_payload (hello_packet\<lparr>p_timestamp_us := n\<rparr>)"
    "payload_bytes (hello_packet\<lparr>p_timestamp_us := n\<rparr>) = [0xCA]" "p_protocol hello_packet = UDP"
  by (simp_all add: hello_packet_def small_payload_def has_payload_def payload_bytes_def)

lemma udp_capture_timeline_instance:
  "\<exists>t es. track [hello_packet\<lparr>p_timestamp_us := 9\<rparr>, hello_packet\<lparr>p_timestamp_us := 4\<rparr>] = Inr t \<and>
    build rev (\<lambda>m. m) reversing_sorter vehicle_udp_schema t = Some (Inr es) \<and>
    sorted (map te_timestamp_us es) \<and>
    mset es = mset (map (datagram_event (\<lambda>m. m) vehicle_udp_schema)
      [hello_packet\<lparr>p_timestamp_us := 9\<rparr>, hello_packet\<lparr>p_timestamp_us := 4\<rparr>])"
proof -
  have "s_transport vehicle_udp_schema = ''udp''" by (simp add: vehicle_udp_schema_def new_schema_def)
  from udp_capture_timeline [OF _ this, where ford = "\<lambda>m. m" and ord = rev and srt = reversing_sorter
      and ps = "[hello_packet\<lparr>p_timestamp_us := 9\<rparr>, hello_packet\<lparr>p_timestamp_us := 4\<rparr>]"]
  show ?thesis by (simp add: hello_packet_small)
qed

theorem timeline_lists_flows_witness:
  "\<exists>t es es'. track [hello_packet\<lparr>p_timestamp_us := 9\<rparr>, hello_packet\<lparr>p_timestamp_us := 4\<rparr>] = Inr t \<and>
    build id (\<lambda>m. m) stable_sorter vehicle_udp_schema t = Some (Inr es) \<and>
    build rev (\<lambda>m. m) reversing_sorter vehicle_udp_schema t = Some (Inr es') \<and>
    map te_timestamp_us es = [4, 9] \<and> map te_timestamp_us es' = [4, 9]"
proof -
  let ?ps = "[hello_packet\<lparr>p_timestamp_us := 9\<rparr>, hello_packet\<lparr>p_timestamp_us := 4\<rparr>]"
  have udp: "s_transport vehicle_udp_schema = ''udp''" by (simp add: vehicle_udp_schema_def new_schema_def)
  obtain t es where t: "track ?ps = Inr t"
    "build id (\<lambda>m. m) stable_sorter vehicle_udp_schema t = Some (Inr es)"
    "mset es = mset (map (datagram_event (\<lambda>m. m) vehicle_udp_schema) ?ps)"
    using udp_capture [OF _ udp, where ford = "\<lambda>m. m" and ord = id and srt = stable_sorter and ps = ?ps]
    by (auto simp: hello_packet_small)
  note lists = timeline_lists_flows [OF iteration_order_id(3,2) stable_sorter reversing_sorter t(2)]
  have "mset (map te_timestamp_us es) = mset [4, 9]"
    using arg_cong [OF t(3), of "image_mset te_timestamp_us"] by (simp add: datagram_event_def)
  moreover have "sorted [4, 9 :: u64]" by simp
  ultimately have "map te_timestamp_us es = [4, 9]" using lists by (metis properties_for_sort)
  with lists t(1,2) show ?thesis by auto
qed

end
