(* ===== verification/Stream_Timeline.thy ===== *)
theory Stream_Timeline
  imports Timeline
begin

text \<open>
  The TCP path from captured segments to the timeline: tracker, reassembler, decoder and
  timeline builder together, for connections both of whose directions carry frames.
\<close>

section \<open>Segments that carry frames\<close>

text \<open>
  Consecutive segments whose payloads, wherever the sender cut them, add up to the frames
  \<open>frs\<close> followed by the beginning of a frame still being sent.
\<close>

definition carries_frames ::
    "protocol_schema \<Rightarrow> field_def list \<Rightarrow> packet list \<Rightarrow> frame list \<Rightarrow> bool" where
  "carries_frames s fs ps frs \<longleftrightarrow> (\<exists>isn. contiguous isn ps) \<and> (\<forall>fr \<in> set frs. frame_ok s fs fr) \<and>
     (\<exists>l j. frame_ok s fs l \<and> j < length (frame_bytes l) \<and> length (frame_bytes l) < 2 ^ 62 \<and>
       concat (map payload_bytes ps) = concat (map frame_bytes frs) @ take j (frame_bytes l)) \<and>
     length (concat (map payload_bytes ps)) < 2 ^ 63"

definition tcp_event ::
    "field_order \<Rightarrow> u64 \<Rightarrow> string \<Rightarrow> string \<Rightarrow> string \<Rightarrow> fields \<Rightarrow> timeline_event" where
  "tcp_event ford ts dir src dst m = \<lparr>te_timestamp_us = ts, te_transport = ''TCP'', te_src = src,
     te_dst = dst, te_message_type = message_type m, te_details = message_summary ford m\<rparr>"

lemma stream_events_frames:
  assumes s: "stream_schema s fs vf" and c: "carries_frames s fs ps frs"
  shows "stream_events ford s ts dir (concat (map payload_bytes ps)) src dst =
    Some (Inr (map (tcp_event ford ts dir src dst \<circ> frame_fields fs vf) frs))"
proof -
  let ?d = "concat (map payload_bytes ps)"
  obtain l j where l: "frame_ok s fs l" "j < length (frame_bytes l)" "length (frame_bytes l) < 2 ^ 62"
    and d: "?d = concat (map frame_bytes frs) @ take j (frame_bytes l)"
    using c by (auto simp: carries_frames_def)
  have frs: "\<And>fr. fr \<in> set frs \<Longrightarrow> frame_ok s fs fr" and len: "length ?d < 2 ^ 63"
    using c by (auto simp: carries_frames_def)
  have v: "valid_object ?d (of_nat (length ?d))"
    using len by (simp add: valid_object_def unat_of_nat_less del: length_concat)
  note dec = decode_frames [OF s frs l d v]
  show ?thesis
  proof (cases "?d = []")
    case True
    then have "concat (map frame_bytes frs) = []" using d by simp
    then have "frs = []"
      using frame_bytes_nonempty [OF framed [OF s]] frs by (cases frs) force+
    with True show ?thesis by (simp add: stream_events_def)
  next
    case False
    then show ?thesis
      using dec by (simp add: stream_events_def decode_to_messages_def to_message_def new_message_def
          from_message_def tcp_event_def del: length_concat concat_eq_Nil_conv)
  qed
qed

section \<open>One connection\<close>

text \<open>The two directions of the connection with key \<open>k\<close> in a capture.\<close>

definition client_packets :: "flow_key \<Rightarrow> packet list \<Rightarrow> packet list" where
  "client_packets k ps = filter (is_client_side k) (packets_of k ps)"

definition server_packets :: "flow_key \<Rightarrow> packet list \<Rightarrow> packet list" where
  "server_packets k ps = filter (\<lambda>p. \<not> is_client_side k p) (packets_of k ps)"

definition tcp_capture :: "packet list \<Rightarrow> bool" where
  "tcp_capture ps \<longleftrightarrow> length ps < 2 ^ 64 \<and> (\<forall>p \<in> set ps. p_protocol p = TCP \<and> has_payload p)"

lemma feed_frames:
  assumes "carries_frames s fs ps frs" and "\<And>p. p \<in> set ps \<Longrightarrow> has_payload p"
    and "feed ps dir new_reassembler = Inr r"
  shows "r_stream r = concat (map payload_bytes ps)"
proof -
  obtain isn where "contiguous isn ps" using assms(1) by (auto simp: carries_frames_def)
  from feed_contiguous [OF assms(2) this, of new_reassembler dir] assms(3) show ?thesis
    by (auto simp: new_reassembler_def)
qed

definition connection_events ::
    "field_order \<Rightarrow> flow_key \<Rightarrow> u64 \<Rightarrow> fields list \<Rightarrow> fields list \<Rightarrow> timeline_event list" where
  "connection_events ford k ts cs ss =
     (let src = endpoint (k_src_ip k) (k_src_port k); dst = endpoint (k_dst_ip k) (k_dst_port k)
      in map (tcp_event ford ts ''C->S'' src dst) cs @ map (tcp_event ford ts ''S->C'' dst src) ss)"

text \<open>What a connection's packets, given to a fresh flow, contribute to the timeline.\<close>

lemma connection_flow_events:
  assumes s: "stream_schema s fs vf" and ps: "tcp_capture ps" and k: "k \<in> make_key ` set ps"
    and c: "carries_frames s fs (client_packets k ps) A"
    and b: "carries_frames s fs (server_packets k ps) B"
    and run: "run_flow (packets_of k ps) (new_flow k) = Inr f"
  shows "flow_events ford s f = Some (Inr (connection_events ford k (p_timestamp_us (hd (packets_of k ps)))
      (map (frame_fields fs vf) A) (map (frame_fields fs vf) B)))"
proof -
  let ?qs = "packets_of k ps"
  have "k_protocol k = TCP" using k ps by (auto simp: tcp_capture_def)
  with run obtain g where g: "f = Tcp_Flow g" "ofold tcp_on_packet ?qs (new_tcp_flow k) = Inr g"
    by (auto simp: new_flow_def run_flow_def tcp_dispatch obind_eq_Inr)
  have qs: "?qs \<noteq> []" "length ?qs < 2 ^ 64"
    using k ps le_less_trans [OF length_filter_le, of ps "2 ^ 64" "\<lambda>p. make_key p = k"]
    by (auto simp: packets_of_def filter_empty_conv tcp_capture_def)
  have new: "tf_key (new_tcp_flow k) = k" "tf_packet_count (new_tcp_flow k) = 0"
    "tf_client_to_server (new_tcp_flow k) = new_reassembler"
    "tf_server_to_client (new_tcp_flow k) = new_reassembler"
    by (simp_all add: new_tcp_flow_def)
  note run = tcp.run_key [OF g(2), unfolded new] tcp.run_seen [OF g(2) new(2) qs]
    tcp_run_sides [OF g(2), unfolded new]
  have "has_payload p" if "p \<in> set ?qs" for p
    using that ps by (auto simp: packets_of_def tcp_capture_def)
  then have hp: "\<And>p. p \<in> set (client_packets k ps) \<Longrightarrow> has_payload p"
    "\<And>p. p \<in> set (server_packets k ps) \<Longrightarrow> has_payload p"
    by (auto simp: client_packets_def server_packets_def)
  have "r_stream (tf_client_to_server g) = concat (map payload_bytes (client_packets k ps))"
    "r_stream (tf_server_to_client g) = concat (map payload_bytes (server_packets k ps))"
    using run(3-) feed_frames [OF c hp(1)] feed_frames [OF b hp(2)]
    by (auto simp: client_packets_def server_packets_def)
  then show ?thesis
    using run(1,2) stream_events_frames [OF s c] stream_events_frames [OF s b] g(1)
    by (simp add: Let_def connection_events_def)
qed

section \<open>All connections of a capture\<close>

lemma tcp_capture_events:
  assumes s: "stream_schema s fs vf" and ps: "tcp_capture ps"
    and carries: "\<forall>k \<in> make_key ` set ps. carries_frames s fs (client_packets k ps) (A k) \<and>
      carries_frames s fs (server_packets k ps) (B k)"
    and "iteration_order ord" "event_sorter srt"
  shows "\<exists>t es. track ps = Inr t \<and> build ord ford srt s t = Some (Inr es) \<and>
    sorted (map te_timestamp_us es) \<and>
    mset es = (\<Sum>k \<in> make_key ` set ps. mset (connection_events ford k (p_timestamp_us (hd (packets_of k ps)))
      (map (frame_fields fs vf) (A k)) (map (frame_fields fs vf) (B k))))"
proof (rule build_tracked [OF _ assms(4,5)])
  show "\<forall>p \<in> set ps. trackable p" using ps by (simp add: tcp_capture_def trackable_def)
  fix k f
  assume "k \<in> make_key ` set ps" "run_flow (packets_of k ps) (new_flow k) = Inr f"
  then show "flow_events ford s f = Some (Inr (connection_events ford k
      (p_timestamp_us (hd (packets_of k ps))) (map (frame_fields fs vf) (A k)) (map (frame_fields fs vf) (B k))))"
    using connection_flow_events [OF s ps] carries by blast
qed

text \<open>From capture to timeline, TCP: however many connections a capture holds, however their segments
  and the two directions of each interleave, and wherever the senders cut their frames into
  segments, tracking the packets and building the timeline yields exactly one event per complete
  frame of either direction of each connection, with that frame's fields, the direction's endpoints
  and the time of the connection's first packet, sorted by time.\<close>

lemma tcp_capture_timeline:
  assumes "stream_schema s fs vf" and "tcp_capture ps"
    and "\<forall>k \<in> make_key ` set ps. carries_frames s fs (client_packets k ps) (A k) \<and>
      carries_frames s fs (server_packets k ps) (B k)"
    and "iteration_order ord" "event_sorter srt"
  shows "\<exists>t es. track ps = Inr t \<and> build ord ford srt s t = Some (Inr es) \<and>
    sorted (map te_timestamp_us es) \<and>
    mset es = (\<Sum>k \<in> make_key ` set ps. mset (connection_events ford k (p_timestamp_us (hd (packets_of k ps)))
      (map (frame_fields fs vf) (A k)) (map (frame_fields fs vf) (B k))))"
  by (rule tcp_capture_events [OF assms])

definition demo_segment :: "u16 \<Rightarrow> u32 \<Rightarrow> byte list \<Rightarrow> packet" where
  "demo_segment port n pl = (tcp_segment n pl)\<lparr>p_src_ip := ''10.0.0.1'', p_dst_ip := ''10.0.0.2'',
     p_src_port := port, p_dst_port := 9000, p_timestamp_us := 77\<rparr>"

definition demo_key :: "u16 \<Rightarrow> flow_key" where
  "demo_key port = make_key (demo_segment port 0 [])"

text \<open>Two frames, cut inside the first and inside the third, which stays incomplete.\<close>

definition demo_stream :: "byte list" where
  "demo_stream = frame_bytes (vehicle_frame 1 [7, 8]) @ frame_bytes (vehicle_frame 2 []) @
     take 3 (frame_bytes (vehicle_frame 3 []))"

definition demo_frames :: "frame list" where
  "demo_frames = [vehicle_frame 1 [7, 8], vehicle_frame 2 []]"

definition demo_capture :: "packet list" where
  "demo_capture = [demo_segment 4000 0xFFFFFFFE (take 5 demo_stream), demo_segment 4000 3 (drop 5 demo_stream)]"

text \<open>A second connection in between, with one frame.\<close>

definition demo_pair :: "packet list" where
  "demo_pair = [hd demo_capture, demo_segment 4001 50 (frame_bytes (vehicle_frame 9 [])), last demo_capture]"

lemma demo_key_eq:
  "make_key (demo_segment port n pl) = demo_key port"
  "demo_key port = demo_key port' \<longleftrightarrow> port = port'"
  "is_client_side (demo_key port) (demo_segment port n pl)"
  "p_timestamp_us (demo_segment port n pl) = 77" "payload_bytes (demo_segment port n pl) = pl"
  "p_protocol (demo_segment port n pl) = TCP" "length pl < 2 ^ 64 \<Longrightarrow> has_payload (demo_segment port n pl)"
  "p_tcp_seq (demo_segment port n pl) = n"
  by (simp_all add: demo_key_def demo_segment_def tcp_segment_def has_payload_def payload_bytes_def
      is_client_side_def make_key_def normalized_def new_packet_def)

lemma demo_sizes: "length demo_stream = 25"
  by (simp add: demo_stream_def)

lemma demo_directions:
  "client_packets (demo_key 4000) demo_capture = demo_capture" "server_packets (demo_key 4000) demo_capture = []"
  "client_packets (demo_key 4000) demo_pair = demo_capture" "server_packets (demo_key 4000) demo_pair = []"
  "client_packets (demo_key 4001) demo_pair = [demo_segment 4001 50 (frame_bytes (vehicle_frame 9 []))]"
  "server_packets (demo_key 4001) demo_pair = []"
  by (simp_all add: client_packets_def server_packets_def packets_of_def demo_capture_def demo_pair_def demo_key_eq)

lemma demo_captures:
  "tcp_capture demo_capture" "make_key ` set demo_capture = {demo_key 4000}"
  "hd (packets_of (demo_key 4000) demo_capture) = hd demo_capture"
  "tcp_capture demo_pair" "make_key ` set demo_pair = {demo_key 4000, demo_key 4001}"
  "p_timestamp_us (hd demo_capture) = 77"
  "p_timestamp_us (hd (packets_of (demo_key 4000) demo_pair)) = 77"
  "p_timestamp_us (hd (packets_of (demo_key 4001) demo_pair)) = 77"
  by (auto simp: tcp_capture_def demo_capture_def demo_pair_def demo_key_eq demo_sizes packets_of_def)

lemma demo_carries:
  "carries_frames vehicle_tcp_schema (s_fields vehicle_tcp_schema) demo_capture demo_frames"
  "carries_frames vehicle_tcp_schema (s_fields vehicle_tcp_schema) [] []"
  "carries_frames vehicle_tcp_schema (s_fields vehicle_tcp_schema)
     [demo_segment 4001 50 (frame_bytes (vehicle_frame 9 []))] [vehicle_frame 9 []]"
proof -
  have "contiguous 0xFFFFFFFE demo_capture"
    by (simp add: demo_capture_def demo_key_eq demo_stream_def)
  moreover have "concat (map payload_bytes demo_capture) = demo_stream"
    by (simp add: demo_capture_def demo_key_eq)
  ultimately show "carries_frames vehicle_tcp_schema (s_fields vehicle_tcp_schema) demo_capture demo_frames"
    unfolding carries_frames_def
    by (intro conjI exI [of _ "0xFFFFFFFE"] exI [of _ "vehicle_frame 3 []"] exI [of _ 3])
      (simp_all add: vehicle_frame_ok demo_stream_def demo_frames_def)
  show "carries_frames vehicle_tcp_schema (s_fields vehicle_tcp_schema) [] []"
    unfolding carries_frames_def
    by (intro conjI exI [of _ 0] exI [of _ "vehicle_frame 3 []"]) (simp_all add: vehicle_frame_ok)
  show "carries_frames vehicle_tcp_schema (s_fields vehicle_tcp_schema)
     [demo_segment 4001 50 (frame_bytes (vehicle_frame 9 []))] [vehicle_frame 9 []]"
    unfolding carries_frames_def
    by (intro conjI exI [of _ 50] exI [of _ "vehicle_frame 3 []"] exI [of _ 0])
      (simp_all add: vehicle_frame_ok demo_key_eq)
qed

lemma tcp_capture_timeline_instance:
  "\<exists>t es. track demo_pair = Inr t \<and> build rev (\<lambda>m. m) stable_sorter vehicle_tcp_schema t = Some (Inr es) \<and>
    mset es = mset (connection_events (\<lambda>m. m) (demo_key 4000) 77
        (map (frame_fields (s_fields vehicle_tcp_schema) []) demo_frames) []) +
      mset (connection_events (\<lambda>m. m) (demo_key 4001) 77
        (map (frame_fields (s_fields vehicle_tcp_schema) []) [vehicle_frame 9 []]) [])"
  using tcp_capture_timeline [OF vehicle_stream demo_captures(4), where ord = rev and srt = stable_sorter
      and ford = "\<lambda>m. m" and A = "\<lambda>k. if k = demo_key 4000 then demo_frames else [vehicle_frame 9 []]"
      and B = "\<lambda>_. []"]
  by (simp add: demo_captures demo_directions demo_carries demo_key_eq) blast

text \<open>C30: The order of the messages of a TCP connection is not kept: they all carry the time of its first
  packet, and \<open>std::sort\<close> is not stable. For every permutation of the messages of a capture of one connection
  there is a sort that keeps the promises of the standard, under which the timeline shows that permutation.\<close>

theorem tcp_order_unspecified:
  assumes "stream_schema s fs vf" and "tcp_capture ps" "make_key ` set ps = {k}"
    and "carries_frames s fs (client_packets k ps) A" "carries_frames s fs (server_packets k ps) B"
    and "iteration_order ord"
    and "mset es = mset (connection_events ford k (p_timestamp_us (hd (packets_of k ps)))
      (map (frame_fields fs vf) A) (map (frame_fields fs vf) B))"
  shows "\<exists>srt t. event_sorter srt \<and> track ps = Inr t \<and> build ord ford srt s t = Some (Inr es)"
proof -
  let ?ts = "p_timestamp_us (hd (packets_of k ps))"
  let ?ev = "connection_events ford k ?ts (map (frame_fields fs vf) A) (map (frame_fields fs vf) B)"
  define srt where "srt = (\<lambda>lt xs. if lt = event_before \<and> xs = ?ev then es else stable_sorter lt xs)"
  have "\<forall>p \<in> set ps. trackable p" using assms(2) by (simp add: tcp_capture_def trackable_def)
  from track_table [OF this] obtain t where t: "track ps = Inr t" "distinct (map fst t)" "set (map fst t) = {k}"
    "\<forall>(k, f) \<in> set t. run_flow (packets_of k ps) (new_flow k) = Inr f"
    unfolding assms(3) by blast
  then have "length t = 1" using distinct_card [OF t(2)] by simp
  with t(3) obtain f where f: "t = [(k, f)]" by (cases t) auto
  then have "flow_events ford s f = Some (Inr ?ev)"
    using connection_flow_events [OF assms(1,2) _ assms(4,5)] t(4) assms(3) by simp
  moreover have "mset (get_flows ord [(k, f)]) = {#f#}"
    using get_flows_mset [OF assms(6)] by simp
  then have "get_flows ord [(k, f)] = [f]" by simp
  ultimately have "build ord ford srt s t = Some (Inr es)"
    by (simp add: build_def srt_def f)
  moreover have "\<forall>e \<in> set ?ev. te_timestamp_us e = ?ts"
    by (auto simp: connection_events_def Let_def tcp_event_def)
  then have "\<forall>e \<in> set es. te_timestamp_us e = ?ts"
    using assms(7) by (metis set_mset_mset)
  then have "sorted_wrt (\<lambda>a b. \<not> event_before b a) es"
    by (induction es) (auto simp: event_before_def)
  then have "event_sorter srt"
    using assms(7) stable_sorter by (auto simp: event_sorter_def srt_def)
  ultimately show ?thesis using t(1) by blast
qed

theorem tcp_order_unspecified_witness:
  "\<exists>srt t. event_sorter srt \<and> track demo_capture = Inr t \<and>
    build id (\<lambda>m. m) srt vehicle_tcp_schema t = Some (Inr (rev (connection_events (\<lambda>m. m) (demo_key 4000) 77
      (map (frame_fields (s_fields vehicle_tcp_schema) []) demo_frames) [])))"
  using tcp_order_unspecified [OF vehicle_stream demo_captures(1,2), where ord = id and ford = "\<lambda>m. m"
      and A = demo_frames and B = "[]" and es = "rev (connection_events (\<lambda>m. m) (demo_key 4000) 77
        (map (frame_fields (s_fields vehicle_tcp_schema) []) demo_frames) [])"]
  by (simp add: demo_captures demo_directions demo_carries)

end
