(* ===== verification/Timeline_Printer.thy ===== *)
theory Timeline_Printer
  imports Timeline
begin

text \<open>
  \<^verbatim>\<open>ConsoleTimelinePrinter\<close> (\<^verbatim>\<open>src/timeline/ConsoleTimelinePrinter.cpp\<close>): the text it
  writes to standard output.
\<close>

definition newline :: string where
  "newline = [CHR 0x0A]"

text \<open>\<open>MM:SS.mmm\<close>; minutes beyond 99 take more than two characters.\<close>

definition stamp :: "u64 \<Rightarrow> string" where
  "stamp delta_us =
     (let minutes = delta_us div 60000000;
          seconds = (delta_us mod 60000000) div 1000000;
          millis = (delta_us mod 1000000) div 1000
      in pad_left (CHR ''0'') 2 (show_nat (unat minutes)) @ '':'' @
         pad_left (CHR ''0'') 2 (show_nat (unat seconds)) @ ''.'' @
         pad_left (CHR ''0'') 3 (show_nat (unat millis)))"

definition print_event :: "u64 \<Rightarrow> timeline_event \<Rightarrow> string" where
  "print_event base_ts event =
     ''['' @ stamp (te_timestamp_us event - base_ts) @ ''] '' @
     pad_right (CHR '' '') 4 (te_transport event) @ '' '' @
     pad_right (CHR '' '') 30 (te_src event @ '' -> '' @ te_dst event) @ '' '' @
     pad_right (CHR '' '') 16 (te_message_type event) @ '' '' @ te_details event @ newline"

definition print_timeline :: "timeline_event list \<Rightarrow> string" where
  "print_timeline events =
     (case events of
        [] \<Rightarrow> ''No events to display.'' @ newline
      | e # _ \<Rightarrow> concat (map (print_event (te_timestamp_us e)) events))"

section \<open>Reading a stamp back\<close>

text \<open>The milliseconds a stamp stands for.\<close>

definition read_stamp :: "string \<Rightarrow> nat" where
  "read_stamp s =
     (let m = takeWhile (\<lambda>c. c \<noteq> CHR '':'') s; r = drop (Suc (length m)) s
      in 60000 * read_nat m + 1000 * read_nat (take 2 r) + read_nat (drop 3 r))"

text \<open>The stamp at the start of a printed line.\<close>

definition line_stamp :: "string \<Rightarrow> string" where
  "line_stamp l = takeWhile (\<lambda>c. c \<noteq> CHR '']'') (drop 1 l)"

lemma read_nat_zero_pad [simp]: "read_nat (pad_left (CHR ''0'') n s) = read_nat s"
proof -
  have "foldl (\<lambda>a c. 10 * a + (of_char c - 48)) 0 (replicate k (CHR ''0'') @ s) =
      foldl (\<lambda>a c. 10 * a + (of_char c - 48)) (0 :: nat) s" for k
    by (induction k) auto
  then show ?thesis by (simp add: pad_left_def read_nat_def)
qed

lemma pad_left_digits: "c \<in> set (pad_left (CHR ''0'') n (show_nat k)) \<Longrightarrow> is_digit c"
  by (auto simp: pad_left_def is_digit_def split: if_splits dest: show_nat_digits)

lemma show_nat_short: "n < 10 ^ Suc k \<Longrightarrow> length (show_nat n) \<le> Suc k"
proof (induction k arbitrary: n)
  case 0
  then show ?case by (subst show_nat.simps) simp
next
  case (Suc k)
  then have "n div 10 < 10 ^ Suc k" by (simp add: less_mult_imp_div_less mult.commute)
  from Suc.IH [OF this] show ?case by (subst show_nat.simps) simp
qed

lemma takeWhile_append_stop: "(\<And>x. x \<in> set xs \<Longrightarrow> P x) \<Longrightarrow> \<not> P y \<Longrightarrow> takeWhile P (xs @ y # ys) = xs"
  by (induction xs) auto

lemma stamp_fields:
  fixes d :: u64
  shows "unat (d div 60000000) = unat d div 60000000"
    and "unat ((d mod 60000000) div 1000000) = unat d mod 60000000 div 1000000"
    and "unat ((d mod 1000000) div 1000) = unat d mod 1000000 div 1000"
  by (simp_all add: unat_div unat_mod)

lemma read_stamp_parts:
  assumes "b < 60"
  shows "read_stamp (pad_left (CHR ''0'') 2 (show_nat a) @ '':'' @ pad_left (CHR ''0'') 2 (show_nat b) @
    ''.'' @ pad_left (CHR ''0'') 3 (show_nat c)) = 60000 * a + 1000 * b + c"
proof -
  have m: "takeWhile (\<lambda>c. c \<noteq> CHR '':'') (pad_left (CHR ''0'') 2 (show_nat a) @ CHR '':'' # r) =
      pad_left (CHR ''0'') 2 (show_nat a)" for r
  proof (rule takeWhile_append_stop)
    fix x
    assume "x \<in> set (pad_left (CHR ''0'') 2 (show_nat a))"
    then have "is_digit x" by (rule pad_left_digits)
    then show "x \<noteq> CHR '':''" by (auto simp: is_digit_def)
  qed simp
  have "length (show_nat b) \<le> 2" using show_nat_short [of b 1] assms by simp
  then have two: "length (pad_left (CHR ''0'') 2 (show_nat b)) = 2" by simp
  have cut: "take 2 (B @ ''.'' @ C) = B" "drop 3 (B @ ''.'' @ C) = C" if "length B = 2" for B C :: string
    using that by simp_all
  have rest: "drop (Suc (length A)) (A @ '':'' @ R) = R" for A R :: string by simp
  show ?thesis
    unfolding read_stamp_def Let_def m [simplified] append_Cons append_Nil
    using cut [OF two] rest by (simp del: length_pad_left append_eq_append_conv)
qed

lemma div_split: "(n :: nat) div c = k * (n div (k * c)) + n mod (k * c) div c" if "0 < c"
proof -
  have "n = n mod (k * c) + k * (n div (k * c)) * c"
    by (metis mod_mult_div_eq mult.assoc mult.commute)
  then have "n div c = (n mod (k * c) + k * (n div (k * c)) * c) div c" by (rule arg_cong)
  then show ?thesis using that by simp
qed

lemma read_stamp_stamp: "read_stamp (stamp d) = unat d div 1000"
proof -
  let ?n = "unat d"
  have "unat d mod 60000000 div 1000000 < 60"
    by (simp add: less_mult_imp_div_less)
  then have "read_stamp (stamp d) =
      60000 * (?n div 60000000) + 1000 * (?n mod 60000000 div 1000000) + ?n mod 1000000 div 1000"
    unfolding stamp_def Let_def stamp_fields by (rule read_stamp_parts)
  also have "\<dots> = 60000 * (?n div 60000000) + ?n mod 60000000 div 1000"
    using div_split [of 1000 "?n mod 60000000" 1000] by (simp add: mod_mod_cancel)
  also have "\<dots> = ?n div 1000"
    using div_split [of 1000 ?n 60000] by simp
  finally show ?thesis .
qed

lemma stamp_no_bracket: "CHR '']'' \<notin> set (stamp d)"
proof -
  have "CHR '']'' \<notin> set (pad_left (CHR ''0'') n (show_nat k))" for n k
    using pad_left_digits [of "CHR '']''" n k] by (auto simp: is_digit_def)
  then show ?thesis by (auto simp: stamp_def Let_def)
qed

lemma line_stamp_print: "line_stamp (print_event base e) = stamp (te_timestamp_us e - base)"
proof -
  have "takeWhile (\<lambda>c. c \<noteq> CHR '']'') (stamp d @ CHR '']'' # r) = stamp d" for d r
    using stamp_no_bracket [of d] by (intro takeWhile_append_stop) auto
  then show ?thesis by (simp add: line_stamp_def print_event_def)
qed

text \<open>C39: The printed times are right: for events sorted by time the report has one line for each
  event, in order, and the stamp of each line reads back as the whole milliseconds that
  passed since the first event, with no wrap-around, however long the capture.\<close>

theorem printed_stamps:
  assumes "sorted (map te_timestamp_us (e0 # es))"
  shows "\<exists>ls. print_timeline (e0 # es) = concat ls \<and> length ls = length (e0 # es) \<and>
    (\<forall>i < length ls. read_stamp (line_stamp (ls ! i)) =
      (unat (te_timestamp_us ((e0 # es) ! i)) - unat (te_timestamp_us e0)) div 1000)"
proof (intro exI conjI allI impI)
  let ?ls = "map (print_event (te_timestamp_us e0)) (e0 # es)"
  show "print_timeline (e0 # es) = concat ?ls" by (simp add: print_timeline_def)
  show "length ?ls = length (e0 # es)" by simp
  fix i
  assume i: "i < length ?ls"
  let ?t = "te_timestamp_us ((e0 # es) ! i)"
  have "te_timestamp_us e0 \<le> ?t" using assms i by (cases i) auto
  then have "unat (?t - te_timestamp_us e0) = unat ?t - unat (te_timestamp_us e0)"
    by (rule size_sub_nat)
  moreover have "?ls ! i = print_event (te_timestamp_us e0) ((e0 # es) ! i)"
    using i by (subst nth_map) auto
  ultimately show "read_stamp (line_stamp (?ls ! i)) =
      (unat ?t - unat (te_timestamp_us e0)) div 1000"
    by (simp only: line_stamp_print read_stamp_stamp)
qed

definition sample_event :: "u64 \<Rightarrow> timeline_event" where
  "sample_event ts = \<lparr>te_timestamp_us = ts, te_transport = ''UDP'', te_src = ''10.0.0.1:1'',
     te_dst = ''10.0.0.2:2'', te_message_type = ''7'', te_details = ''seq=1 ''\<rparr>"

theorem printed_stamps_witness:
  "\<exists>ls. print_timeline [sample_event 5, sample_event 6000000005] = concat ls \<and> length ls = 2 \<and>
    read_stamp (line_stamp (ls ! 1)) = 6000000"
proof -
  have "sorted (map te_timestamp_us [sample_event 5, sample_event 6000000005])"
    by (simp add: sample_event_def)
  from printed_stamps [OF this] obtain ls where ls:
    "print_timeline [sample_event 5, sample_event 6000000005] = concat ls" "length ls = 2"
    "\<And>i. i < length ls \<Longrightarrow> read_stamp (line_stamp (ls ! i)) =
      (unat (te_timestamp_us ([sample_event 5, sample_event 6000000005] ! i)) -
       unat (te_timestamp_us (sample_event 5))) div 1000"
    by auto
  from ls(2) ls(3) [of 1] ls(1) show ?thesis
    by (intro exI [of _ ls]) (simp add: sample_event_def)
qed

end
