(* ===== verification/Packet_Parser.thy ===== *)
theory Packet_Parser
  imports Packets
begin

text \<open>
  \<^verbatim>\<open>PacketParser\<close> (\<^verbatim>\<open>src/pcap/PacketParser.cpp\<close>): Ethernet, IPv4 and TCP/UDP headers read
  from captured bytes. \<open>data\<close> is the memory that libpcap provides and \<open>len\<close> the length
  the caller passes; they are separate because the reader passes the length on the wire. Every
  \<open>memcpy\<close> is a checked read, and \<open>len - offset\<close> wraps as \<open>size_t\<close> does.
\<close>

section \<open>Headers\<close>

record ethernet_header =
  eth_dst_mac :: "byte list"
  eth_src_mac :: "byte list"
  eth_ethertype :: u16

record ipv4_header =
  ip_version_ihl :: byte
  ip_dscp_ecn :: byte
  ip_total_length :: u16
  ip_identification :: u16
  ip_flags_fragment :: u16
  ip_ttl :: byte
  ip_protocol :: byte
  ip_checksum :: u16
  ip_src_ip :: u32
  ip_dst_ip :: u32

record tcp_header =
  tcp_src_port :: u16
  tcp_dst_port :: u16
  tcp_seq :: u32
  tcp_ack :: u32
  tcp_data_offset_reserved :: byte
  tcp_flags :: byte
  tcp_window :: u16
  tcp_checksum :: u16
  tcp_urgent_pointer :: u16

record udp_header =
  udp_src_port :: u16
  udp_dst_port :: u16
  udp_length :: u16
  udp_checksum :: u16

definition PROTO_TCP :: byte where "PROTO_TCP = 6"

definition PROTO_UDP :: byte where "PROTO_UDP = 17"

text \<open>
  The struct layouts: a member's bytes are taken at its offset, integers in host order. None of
  the structs has padding, so \<open>memcpy\<close> of 14, 20 and 8 bytes fills exactly the members.
\<close>

definition sub_bytes :: "nat \<Rightarrow> nat \<Rightarrow> byte list \<Rightarrow> byte list" where
  "sub_bytes off n bs = take n (drop off bs)"

definition host16 :: "nat \<Rightarrow> byte list \<Rightarrow> u16" where
  "host16 off bs = of_nat (le_val (sub_bytes off 2 bs))"

definition host32 :: "nat \<Rightarrow> byte list \<Rightarrow> u32" where
  "host32 off bs = of_nat (le_val (sub_bytes off 4 bs))"

definition ethernet_of :: "byte list \<Rightarrow> ethernet_header" where
  "ethernet_of bs = \<lparr>eth_dst_mac = sub_bytes 0 6 bs, eth_src_mac = sub_bytes 6 6 bs,
     eth_ethertype = host16 12 bs\<rparr>"

definition ipv4_of :: "byte list \<Rightarrow> ipv4_header" where
  "ipv4_of bs = \<lparr>ip_version_ihl = bs ! 0, ip_dscp_ecn = bs ! 1, ip_total_length = host16 2 bs,
     ip_identification = host16 4 bs, ip_flags_fragment = host16 6 bs, ip_ttl = bs ! 8,
     ip_protocol = bs ! 9, ip_checksum = host16 10 bs, ip_src_ip = host32 12 bs,
     ip_dst_ip = host32 16 bs\<rparr>"

definition tcp_of :: "byte list \<Rightarrow> tcp_header" where
  "tcp_of bs = \<lparr>tcp_src_port = host16 0 bs, tcp_dst_port = host16 2 bs, tcp_seq = host32 4 bs,
     tcp_ack = host32 8 bs, tcp_data_offset_reserved = bs ! 12, tcp_flags = bs ! 13,
     tcp_window = host16 14 bs, tcp_checksum = host16 16 bs, tcp_urgent_pointer = host16 18 bs\<rparr>"

definition udp_of :: "byte list \<Rightarrow> udp_header" where
  "udp_of bs = \<lparr>udp_src_port = host16 0 bs, udp_dst_port = host16 2 bs,
     udp_length = host16 4 bs, udp_checksum = host16 6 bs\<rparr>"

section \<open>The parsers of one header\<close>

text \<open>
  Each takes the data, the position of \<open>data + offset\<close> and the remaining length;
  \<open>None\<close> is the return value false, with the out-parameter unused afterwards.
\<close>

definition parse_ethernet :: "byte list \<Rightarrow> size_t \<Rightarrow> size_t \<Rightarrow> ethernet_header option outcome" where
  "parse_ethernet d off len =
     (if len < 14 then Inr None
      else obind (mem_read d off 14) (\<lambda>bs. Inr (Some (ethernet_of bs))))"

definition parse_ipv4 :: "byte list \<Rightarrow> size_t \<Rightarrow> size_t \<Rightarrow> ipv4_header option outcome" where
  "parse_ipv4 d off len =
     (if len < 20 then Inr None
      else obind (mem_read d off 20) (\<lambda>bs.
        let ip = ipv4_of bs
        in Inr (if drop_bit 4 (ip_version_ihl ip) = 4 then Some ip else None)))"

definition parse_tcp :: "byte list \<Rightarrow> size_t \<Rightarrow> size_t \<Rightarrow> tcp_header option outcome" where
  "parse_tcp d off len =
     (if len < 20 then Inr None
      else obind (mem_read d off 20) (\<lambda>bs. Inr (Some (tcp_of bs))))"

definition parse_udp :: "byte list \<Rightarrow> size_t \<Rightarrow> size_t \<Rightarrow> udp_header option outcome" where
  "parse_udp d off len =
     (if len < 8 then Inr None
      else obind (mem_read d off 8) (\<lambda>bs. Inr (Some (udp_of bs))))"

text \<open>\<open>inet_ntoa\<close> prints the four bytes of its argument in memory order.\<close>

definition dotted :: "byte list \<Rightarrow> string" where
  "dotted bs = concat (map (\<lambda>b. show_nat (unat b) @ ''.'') (butlast bs)) @ show_nat (unat (last bs))"

definition ip_to_string :: "u32 \<Rightarrow> string" where
  "ip_to_string ip = dotted (le_bytes 4 (unat ip))"

section \<open>Parse\<close>

definition ihl_bytes :: "byte \<Rightarrow> size_t" where
  "ihl_bytes version_ihl = ucast (and version_ihl 0x0F) * 4"

definition data_offset_bytes :: "byte \<Rightarrow> size_t" where
  "data_offset_bytes dor = ucast (and (drop_bit 4 dor) 0x0F) * 4"

definition with_payload :: "byte list \<Rightarrow> size_t \<Rightarrow> size_t \<Rightarrow> packet \<Rightarrow> packet option outcome" where
  "with_payload d len off p =
     (if off < len
      then obind (set_payload (Some (drop (unat off) d)) (len - off) p) (\<lambda>p'. Inr (Some p'))
      else Inr (Some p))"

definition parse_transport :: "byte list \<Rightarrow> size_t \<Rightarrow> size_t \<Rightarrow> ipv4_header \<Rightarrow> packet option outcome" where
  "parse_transport d len off ip =
     (let p = new_packet\<lparr>p_src_ip := ip_to_string (ip_src_ip ip),
                         p_dst_ip := ip_to_string (ip_dst_ip ip)\<rparr>
      in if ip_protocol ip = PROTO_TCP then
           obind (parse_tcp d off (len - off)) (\<lambda>r. case r of
             None \<Rightarrow> Inr None
           | Some tcp \<Rightarrow>
               with_payload d len (off + data_offset_bytes (tcp_data_offset_reserved tcp))
                 (p\<lparr>p_protocol := TCP, p_src_port := ntohs (tcp_src_port tcp),
                    p_dst_port := ntohs (tcp_dst_port tcp), p_tcp_seq := ntohl (tcp_seq tcp),
                    p_tcp_ack := ntohl (tcp_ack tcp), p_tcp_flags := tcp_flags tcp\<rparr>))
         else if ip_protocol ip = PROTO_UDP then
           obind (parse_udp d off (len - off)) (\<lambda>r. case r of
             None \<Rightarrow> Inr None
           | Some udp \<Rightarrow>
               with_payload d len (off + 8)
                 (p\<lparr>p_protocol := UDP, p_src_port := ntohs (udp_src_port udp),
                    p_dst_port := ntohs (udp_dst_port udp)\<rparr>))
         else Inr None)"

definition parse :: "byte list option \<Rightarrow> size_t \<Rightarrow> packet option outcome" where
  "parse data len =
     (case data of
        None \<Rightarrow> Inr None
      | Some d \<Rightarrow>
          if len = 0 then Inr None
          else obind (parse_ethernet d 0 (len - 0)) (\<lambda>eth. case eth of
            None \<Rightarrow> Inr None
          | Some _ \<Rightarrow>
              obind (parse_ipv4 d 14 (len - 14)) (\<lambda>r. case r of
                None \<Rightarrow> Inr None
              | Some ip \<Rightarrow> parse_transport d len (14 + ihl_bytes (ip_version_ihl ip)) ip)))"

section \<open>Offsets of the headers\<close>

lemma unat_and_15: "unat (and v 0x0F :: byte) = unat v mod 16"
proof -
  have "(0x0F :: byte) = mask 4" by (simp add: mask_eq_exp_minus_1)
  then have "and v 0x0F = take_bit 4 v" by (simp add: take_bit_eq_mask)
  then show ?thesis by (simp add: take_bit_eq_mod unat_mod_distrib)
qed

lemma unat_ihl_bytes [simp]: "unat (ihl_bytes v) = 4 * (unat v mod 16)"
proof -
  have "unat (ucast (and v 0x0F) :: size_t) = unat v mod 16"
    by (simp add: unsigned_ucast_eq unat_and_15 take_bit_nat_eq_self)
  moreover have "unat v mod 16 < 16" by simp
  ultimately show ?thesis
    by (simp add: ihl_bytes_def unat_word_ariths)
qed

lemma unat_drop_4: "unat (drop_bit 4 (v :: byte)) = unat v div 16"
  by (simp add: unat_div_distrib drop_bit_eq_div)

lemma version_4: "drop_bit 4 (v :: byte) = 4 \<longleftrightarrow> unat v div 16 = 4"
  by (simp add: word_unat_eq_iff unat_drop_4)

lemma unat_data_offset_bytes [simp]: "unat (data_offset_bytes v) = 4 * (unat v div 16 mod 16)"
proof -
  have "unat (ucast (and (drop_bit 4 v) 0x0F) :: size_t) = unat v div 16 mod 16"
    by (simp add: unsigned_ucast_eq unat_and_15 unat_drop_4 take_bit_nat_eq_self)
  moreover have "unat v div 16 mod 16 < 16" by simp
  ultimately show ?thesis
    by (simp add: data_offset_bytes_def unat_word_ariths)
qed

text \<open>The remaining length after an IPv4 header of any size.\<close>

lemma with_payload_safe:
  assumes "length d = unat len" and "length d < 2 ^ 63" and "unat off < 2 ^ 63"
  shows "with_payload d len off p =
    Inr (Some (if unat off < length d then p\<lparr>p_payload := Some (drop (unat off) d)\<rparr> else p))"
  using assms
  by (simp add: with_payload_def set_payload_def mem_read_def size_less_nat size_sub_nat size_le_nat)

lemma parse_tcp_outcome:
  assumes "length d = unat len" and "length d < 2 ^ 63" and "unat off < 2 ^ 62"
  shows "parse_tcp d off (len - off) =
    (if length d < unat off then Inl Out_Of_Bounds
     else if length d - unat off < 20 then Inr None
     else Inr (Some (tcp_of (take 20 (drop (unat off) d)))))"
proof (cases "length d < unat off")
  case True
  then have "\<not> len - off < 20"
    using assms by (simp add: size_less_nat size_sub_wrap)
  with True show ?thesis
    by (simp add: parse_tcp_def mem_read_def)
next
  case False
  then have "unat (len - off) = length d - unat off"
    using assms by (simp add: size_sub_nat size_le_nat)
  with False show ?thesis
    by (auto simp add: parse_tcp_def mem_read_def size_less_nat)
qed

lemma parse_udp_outcome:
  assumes "length d = unat len" and "length d < 2 ^ 63" and "unat off < 2 ^ 62"
  shows "parse_udp d off (len - off) =
    (if length d < unat off then Inl Out_Of_Bounds
     else if length d - unat off < 8 then Inr None
     else Inr (Some (udp_of (take 8 (drop (unat off) d)))))"
proof (cases "length d < unat off")
  case True
  then have "\<not> len - off < 8"
    using assms by (simp add: size_less_nat size_sub_wrap)
  with True show ?thesis
    by (simp add: parse_udp_def mem_read_def)
next
  case False
  then have "unat (len - off) = length d - unat off"
    using assms by (simp add: size_sub_nat size_le_nat)
  with False show ?thesis
    by (auto simp add: parse_udp_def mem_read_def size_less_nat)
qed


lemma ipv4_fields [simp]:
  assumes "34 \<le> length d"
  shows "ip_version_ihl (ipv4_of (take 20 (drop 14 d))) = d ! 14"
    and "ip_protocol (ipv4_of (take 20 (drop 14 d))) = d ! 23"
  using assms by (simp_all add: ipv4_of_def)

lemma parse_headers:
  assumes "length d = unat len" and "length d < 2 ^ 63"
  shows "parse (Some d) len =
    (if length d < 34 \<or> unat (d ! 14) div 16 \<noteq> 4 then Inr None
     else parse_transport d len (14 + ihl_bytes (d ! 14)) (ipv4_of (take 20 (drop 14 d))))"
proof (cases "length d < 14")
  case True
  then show ?thesis
    using assms by (auto simp: parse_def parse_ethernet_def size_less_nat)
next
  case False
  then have len: "unat (len - 14) = length d - 14" and "len \<noteq> 0"
    using assms by (auto simp: size_sub_nat size_le_nat)
  moreover have "parse_ethernet d 0 len = Inr (Some (ethernet_of (take 14 d)))"
    using False assms by (simp add: parse_ethernet_def mem_read_def size_less_nat)
  moreover have "parse_ipv4 d 14 (len - 14) =
      Inr (if length d < 34 \<or> unat (d ! 14) div 16 \<noteq> 4 then None
           else Some (ipv4_of (take 20 (drop 14 d))))"
    using False len by (auto simp: parse_ipv4_def mem_read_def size_less_nat version_4 Let_def)
  ultimately show ?thesis
    by (auto simp: parse_def)
qed

lemma ip_end_nat: "unat (14 + ihl_bytes v) = 14 + 4 * (unat v mod 16)"
proof -
  have "unat v mod 16 < 16" by simp
  then show ?thesis by (subst size_add_nat) auto
qed

lemma ip_end_bound: "unat (14 + ihl_bytes v) \<le> 74"
proof -
  have "unat v mod 16 < 16" by simp
  then show ?thesis by (simp add: ip_end_nat)
qed

lemma with_payload_no_fault:
  assumes "length d = unat len" and "length d < 2 ^ 63" and "unat off < 2 ^ 63"
  shows "with_payload d len off p \<noteq> Inl e" and "with_payload d len off p \<noteq> Inr None"
  using with_payload_safe [OF assms] by auto

lemma header_end_bound:
  assumes "unat off \<le> 74"
  shows "unat (off + data_offset_bytes v) < 2 ^ 63" and "unat (off + 8) < 2 ^ 63"
    and "unat off < 2 ^ 62"
proof -
  have "unat v div 16 mod 16 < 16" by simp
  with assms show "unat (off + data_offset_bytes v) < 2 ^ 63"
    by (subst size_add_nat) auto
  from assms show "unat (off + 8) < 2 ^ 63" "unat off < 2 ^ 62"
    by (auto simp: size_add_nat)
qed

lemma parse_transport_fault_iff:
  assumes d: "length d = unat len" "length d < 2 ^ 63" and off: "unat off \<le> 74"
  shows "parse_transport d len off ip = Inl e \<longleftrightarrow>
    e = Out_Of_Bounds \<and> ip_protocol ip \<in> {PROTO_TCP, PROTO_UDP} \<and> length d < unat off"
  using with_payload_no_fault [OF d header_end_bound(1) [OF off]]
    with_payload_no_fault [OF d header_end_bound(2) [OF off]]
    parse_tcp_outcome [OF d header_end_bound(3) [OF off]]
    parse_udp_outcome [OF d header_end_bound(3) [OF off]]
  by (auto simp: parse_transport_def Let_def obind_eq_Inl split: if_splits option.splits)

lemma parse_fault_iff:
  assumes "length d = unat len" and "length d < 2 ^ 63"
  shows "parse (Some d) len = Inl e \<longleftrightarrow>
    e = Out_Of_Bounds \<and> 34 \<le> length d \<and> unat (d ! 14) div 16 = 4 \<and>
    d ! 23 \<in> {PROTO_TCP, PROTO_UDP} \<and> length d < 14 + 4 * (unat (d ! 14) mod 16)"
  using parse_transport_fault_iff [OF assms ip_end_bound]
  by (auto simp: parse_headers [OF assms] ip_end_nat)

text \<open>Encoders of well-formed frames.\<close>

definition ipv4_bytes :: "byte list \<Rightarrow> byte \<Rightarrow> byte list \<Rightarrow> byte list \<Rightarrow> byte list \<Rightarrow> byte list" where
  "ipv4_bytes misc proto src dst options =
     of_nat (16 * 4 + (5 + length options div 4)) # take 8 misc @ proto # drop 8 misc @
     src @ dst @ options"

text \<open>The names of the flags, which \<^verbatim>\<open>Packet\<close> tests by their values.\<close>

definition FLAG_FIN :: byte where
  "FLAG_FIN = 0x01"

definition FLAG_SYN :: byte where
  "FLAG_SYN = 0x02"

definition FLAG_RST :: byte where
  "FLAG_RST = 0x04"

definition FLAG_PSH :: byte where
  "FLAG_PSH = 0x08"

definition FLAG_ACK :: byte where
  "FLAG_ACK = 0x10"

definition FLAG_URG :: byte where
  "FLAG_URG = 0x20"

lemma flags_agree:
  "is_fin p \<longleftrightarrow> and (p_tcp_flags p) FLAG_FIN \<noteq> 0" "is_syn p \<longleftrightarrow> and (p_tcp_flags p) FLAG_SYN \<noteq> 0"
  "is_rst p \<longleftrightarrow> and (p_tcp_flags p) FLAG_RST \<noteq> 0" "is_ack p \<longleftrightarrow> and (p_tcp_flags p) FLAG_ACK \<noteq> 0"
  by (simp_all add: is_fin_def is_syn_def is_rst_def is_ack_def FLAG_FIN_def FLAG_SYN_def FLAG_RST_def FLAG_ACK_def)

definition tcp_bytes :: "u16 \<Rightarrow> u16 \<Rightarrow> u32 \<Rightarrow> u32 \<Rightarrow> byte \<Rightarrow> byte list \<Rightarrow> byte list \<Rightarrow> byte list" where
  "tcp_bytes sp dp sq ak flags misc options =
     be_bytes 2 (unat sp) @ be_bytes 2 (unat dp) @ be_bytes 4 (unat sq) @ be_bytes 4 (unat ak) @
     of_nat (16 * (5 + length options div 4)) # flags # misc @ options"

definition udp_bytes :: "u16 \<Rightarrow> u16 \<Rightarrow> byte list \<Rightarrow> byte list" where
  "udp_bytes sp dp misc = be_bytes 2 (unat sp) @ be_bytes 2 (unat dp) @ misc"

lemma tcp_of_tcp_bytes:
  fixes sp dp sq ak flags misc options rest
  assumes "length misc = 6"
  defines "h \<equiv> tcp_of (take 20 (tcp_bytes sp dp sq ak flags misc options @ rest))"
  shows "ntohs (tcp_src_port h) = sp" and "ntohs (tcp_dst_port h) = dp"
    and "ntohl (tcp_seq h) = sq" and "ntohl (tcp_ack h) = ak" and "tcp_flags h = flags"
    and "tcp_data_offset_reserved h = of_nat (16 * (5 + length options div 4))"
  using assms(1)
  by (simp_all add: h_def tcp_of_def tcp_bytes_def host16_def host32_def sub_bytes_def nth_append
      nth_Cons')

lemma udp_of_udp_bytes:
  fixes sp dp misc rest
  assumes "length misc = 4"
  defines "h \<equiv> udp_of (take 8 (udp_bytes sp dp misc @ rest))"
  shows "ntohs (udp_src_port h) = sp" and "ntohs (udp_dst_port h) = dp"
  using assms(1)
  by (simp_all add: h_def udp_of_def udp_bytes_def host16_def sub_bytes_def)

lemma ipv4_of_ipv4_bytes:
  fixes misc proto src dst options rest
  assumes "length misc = 10" "length src = 4" "length dst = 4"
  defines "h \<equiv> ipv4_of (take 20 (ipv4_bytes misc proto src dst options @ rest))"
  shows "ip_protocol h = proto" and "ip_to_string (ip_src_ip h) = dotted src"
    and "ip_to_string (ip_dst_ip h) = dotted dst"
proof -
  have src: "le_val src < 2 ^ 32" and dst: "le_val dst < 2 ^ 32"
    using le_val_less [of src] le_val_less [of dst] assms by simp_all
  show "ip_protocol h = proto"
    using assms(1) by (simp add: h_def ipv4_of_def ipv4_bytes_def nth_append nth_Cons')
  show "ip_to_string (ip_src_ip h) = dotted src" "ip_to_string (ip_dst_ip h) = dotted dst"
    using assms(1-3) src dst
    by (simp_all add: h_def ipv4_of_def ipv4_bytes_def host32_def sub_bytes_def ip_to_string_def
        unat_of_nat_less nth_Cons')
qed


definition tcp_frame :: "byte list \<Rightarrow> byte list \<Rightarrow> byte list \<Rightarrow> byte list \<Rightarrow> byte list \<Rightarrow> u16 \<Rightarrow> u16 \<Rightarrow>
    u32 \<Rightarrow> u32 \<Rightarrow> byte \<Rightarrow> byte list \<Rightarrow> byte list \<Rightarrow> byte list \<Rightarrow> byte list" where
  "tcp_frame eth ip_misc src dst ip_opts sp dp sq ak flags tcp_misc tcp_opts pl =
     eth @ ipv4_bytes ip_misc PROTO_TCP src dst ip_opts @
     tcp_bytes sp dp sq ak flags tcp_misc tcp_opts @ pl"

definition udp_frame :: "byte list \<Rightarrow> byte list \<Rightarrow> byte list \<Rightarrow> byte list \<Rightarrow> byte list \<Rightarrow> u16 \<Rightarrow> u16 \<Rightarrow>
    byte list \<Rightarrow> byte list \<Rightarrow> byte list" where
  "udp_frame eth ip_misc src dst ip_opts sp dp udp_misc pl =
     eth @ ipv4_bytes ip_misc PROTO_UDP src dst ip_opts @ udp_bytes sp dp udp_misc @ pl"

lemma options_nibble:
  fixes n :: nat
  assumes "n mod 4 = 0" and "n \<le> 40"
  shows "4 * ((16 * 4 + (5 + n div 4)) mod 256 mod 16) = 20 + n"
    and "(16 * 4 + (5 + n div 4)) mod 256 div 16 = 4"
    and "4 * (16 * (5 + n div 4) mod 256 div 16 mod 16) = 20 + n"
proof -
  define k where "k = n div 4"
  have k: "n = 4 * k" "n div 4 = k" and "k \<le> 10"
    using assms unfolding k_def by presburger+
  have "(16 * 4 + (5 + k)) mod 256 = 16 * 4 + (5 + k)" "16 * (5 + k) mod 256 = 16 * (5 + k)"
    using \<open>k \<le> 10\<close> by simp_all
  moreover have "(16 * 4 + (5 + k)) mod 16 = 5 + k"
    unfolding mod_mult_self4 using \<open>k \<le> 10\<close> by simp
  moreover have "(16 * 4 + (5 + k)) div 16 = 4"
    using \<open>k \<le> 10\<close> by (subst div_mult_self4) simp_all
  moreover have "16 * (5 + k) div 16 mod 16 = 5 + k"
    using \<open>k \<le> 10\<close> by (subst nonzero_mult_div_cancel_left) simp_all
  ultimately show "4 * ((16 * 4 + (5 + n div 4)) mod 256 mod 16) = 20 + n"
    "(16 * 4 + (5 + n div 4)) mod 256 div 16 = 4"
    "4 * (16 * (5 + n div 4) mod 256 div 16 mod 16) = 20 + n"
    unfolding k(2) by (simp_all only: k(1)) simp_all
qed

lemma length_ipv4_bytes:
  "\<lbrakk>length misc = 10; length src = 4; length dst = 4\<rbrakk> \<Longrightarrow>
    length (ipv4_bytes misc proto src dst options) = 20 + length options"
  by (simp add: ipv4_bytes_def)

lemma length_tcp_bytes:
  "length misc = 6 \<Longrightarrow> length (tcp_bytes sp dp sq ak flags misc options) = 20 + length options"
  by (simp add: tcp_bytes_def)

lemma length_udp_bytes: "length misc = 4 \<Longrightarrow> length (udp_bytes sp dp misc) = 8"
  by (simp add: udp_bytes_def)

definition ip_options_ok :: "byte list \<Rightarrow> bool" where
  "ip_options_ok opts \<longleftrightarrow> length opts mod 4 = 0 \<and> length opts \<le> 40"

lemma ipv4_front:
  assumes "length eth = 14" and m: "length misc = 10" "length src = 4" "length dst = 4"
    and o: "ip_options_ok opts"
    and d: "d = eth @ ipv4_bytes misc proto src dst opts @ rest"
  shows "34 \<le> length d" and "unat (d ! 14) div 16 = 4"
    and "unat (14 + ihl_bytes (d ! 14)) = 34 + length opts"
    and "drop (34 + length opts) d = rest"
    and "ip_protocol (ipv4_of (take 20 (drop 14 d))) = proto"
    and "ip_to_string (ip_src_ip (ipv4_of (take 20 (drop 14 d)))) = dotted src"
    and "ip_to_string (ip_dst_ip (ipv4_of (take 20 (drop 14 d)))) = dotted dst"
proof -
  show "34 \<le> length d"
    using assms by (simp add: length_ipv4_bytes)
  have first: "d ! 14 = of_nat (16 * 4 + (5 + length opts div 4))"
    using assms by (simp add: nth_append ipv4_bytes_def)
  note nib = options_nibble [of "length opts"]
  show "unat (d ! 14) div 16 = 4"
    unfolding first unat_of_nat_byte using nib(2) o by (simp add: ip_options_ok_def)
  show "unat (14 + ihl_bytes (d ! 14)) = 34 + length opts"
    unfolding ip_end_nat first unat_of_nat_byte using nib(1) o by (simp add: ip_options_ok_def)
  show "drop (34 + length opts) d = rest"
    using assms by (simp add: length_ipv4_bytes)
  have "drop 14 d = ipv4_bytes misc proto src dst opts @ rest"
    using assms by simp
  then show "ip_protocol (ipv4_of (take 20 (drop 14 d))) = proto"
      "ip_to_string (ip_src_ip (ipv4_of (take 20 (drop 14 d)))) = dotted src"
      "ip_to_string (ip_dst_ip (ipv4_of (take 20 (drop 14 d)))) = dotted dst"
    by (simp_all only: ipv4_of_ipv4_bytes [OF m])
qed

text \<open>
  The packet a well-formed TCP segment stands for: the payload is present only when there are
  payload bytes.
\<close>

definition tcp_packet :: "byte list \<Rightarrow> byte list \<Rightarrow> u16 \<Rightarrow> u16 \<Rightarrow> u32 \<Rightarrow> u32 \<Rightarrow> byte \<Rightarrow> byte list \<Rightarrow> packet" where
  "tcp_packet src dst sp dp sq ak flags pl =
     new_packet\<lparr>p_src_ip := dotted src, p_dst_ip := dotted dst, p_src_port := sp,
       p_dst_port := dp, p_protocol := TCP, p_tcp_seq := sq, p_tcp_ack := ak,
       p_tcp_flags := flags, p_payload := (if pl = [] then None else Some pl)\<rparr>"

definition udp_packet :: "byte list \<Rightarrow> byte list \<Rightarrow> u16 \<Rightarrow> u16 \<Rightarrow> byte list \<Rightarrow> packet" where
  "udp_packet src dst sp dp pl =
     new_packet\<lparr>p_src_ip := dotted src, p_dst_ip := dotted dst, p_src_port := sp,
       p_dst_port := dp, p_protocol := UDP, p_payload := (if pl = [] then None else Some pl)\<rparr>"

lemma parse_tcp_frame:
  assumes "length eth = 14" "length ip_misc = 10" "length src = 4" "length dst = 4"
    and io: "ip_options_ok ip_opts" and to: "ip_options_ok tcp_opts" and tm: "length tcp_misc = 6"
    and d: "d = tcp_frame eth ip_misc src dst ip_opts sp dp sq ak flags tcp_misc tcp_opts pl"
    and L: "length d = unat len" and len: "length d < 2 ^ 63"
  shows "parse (Some d) len = Inr (Some (tcp_packet src dst sp dp sq ak flags pl))"
proof -
  note front = ipv4_front [OF assms(1-4) io d [unfolded tcp_frame_def]]
  define off where "off = 14 + ihl_bytes (d ! 14)"
  define ip where "ip = ipv4_of (take 20 (drop 14 d))"
  define h where "h = tcp_of (take 20 (drop (unat off) d))"
  have off: "unat off \<le> 74" "unat off = 34 + length ip_opts"
    using ip_end_bound [of "d ! 14"] front(3) by (simp_all only: off_def)
  have dl: "length d = unat off + (20 + length tcp_opts + length pl)"
    using assms off by (simp add: tcp_frame_def length_ipv4_bytes length_tcp_bytes)
  have h: "ntohs (tcp_src_port h) = sp" "ntohs (tcp_dst_port h) = dp" "ntohl (tcp_seq h) = sq"
    "ntohl (tcp_ack h) = ak" "tcp_flags h = flags"
    "tcp_data_offset_reserved h = of_nat (16 * (5 + length tcp_opts div 4))"
    unfolding h_def off front(4) by (simp_all only: tcp_of_tcp_bytes [OF tm])
  have dor: "unat (data_offset_bytes (tcp_data_offset_reserved h)) = 20 + length tcp_opts"
    unfolding h unat_data_offset_bytes unat_of_nat_byte
    using options_nibble(3) [of "length tcp_opts"] to by (simp add: ip_options_ok_def)
  have fin: "unat (off + data_offset_bytes (tcp_data_offset_reserved h)) =
      (20 + length tcp_opts) + unat off"
    using off(1) dor to by (subst size_add_nat) (auto simp: ip_options_ok_def)
  have rest: "drop (20 + length tcp_opts + unat off) d = pl"
  proof -
    have "drop (20 + length tcp_opts) (drop (34 + length ip_opts) d) = pl"
      unfolding front(4) by (simp add: length_tcp_bytes tm)
    then show ?thesis using off(2) by (simp add: ac_simps)
  qed
  have "parse (Some d) len = parse_transport d len off ip"
    using front(1,2) by (simp add: parse_headers [OF L len] off_def ip_def)
  then show ?thesis
    using parse_tcp_outcome [OF L len header_end_bound(3) [OF off(1)]]
      with_payload_safe [OF L len header_end_bound(1) [OF off(1)]] dl front(5-7)
    by (simp add: parse_transport_def Let_def h_def [symmetric] fin rest h(1-5) ip_def tcp_packet_def new_packet_def)
qed

lemma parse_udp_frame:
  assumes "length eth = 14" "length ip_misc = 10" "length src = 4" "length dst = 4"
    and io: "ip_options_ok ip_opts" and um: "length udp_misc = 4"
    and d: "d = udp_frame eth ip_misc src dst ip_opts sp dp udp_misc pl"
    and L: "length d = unat len" and len: "length d < 2 ^ 63"
  shows "parse (Some d) len = Inr (Some (udp_packet src dst sp dp pl))"
proof -
  note front = ipv4_front [OF assms(1-4) io d [unfolded udp_frame_def]]
  define off where "off = 14 + ihl_bytes (d ! 14)"
  define ip where "ip = ipv4_of (take 20 (drop 14 d))"
  define h where "h = udp_of (take 8 (drop (unat off) d))"
  have off: "unat off \<le> 74" "unat off = 34 + length ip_opts"
    using ip_end_bound [of "d ! 14"] front(3) by (simp_all only: off_def)
  have dl: "length d = unat off + (8 + length pl)"
    using assms off by (simp add: udp_frame_def length_ipv4_bytes length_udp_bytes)
  have h: "ntohs (udp_src_port h) = sp" "ntohs (udp_dst_port h) = dp"
    unfolding h_def off front(4) by (simp_all only: udp_of_udp_bytes [OF um])
  have fin: "unat (off + 8) = 8 + unat off"
    using off(1) by (subst size_add_nat) auto
  have rest: "drop (8 + unat off) d = pl"
  proof -
    have "drop 8 (drop (34 + length ip_opts) d) = pl"
      unfolding front(4) by (simp add: length_udp_bytes um)
    then show ?thesis using off(2) by (simp add: ac_simps)
  qed
  have neq: "PROTO_UDP \<noteq> PROTO_TCP"
    by (simp add: PROTO_TCP_def PROTO_UDP_def)
  have "parse (Some d) len = parse_transport d len off ip"
    using front(1,2) by (simp add: parse_headers [OF L len] off_def ip_def)
  then show ?thesis
    using parse_udp_outcome [OF L len header_end_bound(3) [OF off(1)]]
      with_payload_safe [OF L len header_end_bound(2) [OF off(1)]] dl front(5-7) neq
    by (simp add: parse_transport_def Let_def h_def [symmetric] fin rest h ip_def udp_packet_def new_packet_def)
qed
section \<open>Results of the parser\<close>

definition frame_packet :: "byte list \<Rightarrow> packet \<Rightarrow> bool" where
  "frame_packet d p \<longleftrightarrow> p_protocol p \<in> {TCP, UDP} \<and> p_timestamp_us p = 0 \<and>
     (\<forall>pl. p_payload p = Some pl \<longrightarrow> pl \<noteq> [] \<and> length pl < 2 ^ 64 \<and> (\<exists>front rest. d = front @ pl @ rest))"

lemma with_payload_shape:
  assumes "with_payload d len off p = Inr (Some q)" and "p_payload p = None"
    and "p_protocol p \<in> {TCP, UDP}" and "p_timestamp_us p = 0"
  shows "frame_packet d q"
proof (cases "off < len")
  case True
  then have pos: "0 < unat (len - off)"
    by (simp add: size_sub_nat word_less_nat_alt word_le_nat_alt)
  then have "0 < len - off"
    by (simp add: word_less_nat_alt)
  with True assms obtain pl where pl: "mem_read (drop (unat off) d) 0 (unat (len - off)) = Inr pl"
      "q = p\<lparr>p_payload := Some pl\<rparr>"
    by (auto simp: with_payload_def set_payload_def outcome_simps)
  then have eq: "pl = take (unat (len - off)) (drop (unat off) d)" and "length pl = unat (len - off)"
    by (auto simp: mem_read_def split: if_splits)
  moreover have "unat (len - off) < 2 ^ LENGTH(64)"
    by (rule unsigned_less)
  moreover have "\<exists>front rest. d = front @ pl @ rest"
    unfolding eq by (metis append_take_drop_id)
  ultimately show ?thesis using pl(2) assms pos by (auto simp: frame_packet_def simp del: drop_drop)
next
  case False
  with assms show ?thesis by (auto simp: with_payload_def frame_packet_def)
qed

lemma parse_transport_shape:
  assumes "parse_transport d len off ip = Inr (Some q)"
  shows "frame_packet d q"
  using assms
  by (auto simp: parse_transport_def Let_def outcome_simps new_packet_def
      intro!: with_payload_shape split: if_splits option.splits)

lemma parse_frame_packet:
  assumes "parse (Some d) len = Inr (Some q)"
  shows "frame_packet d q"
  using assms
  by (auto simp: parse_def outcome_simps intro: parse_transport_shape split: if_splits option.splits)

text \<open>C10: On a completely captured frame the parser reads outside the frame exactly when the IPv4
  header length field points behind its end (and version and protocol pass the tests); no other
  input faults, whatever its length and contents.\<close>

theorem parse_memory_safety:
  assumes "length d = unat len" and "length d < 2 ^ 63"
  shows "parse (Some d) len = Inl e \<longleftrightarrow>
    e = Out_Of_Bounds \<and> 34 \<le> length d \<and> unat (d ! 14) div 16 = 4 \<and>
    d ! 23 \<in> {PROTO_TCP, PROTO_UDP} \<and> length d < 14 + 4 * (unat (d ! 14) mod 16)"
  by (rule parse_fault_iff [OF assms])

text \<open>A 34-byte frame whose IHL is 15 announces a 60-byte header: \<open>len - offset\<close> wraps.\<close>

definition long_ihl_frame :: "byte list" where
  "long_ihl_frame = replicate 14 0 @ [0x4F] @ replicate 8 0 @ [6] @ replicate 10 0"

theorem parse_memory_safety_witness:
  "parse (Some long_ihl_frame) 34 = Inl Out_Of_Bounds"
  by (subst parse_memory_safety)
    (simp_all add: long_ihl_frame_def PROTO_TCP_def nth_append nth_Cons')

text \<open>C11: A well-formed TCP segment, with any IPv4 and TCP options, parses to the packet it
  encodes: dotted addresses, host-order ports, sequence and acknowledgement numbers, flags, and
  the bytes after both headers as payload (a null payload when there are none).\<close>

theorem parse_tcp_roundtrip:
  assumes "length eth = 14" "length ip_misc = 10" "length src = 4" "length dst = 4"
    and "ip_options_ok ip_opts" and "ip_options_ok tcp_opts" and "length tcp_misc = 6"
    and "d = tcp_frame eth ip_misc src dst ip_opts sp dp sq ak flags tcp_misc tcp_opts pl"
    and "length d = unat len" and "length d < 2 ^ 63"
  shows "parse (Some d) len = Inr (Some (tcp_packet src dst sp dp sq ak flags pl))"
  by (rule parse_tcp_frame [OF assms])

definition syn_frame :: "byte list" where
  "syn_frame = tcp_frame (replicate 14 0) (replicate 10 0) [10, 0, 0, 1] [10, 0, 0, 2] []
     12345 9000 99 0 2 (replicate 6 0) [2, 4, 5, 180] []"

theorem parse_tcp_roundtrip_witness:
  "parse (Some syn_frame) 58 =
    Inr (Some (tcp_packet [10, 0, 0, 1] [10, 0, 0, 2] 12345 9000 99 0 2 []))"
  by (rule parse_tcp_roundtrip [OF _ _ _ _ _ _ _ syn_frame_def])
    (simp_all add: ip_options_ok_def syn_frame_def tcp_frame_def length_ipv4_bytes length_tcp_bytes)

text \<open>C12: A well-formed UDP datagram parses to the packet it encodes.\<close>

theorem parse_udp_roundtrip:
  assumes "length eth = 14" "length ip_misc = 10" "length src = 4" "length dst = 4"
    and "ip_options_ok ip_opts" and "length udp_misc = 4"
    and "d = udp_frame eth ip_misc src dst ip_opts sp dp udp_misc pl"
    and "length d = unat len" and "length d < 2 ^ 63"
  shows "parse (Some d) len = Inr (Some (udp_packet src dst sp dp pl))"
  by (rule parse_udp_frame [OF assms])

definition beacon_frame :: "byte list" where
  "beacon_frame = udp_frame (replicate 14 0) (replicate 10 0) [192, 168, 1, 20] [10, 0, 0, 8] []
     35000 9001 (replicate 4 0) [0xCA, 0xFE]"

theorem parse_udp_roundtrip_witness:
  "parse (Some beacon_frame) 44 =
    Inr (Some (udp_packet [192, 168, 1, 20] [10, 0, 0, 8] 35000 9001 [0xCA, 0xFE]))"
  by (rule parse_udp_roundtrip [OF _ _ _ _ _ _ beacon_frame_def])
    (simp_all add: ip_options_ok_def beacon_frame_def udp_frame_def length_ipv4_bytes length_udp_bytes)

text \<open>Whatever the input, a packet the parser returns is a TCP or UDP packet, has no timestamp
  yet, and its payload, when it has one, is a non-empty run of bytes of the frame.\<close>

lemma parse_result_shape:
  assumes "parse (Some d) len = Inr (Some q)"
  shows "p_protocol q \<in> {TCP, UDP} \<and> p_timestamp_us q = 0 \<and>
    (\<forall>pl. p_payload q = Some pl \<longrightarrow> pl \<noteq> [] \<and> (\<exists>front rest. d = front @ pl @ rest))"
  using parse_frame_packet [OF assms] by (auto simp: frame_packet_def)

end
