(* ===== verification/Pcap_Reader.thy ===== *)
theory Pcap_Reader
  imports Packet_Parser Services
begin

text \<open>
  \<^verbatim>\<open>PcapReader\<close> (\<^verbatim>\<open>include/gatewayforge/pcap/PcapReader.h\<close>,
  \<^verbatim>\<open>src/pcap/PcapReader.cpp\<close>). libpcap is the parameter \<open>lib\<close>: what
  \<open>pcap_open_offline\<close> and \<open>pcap_next_ex\<close> return for a handle, which they advance. The
  callback is a step on the state of the caller.
\<close>

record pkthdr =
  h_tv_sec :: int
  h_tv_usec :: int
  h_caplen :: u32
  h_len :: u32

type_synonym capture_record = "pkthdr \<times> byte list"

text \<open>
  \<open>lib_next\<close> yields the return code, what it stored through its two out-parameters (nothing, or
  a header and the captured bytes) and the advanced handle.
\<close>

record 'h pcap_lib =
  lib_open :: "string \<Rightarrow> string + 'h"
  lib_next :: "'h \<Rightarrow> int \<times> capture_record option \<times> 'h"

record 'h reader =
  rd_handle :: "'h option"
  rd_packet_count :: size_t

definition new_reader :: "'h reader" where
  "new_reader = \<lparr>rd_handle = None, rd_packet_count = 0\<rparr>"

text \<open>\<open>Open\<close> returns whether it succeeded, the reader and what it logs.\<close>

definition opened_line :: "string \<Rightarrow> chunk" where
  "opened_line filepath = log_info (''Opened pcap file: '' @ filepath)"

definition reader_open :: "'h pcap_lib \<Rightarrow> string \<Rightarrow> 'h reader \<Rightarrow> bool \<times> 'h reader \<times> chunk list" where
  "reader_open lib filepath r =
     (case lib_open lib filepath of
        Inl errbuf \<Rightarrow> (False, r\<lparr>rd_handle := None\<rparr>, [log_error (''Failed to open pcap file: '' @ errbuf)])
      | Inr h \<Rightarrow> (True, r\<lparr>rd_handle := Some h\<rparr>, [opened_line filepath]))"

text \<open>\<open>Close\<close>, which the destructor calls, returns the handles it passes to \<open>pcap_close\<close>.\<close>

definition reader_close :: "'h reader \<Rightarrow> 'h list \<times> 'h reader" where
  "reader_close r = (case rd_handle r of None \<Rightarrow> ([], r) | Some h \<Rightarrow> ([h], r\<lparr>rd_handle := None\<rparr>))"

definition reader_destroy :: "'h reader \<Rightarrow> 'h list" where
  "reader_destroy r = fst (reader_close r)"

definition reader_is_open :: "'h reader \<Rightarrow> bool" where
  "reader_is_open r \<longleftrightarrow> rd_handle r \<noteq> None"

text \<open>A handle is closed once, by \<open>Close\<close> or by the destructor; one that a second \<open>Open\<close> replaces is not.\<close>

lemma reader_closed: "\<not> reader_is_open new_reader" "\<not> reader_is_open (snd (reader_close r))"
    "reader_destroy (snd (reader_close r)) = []" "rd_handle r = Some h \<Longrightarrow> fst (reader_close r) = [h] \<and> reader_destroy r = [h]"
  by (simp_all add: reader_is_open_def new_reader_def reader_close_def reader_destroy_def split: option.split)

lemma reopened_reader_leaks:
  assumes "lib_open lib f = Inr h'"
  shows "\<exists>lg r'. reader_open lib f r = (True, r', lg) \<and> reader_destroy r' = [h']"
  using assms by (simp add: reader_open_def reader_destroy_def reader_close_def)

section \<open>ForEachPacket\<close>

text \<open>\<open>tv_sec * 1'000'000 + tv_usec\<close>, stored as \<open>uint64_t\<close>.\<close>

definition header_timestamp :: "pkthdr \<Rightarrow> u64" where
  "header_timestamp h = of_int (h_tv_sec h * 1000000 + h_tv_usec h)"

text \<open>
  The variables \<open>header\<close> and \<open>data\<close>: nothing stored yet, pointers to a record, or the pointers of an earlier call,
  which libpcap no longer guarantees to be valid once the next call is made.
\<close>

datatype record_pointers = Unset | Stale | Stored capture_record

definition store_record :: "capture_record option \<Rightarrow> record_pointers \<Rightarrow> record_pointers" where
  "store_record out cur =
     (case out of Some r \<Rightarrow> Stored r | None \<Rightarrow> (case cur of Unset \<Rightarrow> Unset | _ \<Rightarrow> Stale))"

text \<open>
  The loop body. The length is the wire length \<open>header->len\<close>; the bytes present are those
  captured.
\<close>

definition process :: "(packet \<Rightarrow> 's \<Rightarrow> 's outcome) \<Rightarrow> record_pointers \<Rightarrow> 's \<Rightarrow> 's outcome" where
  "process callback cur s =
     (case cur of
        Unset \<Rightarrow> Inl Indeterminate_Read
      | Stale \<Rightarrow> Inl Dead_Object
      | Stored (header, data) \<Rightarrow>
          obind (parse (Some data) (ucast (h_len header))) (\<lambda>r. case r of
            None \<Rightarrow> Inr s
          | Some packet \<Rightarrow> callback (packet\<lparr>p_timestamp_us := header_timestamp header\<rparr>) s))"

text \<open>
  \<open>int ret = pcap_next_ex(...) >= 0\<close> stores the outcome of the comparison: \<open>ret\<close> is 0 or 1,
  and the loop condition is that very value.
\<close>

definition loop_ret :: "int \<Rightarrow> int" where
  "loop_ret code = (if code \<ge> 0 then 1 else 0)"

partial_function (option) read_loop ::
    "'h pcap_lib \<Rightarrow> (packet \<Rightarrow> 's \<Rightarrow> 's outcome) \<Rightarrow> 'h \<Rightarrow> record_pointers \<Rightarrow> size_t \<Rightarrow> 's \<Rightarrow>
     ('h \<times> size_t \<times> 's) run" where
  "read_loop lib callback h cur cnt s =
     (let nxt = lib_next lib h; ret = loop_ret (fst nxt); h1 = snd (snd nxt)
      in if ret = 0 then Some (Inr (h1, cnt, s))
         else let cur1 = store_record (fst (snd nxt)) cur
              in if ret = 0 then read_loop lib callback h1 cur1 cnt s
                 else case process callback cur1 s of
                        Inl e \<Rightarrow> Some (Inl e)
                      | Inr s1 \<Rightarrow> read_loop lib callback h1 cur1 (cnt + 1) s1)"

definition for_each_packet ::
    "'h pcap_lib \<Rightarrow> (packet \<Rightarrow> 's \<Rightarrow> 's outcome) \<Rightarrow> 'h reader \<Rightarrow> 's \<Rightarrow> ('h reader \<times> 's) run" where
  "for_each_packet lib callback r s =
     (case rd_handle r of
        None \<Rightarrow> Some (Inr (r, s))
      | Some h \<Rightarrow>
          rbind (read_loop lib callback h Unset 0 s) (\<lambda>(h', cnt, s').
            Some (Inr (r\<lparr>rd_handle := Some h', rd_packet_count := cnt\<rparr>, s'))))"

section \<open>Reading a savefile\<close>

text \<open>
  The documented behaviour of \<open>pcap_next_ex\<close> on a savefile: code 1 with each record, then a
  negative code.
\<close>

inductive yields :: "'h pcap_lib \<Rightarrow> 'h \<Rightarrow> capture_record list \<Rightarrow> 'h \<Rightarrow> bool" for lib where
  yields_end: "lib_next lib h = (code, out, h') \<Longrightarrow> code < 0 \<Longrightarrow> yields lib h [] h'"
| yields_record: "lib_next lib h = (1, Some r, h1) \<Longrightarrow> yields lib h1 rs h' \<Longrightarrow> yields lib h (r # rs) h'"

inductive_cases yields_ConsE: "yields lib h (r # rs) h'"

definition process_all :: "(packet \<Rightarrow> 's \<Rightarrow> 's outcome) \<Rightarrow> capture_record list \<Rightarrow> 's \<Rightarrow> 's outcome" where
  "process_all callback rs s = ofold (\<lambda>r. process callback (Stored r)) rs s"

lemma process_invalid [simp]: "process callback Unset s = Inl Indeterminate_Read" "process callback Stale s = Inl Dead_Object"
  by (simp_all add: process_def)

lemma store_record_simps [simp]: "store_record (Some r) cur = Stored r" "store_record None Unset = Unset"
    "cur \<noteq> Unset \<Longrightarrow> store_record None cur = Stale"
  by (simp_all add: store_record_def split: record_pointers.split)

lemma read_loop_end:
  "lib_next lib h = (code, out, h') \<Longrightarrow> code < 0 \<Longrightarrow> read_loop lib cb h cur cnt s = Some (Inr (h', cnt, s))"
  by (subst read_loop.simps) (simp add: loop_ret_def)

lemma read_loop_step:
  assumes "lib_next lib h = (code, out, h1)" and "code \<ge> 0"
  shows "read_loop lib cb h cur cnt s =
    (let cur1 = store_record out cur
     in case process cb cur1 s of Inl e \<Rightarrow> Some (Inl e)
        | Inr s1 \<Rightarrow> read_loop lib cb h1 cur1 (cnt + 1) s1)"
  using assms by (subst read_loop.simps) (simp add: loop_ret_def)

lemma read_loop_yields:
  "yields lib h rs h' \<Longrightarrow> read_loop lib cb h cur cnt s =
    Some (obind (process_all cb rs s) (\<lambda>s'. Inr (h', cnt + of_nat (length rs), s')))"
proof (induction arbitrary: cur cnt s rule: yields.induct)
  case (yields_record h r h1 rs h')
  then show ?case
    by (cases "process cb (Stored r) s") (simp_all add: read_loop_step process_all_def ac_simps)
qed (simp add: read_loop_end process_all_def)

text \<open>C28: Reading a savefile always ends and hands every record to the parser, in file order and
  once each: the callback runs on exactly the packets the parser returns, stamped with their
  record's time, and the count is the number of records, parsed or not.\<close>

theorem reader_visits_every_record:
  assumes "rd_handle r = Some h" and "yields lib h rs h'"
  shows "for_each_packet lib callback r s =
    Some (obind (process_all callback rs s) (\<lambda>s'.
      Inr (r\<lparr>rd_handle := Some h', rd_packet_count := of_nat (length rs)\<rparr>, s')))"
  using read_loop_yields [OF assms(2), of callback Unset 0 s] assms(1)
  by (cases "process_all callback rs s") (simp_all add: for_each_packet_def)

text \<open>A savefile as a list of records; the end of file is -2.\<close>

definition file_lib :: "(string \<Rightarrow> capture_record list option) \<Rightarrow> capture_record list pcap_lib" where
  "file_lib fs = \<lparr>lib_open = (\<lambda>f. case fs f of None \<Rightarrow> Inl ''No such file'' | Some rs \<Rightarrow> Inr rs),
     lib_next = (\<lambda>h. case h of [] \<Rightarrow> (- 2, None, []) | r # rs \<Rightarrow> (1, Some r, rs))\<rparr>"

lemma file_lib_yields: "yields (file_lib fs) rs rs []"
proof (induction rs)
  case Nil
  show ?case by (rule yields_end [of _ _ "- 2" None]) (simp_all add: file_lib_def)
next
  case (Cons r rs)
  show ?case by (rule yields_record [OF _ Cons.IH]) (simp add: file_lib_def)
qed

definition beacon_record :: capture_record where
  "beacon_record = (\<lparr>h_tv_sec = 2, h_tv_usec = 5, h_caplen = 44, h_len = 44\<rparr>, beacon_frame)"

definition beacon_packet :: packet where
  "beacon_packet = (udp_packet [192, 168, 1, 20] [10, 0, 0, 8] 35000 9001 [0xCA, 0xFE])\<lparr>p_timestamp_us := 2000005\<rparr>"

lemma process_beacon: "process cb (Stored beacon_record) s = cb beacon_packet s"
proof -
  have "parse (Some beacon_frame) 44 =
      Inr (Some (udp_packet [192, 168, 1, 20] [10, 0, 0, 8] 35000 9001 [0xCA, 0xFE]))"
    by (rule parse_udp_frame [OF _ _ _ _ _ _ beacon_frame_def])
      (simp_all add: ip_options_ok_def beacon_frame_def udp_frame_def length_ipv4_bytes length_udp_bytes)
  then show ?thesis
    by (simp add: process_def beacon_record_def beacon_packet_def header_timestamp_def)
qed

theorem reader_visits_every_record_witness:
  "for_each_packet (file_lib (\<lambda>_. None)) (\<lambda>p ps. Inr (ps @ [p]))
     \<lparr>rd_handle = Some [beacon_record, beacon_record], rd_packet_count = 0\<rparr> [] =
   Some (Inr (\<lparr>rd_handle = Some [], rd_packet_count = 2\<rparr>, [beacon_packet, beacon_packet]))"
  using reader_visits_every_record [where r = "\<lparr>rd_handle = Some [beacon_record, beacon_record], rd_packet_count = 0\<rparr>"
      and callback = "\<lambda>p ps. Inr (ps @ [p])" and s = "[]",
      OF _ file_lib_yields]
  by (simp add: process_all_def process_beacon)

section \<open>A return of 0\<close>

text \<open>
  \<open>pcap_next_ex\<close> returns 0, having stored nothing, when a live capture times out; on the savefiles the
  class opens it does not. The test meant for that case cannot hold, and the loop would go on to
  read through pointers that are not set or no longer valid.
\<close>

lemma zero_return_faults:
  assumes "lib_next lib h = (0, None, h1)"
  shows "read_loop lib callback h cur cnt s = Some (Inl (if cur = Unset then Indeterminate_Read else Dead_Object))"
  using assms by (simp add: read_loop_step Let_def)

section \<open>Snapped records\<close>

text \<open>Reading a shorter object either faults or reads the same.\<close>

definition cut_of :: "'a outcome \<Rightarrow> 'a outcome \<Rightarrow> bool" where
  "cut_of m m' \<longleftrightarrow> m = Inl Out_Of_Bounds \<or> m = m'"

lemma cut_of_refl [simp]: "cut_of m m"
  by (simp add: cut_of_def)

lemma cut_of_bind:
  "cut_of m m' \<Longrightarrow> (\<And>x. m' = Inr x \<Longrightarrow> cut_of (k x) (k' x)) \<Longrightarrow> cut_of (obind m k) (obind m' k')"
  by (cases m') (auto simp: cut_of_def)

lemma mem_read_cut: "cut_of (mem_read d off n) (mem_read (d @ x) off n)"
  by (auto simp: cut_of_def mem_read_def)

lemma with_payload_cut: "cut_of (with_payload d len off p) (with_payload (d @ x) len off p)"
proof -
  have "cut_of (mem_read (drop (unat off) d) 0 n) (mem_read (drop (unat off) (d @ x)) 0 n)" for n
    using mem_read_cut [of "drop (unat off) d" 0 n "drop (unat off - length d) x"] by simp
  then show ?thesis by (auto simp: with_payload_def set_payload_def intro!: cut_of_bind)
qed

lemma parse_cut: "cut_of (parse (Some d) len) (parse (Some (d @ x)) len)"
proof -
  have tp: "cut_of (parse_transport d len off ip) (parse_transport (d @ x) len off ip)" for off ip
    by (auto simp: parse_transport_def Let_def parse_tcp_def parse_udp_def
        intro!: cut_of_bind mem_read_cut with_payload_cut split: option.split)
  show ?thesis
    by (auto simp: parse_def parse_ethernet_def parse_ipv4_def Let_def
        intro!: cut_of_bind mem_read_cut tp split: option.split)
qed

definition complete :: "byte list \<Rightarrow> size_t \<Rightarrow> packet \<Rightarrow> bool" where
  "complete d len q \<longleftrightarrow> p_payload q = None \<or> unat len \<le> length d"

lemma with_payload_complete:
  assumes "with_payload d len off p = Inr (Some q)" and "p_payload p = None"
  shows "complete d len q"
proof (cases "off < len")
  case True
  then have pos: "unat (len - off) = unat len - unat off" "unat off < unat len"
    by (simp_all add: size_sub_nat word_less_nat_alt word_le_nat_alt)
  then have "0 < len - off" by (simp add: word_less_nat_alt)
  with assms(1) True have "\<exists>bs. mem_read (drop (unat off) d) 0 (unat (len - off)) = Inr bs"
    by (auto simp: with_payload_def set_payload_def outcome_simps)
  then show ?thesis using pos by (auto simp: mem_read_def complete_def split: if_splits)
qed (use assms in \<open>auto simp: with_payload_def complete_def\<close>)

lemma parse_transport_complete: "parse_transport d len off ip = Inr (Some q) \<Longrightarrow> complete d len q"
  by (auto simp: parse_transport_def Let_def outcome_simps new_packet_def
      intro!: with_payload_complete split: if_splits option.splits)

lemma parse_complete: "parse (Some d) len = Inr (Some q) \<Longrightarrow> complete d len q"
  by (auto simp: parse_def outcome_simps intro: parse_transport_complete split: if_splits option.splits)

text \<open>C29: The reader trusts the wire length: a record whose payload the capture cut short (captured
  bytes fewer than \<open>header->len\<close>) makes the parser read past the captured bytes, although the
  complete frame parses to a packet with a payload.\<close>

theorem snapped_record_is_overread:
  assumes "parse (Some (d @ x)) (ucast (h_len hdr)) = Inr (Some q)" "p_payload q \<noteq> None"
    and "length d < unat (h_len hdr)"
  shows "process callback (Stored (hdr, d)) s = Inl Out_Of_Bounds"
proof -
  have "unat (h_len hdr) < 2 ^ LENGTH(32)" by (rule unsigned_less)
  then have wide [simp]: "unat (ucast (h_len hdr) :: size_t) = unat (h_len hdr)"
    by (simp add: unsigned_ucast_eq take_bit_nat_eq_self)
  have "parse (Some d) (ucast (h_len hdr)) \<noteq> Inr (Some q)"
    using parse_complete [of d "ucast (h_len hdr)" q] assms(2,3) by (auto simp: complete_def)
  then have "parse (Some d) (ucast (h_len hdr)) = Inl Out_Of_Bounds"
    using parse_cut [of d "ucast (h_len hdr)" x] assms(1) by (auto simp: cut_of_def)
  then show ?thesis by (simp add: process_def)
qed

theorem snapped_record_is_overread_witness:
  "process (\<lambda>p ps. Inr (ps @ [p])) (Stored (\<lparr>h_tv_sec = 2, h_tv_usec = 5, h_caplen = 43, h_len = 44\<rparr>,
     butlast beacon_frame)) [] = Inl Out_Of_Bounds"
proof -
  have frame: "butlast beacon_frame @ [last beacon_frame] = beacon_frame"
    by (rule append_butlast_last_id) (simp add: beacon_frame_def udp_frame_def)
  have "parse (Some beacon_frame) 44 =
      Inr (Some (udp_packet [192, 168, 1, 20] [10, 0, 0, 8] 35000 9001 [0xCA, 0xFE]))"
    by (rule parse_udp_frame [OF _ _ _ _ _ _ beacon_frame_def])
      (simp_all add: ip_options_ok_def beacon_frame_def udp_frame_def length_ipv4_bytes length_udp_bytes)
  moreover have "length beacon_frame = 44"
    by (simp add: beacon_frame_def udp_frame_def length_ipv4_bytes length_udp_bytes)
  moreover have "(ucast (44 :: u32) :: size_t) = 44" by simp
  ultimately show ?thesis
    using snapped_record_is_overread [where d = "butlast beacon_frame" and x = "[last beacon_frame]"
        and hdr = "\<lparr>h_tv_sec = 2, h_tv_usec = 5, h_caplen = 43, h_len = 44\<rparr>"
        and q = "udp_packet [192, 168, 1, 20] [10, 0, 0, 8] 35000 9001 [0xCA, 0xFE]"
        and callback = "\<lambda>p ps. Inr (ps @ [p])" and s = "[] :: packet list"]
    by (simp add: frame) (simp add: udp_packet_def)
qed

end
