(* ===== verification/Replay.thy ===== *)
theory Replay
  imports Pcap_Reader Services Tcp_Reassembler "HOL-Library.Sublist"
begin

text \<open>
  The replay engine (\<^verbatim>\<open>include/gatewayforge/replay\<close>, \<^verbatim>\<open>src/replay\<close>): the two senders
  behind the abstract class \<^verbatim>\<open>Replayer\<close>, which is the locale \<open>replayer_class\<close>, and the
  engine that paces a capture and sends it. The sockets, the clock and the arithmetic on
  \<open>double\<close> are parameters.
\<close>

record sockaddr =
  sa_port :: u16
  sa_addr :: u32

text \<open>
  The operating system: every call returns its result and the next state of the world.
  \<open>inet_pton\<close> stores an address or nothing; \<open>net_clock_ns\<close> is the clock, \<open>net_errno\<close> the text
  \<open>strerror(errno)\<close>.
\<close>

record 'w net =
  net_errno :: "'w \<Rightarrow> string"
  net_socket :: "bool \<Rightarrow> 'w \<Rightarrow> int \<times> 'w"
  net_connect :: "int \<Rightarrow> sockaddr \<Rightarrow> 'w \<Rightarrow> int \<times> 'w"
  net_send :: "int \<Rightarrow> byte list \<Rightarrow> 'w \<Rightarrow> int \<times> 'w"
  net_sendto :: "int \<Rightarrow> byte list \<Rightarrow> sockaddr \<Rightarrow> 'w \<Rightarrow> int \<times> 'w"
  net_close :: "int \<Rightarrow> 'w \<Rightarrow> 'w"
  net_pton :: "string \<Rightarrow> u32 option"
  net_clock_ns :: "'w \<Rightarrow> int"
  net_sleep_us :: "u64 \<Rightarrow> 'w \<Rightarrow> 'w"

definition net_now_ns :: "'w net \<Rightarrow> 'w \<Rightarrow> u64" where
  "net_now_ns net w = time_now_ns (net_clock_ns net w)"

section \<open>The senders\<close>

text \<open>The zeroed address with port and, if \<open>inet_pton\<close> accepted the host, the address set.\<close>

definition make_addr :: "'w net \<Rightarrow> string \<Rightarrow> u16 \<Rightarrow> sockaddr" where
  "make_addr net host port =
     \<lparr>sa_port = port, sa_addr = (case net_pton net host of None \<Rightarrow> 0 | Some a \<Rightarrow> a)\<rparr>"

record tcp_replayer =
  tr_sock :: int
  tr_connected :: bool

text \<open>A constructor returns the object, what it logs, and the world.\<close>

definition target_text :: "string \<Rightarrow> u16 \<Rightarrow> string" where
  "target_text host port = host @ '':'' @ show_nat (unat port)"

definition new_tcp_replayer :: "'w net \<Rightarrow> string \<Rightarrow> u16 \<Rightarrow> 'w \<Rightarrow> tcp_replayer \<times> chunk list \<times> 'w" where
  "new_tcp_replayer net host port w =
     (let (sock, w1) = net_socket net True w
      in if sock < 0
         then (\<lparr>tr_sock = sock, tr_connected = False\<rparr>,
               [log_error (''Failed to create TCP socket: '' @ net_errno net w1)], w1)
         else let (r, w2) = net_connect net sock (make_addr net host port) w1
              in if r < 0
                 then (\<lparr>tr_sock = - 1, tr_connected = False\<rparr>,
                       [log_error (''Failed to connect to '' @ target_text host port @ '': '' @ net_errno net w2)],
                       net_close net sock w2)
                 else (\<lparr>tr_sock = sock, tr_connected = True\<rparr>,
                       [log_info (''TCP connected to '' @ target_text host port)], w2))"

definition destroy_tcp_replayer :: "'w net \<Rightarrow> tcp_replayer \<Rightarrow> 'w \<Rightarrow> 'w" where
  "destroy_tcp_replayer net r w = (if tr_sock r \<ge> 0 then net_close net (tr_sock r) w else w)"

definition tcp_send :: "'w net \<Rightarrow> tcp_replayer \<Rightarrow> packet \<Rightarrow> 'w \<Rightarrow> (bool \<times> 'w) outcome" where
  "tcp_send net r p w =
     (if \<not> tr_connected r then Inr (False, w)
      else obind (payload p) (\<lambda>data. obind (payload_size p) (\<lambda>n.
        let (sent, w') = net_send net (tr_sock r) data w
        in Inr (sent = sint n, w'))))"

record udp_replayer =
  ur_sock :: int
  ur_host :: string
  ur_port :: u16

definition new_udp_replayer :: "'w net \<Rightarrow> string \<Rightarrow> u16 \<Rightarrow> 'w \<Rightarrow> udp_replayer \<times> chunk list \<times> 'w" where
  "new_udp_replayer net host port w =
     (let (sock, w1) = net_socket net False w
      in (\<lparr>ur_sock = sock, ur_host = host, ur_port = port\<rparr>,
          if sock < 0 then [log_error (''Failed to create UDP socket: '' @ net_errno net w1)] else [], w1))"

definition destroy_udp_replayer :: "'w net \<Rightarrow> udp_replayer \<Rightarrow> 'w \<Rightarrow> 'w" where
  "destroy_udp_replayer net r w = (if ur_sock r \<ge> 0 then net_close net (ur_sock r) w else w)"

definition udp_send :: "'w net \<Rightarrow> udp_replayer \<Rightarrow> packet \<Rightarrow> 'w \<Rightarrow> (bool \<times> 'w) outcome" where
  "udp_send net r p w =
     (if ur_sock r < 0 then Inr (False, w)
      else obind (payload p) (\<lambda>data. obind (payload_size p) (\<lambda>n.
        let (sent, w') = net_sendto net (ur_sock r) data (make_addr net (ur_host r) (ur_port r)) w
        in Inr (sent = sint n, w'))))"

datatype replayer = Tcp_Replayer tcp_replayer | Udp_Replayer udp_replayer

primrec replayer_send :: "'w net \<Rightarrow> replayer \<Rightarrow> packet \<Rightarrow> 'w \<Rightarrow> (bool \<times> 'w) outcome" where
  "replayer_send net (Tcp_Replayer r) p w = tcp_send net r p w"
| "replayer_send net (Udp_Replayer r) p w = udp_send net r p w"

section \<open>The engine\<close>

record 'd replay_options =
  ro_pcap_path :: string
  ro_target_host :: string
  ro_target_port :: u16
  ro_transport :: string
  ro_speed :: 'd
  ro_randomize_source_port :: bool

text \<open>
  What the callback of \<open>Run\<close> works on: the local \<open>base_ts\<close>, the member \<open>sent_count_\<close>, the
  function-local static \<open>start_us\<close> (\<open>None\<close> before its first use in the process) and the world.
\<close>

record 'w engine_state =
  en_base_ts :: u64
  en_sent_count :: size_t
  en_start_us :: "u64 option"
  en_world :: 'w

text \<open>
  \<open>scale\<close> is \<open>static_cast<uint64_t>(elapsed_us / speed)\<close>, which is undefined when the quotient, truncated, is
  not a \<open>uint64_t\<close>: for a speed of 0 or below, and for quotients from \<open>2 ^ 64\<close> on.
\<close>

text \<open>
  \<open>sleep_for(microseconds(us))\<close>: the count is signed, so that a difference of \<open>2 ^ 63\<close> or more is a
  negative duration, which does not sleep.
\<close>

definition sleep_for :: "'w net \<Rightarrow> u64 \<Rightarrow> 'w \<Rightarrow> 'w" where
  "sleep_for net us w = (if sint us > 0 then net_sleep_us net us w else w)"

definition engine_step ::
    "'w net \<Rightarrow> (packet \<Rightarrow> 'w \<Rightarrow> (bool \<times> 'w) outcome) \<Rightarrow> (u64 \<Rightarrow> u64 outcome) \<Rightarrow> packet \<Rightarrow> 'w engine_state \<Rightarrow>
     'w engine_state outcome" where
  "engine_step net send scale p st =
     obind (payload_size p) (\<lambda>n.
       if n = 0 then Inr st
       else if p_protocol p \<noteq> TCP \<and> p_protocol p \<noteq> UDP then Inr st
       else
         let base_ts = (if en_base_ts st = 0 then p_timestamp_us p else en_base_ts st);
             elapsed_us = p_timestamp_us p - base_ts
         in obind (scale elapsed_us) (\<lambda>wait_us.
         let now = time_now_us (net_now_ns net (en_world st));
             start_us = (case en_start_us st of None \<Rightarrow> now | Some t \<Rightarrow> t);
             target_us = start_us + wait_us;
             w1 = (if now < target_us then sleep_for net (target_us - now) (en_world st) else en_world st)
         in obind (send p w1) (\<lambda>(sent, w2).
              Inr \<lparr>en_base_ts = base_ts,
                   en_sent_count = (if sent then en_sent_count st + 1 else en_sent_count st),
                   en_start_us = Some start_us, en_world = w2\<rparr>)))"

record 'd engine =
  eg_options :: "'d replay_options"
  eg_replayer :: replayer
  eg_sent_count :: size_t

definition new_engine :: "'w net \<Rightarrow> 'd replay_options \<Rightarrow> 'w \<Rightarrow> 'd engine \<times> chunk list \<times> 'w" where
  "new_engine net opts w =
     (if ro_transport opts = ''tcp''
      then let (r, log, w') = new_tcp_replayer net (ro_target_host opts) (ro_target_port opts) w
           in (\<lparr>eg_options = opts, eg_replayer = Tcp_Replayer r, eg_sent_count = 0\<rparr>, log, w')
      else let (r, log, w') = new_udp_replayer net (ro_target_host opts) (ro_target_port opts) w
           in (\<lparr>eg_options = opts, eg_replayer = Udp_Replayer r, eg_sent_count = 0\<rparr>, log, w'))"

definition sent_count :: "'d engine \<Rightarrow> size_t" where
  [simp]: "sent_count e = eg_sent_count e"

primrec destroy_replayer :: "'w net \<Rightarrow> replayer \<Rightarrow> 'w \<Rightarrow> 'w" where
  "destroy_replayer net (Tcp_Replayer r) w = destroy_tcp_replayer net r w"
| "destroy_replayer net (Udp_Replayer r) w = destroy_udp_replayer net r w"

text \<open>
  \<open>Run\<close>, with the static and the world as arguments; \<open>scale_by e v\<close> is the scaling by the speed
  and \<open>show_speed v\<close> its text. What it logs is returned beside the rest.
\<close>

definition starting_line :: "('d \<Rightarrow> string) \<Rightarrow> 'd replay_options \<Rightarrow> chunk" where
  "starting_line show_speed opts = log_info (''Starting replay: '' @ ro_pcap_path opts @ '' -> '' @
     target_text (ro_target_host opts) (ro_target_port opts) @ '' ('' @ show_speed (ro_speed opts) @ ''x speed)'')"

definition complete_line :: "size_t \<Rightarrow> chunk" where
  "complete_line n = log_info (''Replay complete. Sent '' @ show_nat (unat n) @ '' packets.'')"

definition engine_run ::
    "'h pcap_lib \<Rightarrow> 'w net \<Rightarrow> (u64 \<Rightarrow> 'd \<Rightarrow> u64 outcome) \<Rightarrow> ('d \<Rightarrow> string) \<Rightarrow> 'd engine \<Rightarrow> u64 option \<Rightarrow> 'w \<Rightarrow>
     ('d engine \<times> chunk list \<times> u64 option \<times> 'w) run" where
  "engine_run lib net scale_by show_speed eg start w =
     (let (opened, r, log) = reader_open lib (ro_pcap_path (eg_options eg)) new_reader
      in if \<not> opened
         then Some (Inr (eg, log @ [log_error (''Failed to open pcap: '' @ ro_pcap_path (eg_options eg))], start, w))
         else rbind (for_each_packet lib
                (engine_step net (replayer_send net (eg_replayer eg)) (\<lambda>e. scale_by e (ro_speed (eg_options eg))))
                r \<lparr>en_base_ts = 0, en_sent_count = eg_sent_count eg, en_start_us = start, en_world = w\<rparr>)
              (\<lambda>(r', st). Some (Inr (eg\<lparr>eg_sent_count := en_sent_count st\<rparr>,
                log @ [starting_line show_speed (eg_options eg), complete_line (en_sent_count st)],
                en_start_us st, en_world st))))"

section \<open>The class Replayer\<close>

text \<open>
  The documented behaviour of the sockets: a send reports at most the length of its data, and what
  reached the wire is that many bytes, nothing when it fails; the other calls send nothing.
\<close>

definition net_ok :: "'w net \<Rightarrow> ('w \<Rightarrow> byte list list) \<Rightarrow> bool" where
  "net_ok net wire \<longleftrightarrow>
     (\<forall>s bs w n w'. net_send net s bs w = (n, w') \<longrightarrow> n \<le> int (length bs) \<and>
        wire w' = wire w @ (if n > 0 then [take (nat n) bs] else [])) \<and>
     (\<forall>s bs a w n w'. net_sendto net s bs a w = (n, w') \<longrightarrow> n \<le> int (length bs) \<and>
        wire w' = wire w @ (if n > 0 then [take (nat n) bs] else [])) \<and>
     (\<forall>t w. wire (net_sleep_us net t w) = wire w)"

definition replayable :: "packet \<Rightarrow> bool" where
  "replayable p \<longleftrightarrow> p_protocol p \<in> {TCP, UDP} \<and> payload_bytes p \<noteq> []"

definition sendable :: "packet \<Rightarrow> bool" where
  "sendable p \<longleftrightarrow> has_payload p \<and> length (payload_bytes p) < 2 ^ 63"

text \<open>The parts of a step that sends: the instant aimed at, and the world after waiting for it.\<close>

definition base_after :: "u64 \<Rightarrow> packet \<Rightarrow> u64" where
  "base_after base p = (if base = 0 then p_timestamp_us p else base)"

definition next_base :: "packet \<Rightarrow> 'w engine_state \<Rightarrow> u64" where
  "next_base p st = base_after (en_base_ts st) p"

definition next_start :: "'w net \<Rightarrow> 'w engine_state \<Rightarrow> u64" where
  "next_start net st =
     (case en_start_us st of None \<Rightarrow> time_now_us (net_now_ns net (en_world st)) | Some t \<Rightarrow> t)"

definition wait_of :: "(u64 \<Rightarrow> u64 outcome) \<Rightarrow> u64 \<Rightarrow> u64" where
  "wait_of scale e = (case scale e of Inl _ \<Rightarrow> 0 | Inr wait \<Rightarrow> wait)"

definition send_target :: "'w net \<Rightarrow> (u64 \<Rightarrow> u64 outcome) \<Rightarrow> packet \<Rightarrow> 'w engine_state \<Rightarrow> u64" where
  "send_target net scale p st = next_start net st + wait_of scale (p_timestamp_us p - next_base p st)"

definition waited :: "'w net \<Rightarrow> (u64 \<Rightarrow> u64 outcome) \<Rightarrow> packet \<Rightarrow> 'w engine_state \<Rightarrow> 'w" where
  "waited net scale p st =
     (let now = time_now_us (net_now_ns net (en_world st)); target = send_target net scale p st
      in if now < target then sleep_for net (target - now) (en_world st) else en_world st)"

text \<open>The quotient of a packet, and those of a run, can be converted; \<open>base\<close> is the base time before.\<close>

definition can_wait :: "(u64 \<Rightarrow> u64 outcome) \<Rightarrow> u64 \<Rightarrow> packet \<Rightarrow> bool" where
  "can_wait scale base p \<longleftrightarrow> \<not> isl (scale (p_timestamp_us p - base_after base p))"

primrec convertible :: "(u64 \<Rightarrow> u64 outcome) \<Rightarrow> u64 \<Rightarrow> packet list \<Rightarrow> bool" where
  "convertible scale base [] \<longleftrightarrow> True"
| "convertible scale base (p # ps) \<longleftrightarrow>
     (if replayable p
      then can_wait scale base p \<and> convertible scale (base_after base p) ps
      else convertible scale base ps)"

lemma convertible_append: "convertible scale base (ps @ qs) \<Longrightarrow> convertible scale base ps"
  by (induction ps arbitrary: base) (auto split: if_splits)

lemma wait_of_Inr [simp]: "scale e = Inr t \<Longrightarrow> wait_of scale e = t"
  by (simp add: wait_of_def)

lemma convertible_total [simp]: "convertible (\<lambda>e. Inr (f e)) base ps"
  by (induction ps arbitrary: base) (auto simp: can_wait_def)

lemma replayable_size:
  assumes "sendable p" and "replayable p"
  shows "has_payload p" "(of_nat (length (payload_bytes p)) :: size_t) \<noteq> 0"
    "p_protocol p = TCP \<or> p_protocol p = UDP"
  using assms has_payload_bound [of p] by (auto simp: sendable_def replayable_def size_of_nat_0)

lemma engine_step_send:
  assumes "sendable p" and "replayable p" and "can_wait scale (en_base_ts st) p"
  shows "engine_step net send scale p st = obind (send p (waited net scale p st)) (\<lambda>(b, w2).
    Inr \<lparr>en_base_ts = next_base p st,
      en_sent_count = (if b then en_sent_count st + 1 else en_sent_count st),
      en_start_us = Some (next_start net st), en_world = w2\<rparr>)"
proof -
  obtain t where "scale (p_timestamp_us p - (if en_base_ts st = 0 then p_timestamp_us p else en_base_ts st)) = Inr t"
    using assms(3) by (auto simp: isl_def can_wait_def base_after_def) (metis obj_sumE)
  then show ?thesis using replayable_size [OF assms(1,2)]
    by (elim disjE)
      (simp_all add: engine_step_def Let_def waited_def send_target_def next_start_def next_base_def base_after_def)
qed

lemma step_unconverted:
  assumes "sendable p" "replayable p" "\<not> can_wait scale (en_base_ts st) p"
    and "\<And>e x. scale e = Inl x \<Longrightarrow> x = Bad_Conversion"
  shows "engine_step net send scale p st = Inl Bad_Conversion"
proof -
  obtain x where "scale (p_timestamp_us p - (if en_base_ts st = 0 then p_timestamp_us p else en_base_ts st)) = Inl x"
    using assms(3) by (auto simp: isl_def can_wait_def base_after_def)
  moreover from this have "x = Bad_Conversion" by (rule assms(4))
  ultimately show ?thesis using replayable_size [OF assms(1,2)]
    by (elim disjE) (simp_all add: engine_step_def Let_def)
qed

text \<open>
  A packet stamped before the first one sent: the difference of the times wraps around, to what is
  close to \<open>2 ^ 64\<close>. \<open>bound\<close> is where the quotients leave the range of the conversion.
\<close>

lemma older_packet_wraps:
  assumes "p_timestamp_us p < p_timestamp_us q"
  shows "unat (p_timestamp_us p - p_timestamp_us q) = 2 ^ 64 - (unat (p_timestamp_us q) - unat (p_timestamp_us p))"
  using assms by (simp add: unat_sub_if' word_less_nat_alt word_le_nat_alt)

lemma convertible_from:
  assumes "base \<noteq> 0"
  shows "convertible scale base ps \<longleftrightarrow> (\<forall>p \<in> set (filter replayable ps). can_wait scale base p)"
  using assms by (induction ps) (auto simp: base_after_def)

lemma convertible_filter: "convertible scale base ps \<longleftrightarrow> convertible scale base (filter replayable ps)"
  by (induction ps arbitrary: base) auto

lemma older_packet_unconverted:
  assumes "filter replayable ps = q # qs" "p \<in> set qs" "p_timestamp_us p < p_timestamp_us q"
    and "\<And>e. bound \<le> unat e \<Longrightarrow> isl (scale e)"
    and "bound \<le> 2 ^ 64 - (unat (p_timestamp_us q) - unat (p_timestamp_us p))"
  shows "\<not> convertible scale 0 ps"
proof -
  have "set (q # qs) \<subseteq> Collect replayable" unfolding assms(1) [symmetric] by auto
  then have p: "replayable q" "replayable p" using assms(2) by auto
  have base: "p_timestamp_us q \<noteq> 0" using assms(3) by auto
  have "\<not> can_wait scale (p_timestamp_us q) p"
    using assms(4) [of "p_timestamp_us p - p_timestamp_us q"] assms(5) older_packet_wraps [OF assms(3)] base
    by (simp add: can_wait_def base_after_def)
  then have "\<not> convertible scale (p_timestamp_us q) qs"
    using convertible_from [OF base] assms(2) p(2) by auto
  then show ?thesis
    unfolding convertible_filter [of _ 0 ps] assms(1) using p(1) by (simp add: base_after_def)
qed

text \<open>The contract of \<open>Send\<close>: it answers, and says true exactly when the whole payload went out.\<close>

locale replayer_class =
  fixes send :: "'w net \<Rightarrow> 'r \<Rightarrow> packet \<Rightarrow> 'w \<Rightarrow> (bool \<times> 'w) outcome"
  assumes send_total: "sendable p \<Longrightarrow> \<exists>b w'. send net r p w = Inr (b, w')"
    and send_delivers: "sendable p \<Longrightarrow> payload_bytes p \<noteq> [] \<Longrightarrow> net_ok net wire \<Longrightarrow>
      send net r p w = Inr (b, w') \<Longrightarrow>
      \<exists>c. prefix c (payload_bytes p) \<and> (b \<longleftrightarrow> c = payload_bytes p) \<and>
        wire w' = wire w @ (if c = [] then [] else [c])"
begin

lemma step_skips:
  assumes "sendable p" and "\<not> replayable p"
  shows "engine_step net (send net r) scale p st = Inr st"
proof -
  have hp: "has_payload p" using assms(1) by (simp add: sendable_def)
  then have "(of_nat (length (payload_bytes p)) :: size_t) = 0 \<longleftrightarrow> payload_bytes p = []"
    using has_payload_bound by (simp add: size_of_nat_0)
  with hp assms(2) show ?thesis
    by (cases "p_protocol p") (auto simp: engine_step_def replayable_def)
qed

lemma step_sends:
  assumes p: "sendable p" "replayable p" and conv: "can_wait scale (en_base_ts st) p"
    and net: "net_ok net wire"
  shows "\<exists>st' c. engine_step net (send net r) scale p st = Inr st' \<and> prefix c (payload_bytes p) \<and>
    wire (en_world st') = wire (en_world st) @ (if c = [] then [] else [c]) \<and>
    en_base_ts st' = next_base p st \<and> en_sent_count st' = en_sent_count st + (if c = payload_bytes p then 1 else 0)"
proof -
  have ne: "payload_bytes p \<noteq> []" using p by (simp add: replayable_def)
  let ?w1 = "waited net scale p st"
  have w1: "wire ?w1 = wire (en_world st)" using net by (simp add: waited_def sleep_for_def Let_def net_ok_def)
  obtain b w2 where s: "send net r p ?w1 = Inr (b, w2)" using send_total [OF p(1)] by blast
  from send_delivers [OF p(1) ne net s] obtain c where
    c: "prefix c (payload_bytes p)" "b \<longleftrightarrow> c = payload_bytes p"
      "wire w2 = wire ?w1 @ (if c = [] then [] else [c])" by blast
  show ?thesis
    unfolding engine_step_send [OF p conv] using s c w1 by auto
qed

lemma run_total:
  "(\<And>p. p \<in> set ps \<Longrightarrow> sendable p) \<Longrightarrow> convertible scale (en_base_ts st) ps \<Longrightarrow>
    \<exists>st'. ofold (engine_step net (send net r) scale) ps st = Inr st'"
proof (induction ps arbitrary: st)
  case (Cons p ps)
  then have p: "sendable p" by simp
  obtain st1 where "engine_step net (send net r) scale p st = Inr st1" "convertible scale (en_base_ts st1) ps"
  proof (cases "replayable p")
    case True
    obtain b w2 where "send net r p (waited net scale p st) = Inr (b, w2)" using send_total [OF p] by blast
    with engine_step_send [OF p True, of scale st net "send net r"] Cons.prems(2) True that show ?thesis
      by (simp add: next_base_def)
  qed (use step_skips [OF p] Cons.prems(2) that in simp)
  with Cons show ?case by auto
qed simp

text \<open>
  A run over any packets: the chunks that reached the wire are prefixes of the replayable
  payloads, in order, and the counter counts the complete ones.
\<close>

lemma run_sends:
  assumes "\<And>p. p \<in> set ps \<Longrightarrow> sendable p" "convertible scale (en_base_ts st) ps" and net: "net_ok net wire"
  shows "\<exists>st' cs. ofold (engine_step net (send net r) scale) ps st = Inr st' \<and>
    list_all2 (\<lambda>p c. prefix c (payload_bytes p)) (filter replayable ps) cs \<and>
    wire (en_world st') = wire (en_world st) @ filter (\<lambda>c. c \<noteq> []) cs \<and>
    en_sent_count st' = en_sent_count st +
      of_nat (length (filter (\<lambda>(p, c). c = payload_bytes p) (zip (filter replayable ps) cs)))"
  using assms(1,2)
proof (induction ps arbitrary: st)
  case Nil
  show ?case by (auto intro!: exI [of _ "[]"])
next
  case (Cons p ps)
  show ?case
  proof (cases "replayable p")
    case False
    with step_skips [of p net r scale st] Cons show ?thesis by simp
  next
    case True
    have p: "sendable p" "can_wait scale (en_base_ts st) p" "convertible scale (next_base p st) ps"
      using Cons.prems True by (simp_all add: next_base_def)
    from step_sends [OF p(1) True p(2) net, of r] obtain st1 c where
      1: "engine_step net (send net r) scale p st = Inr st1" "prefix c (payload_bytes p)"
        "wire (en_world st1) = wire (en_world st) @ (if c = [] then [] else [c])"
        "en_base_ts st1 = next_base p st"
        "en_sent_count st1 = en_sent_count st + (if c = payload_bytes p then 1 else 0)" by blast
    from p(3) have "convertible scale (en_base_ts st1) ps" by (simp add: 1(4))
    with Cons.IH [of st1] Cons.prems(1) obtain st' cs where
      2: "ofold (engine_step net (send net r) scale) ps st1 = Inr st'"
        "list_all2 (\<lambda>p c. prefix c (payload_bytes p)) (filter replayable ps) cs"
        "wire (en_world st') = wire (en_world st1) @ filter (\<lambda>c. c \<noteq> []) cs"
        "en_sent_count st' = en_sent_count st1 +
          of_nat (length (filter (\<lambda>(p, c). c = payload_bytes p) (zip (filter replayable ps) cs)))" by auto
    show ?thesis
      by (rule exI [of _ st'], rule exI [of _ "c # cs"])
        (use 1 2 True in \<open>auto simp: ac_simps\<close>)
  qed
qed

text \<open>A quotient that cannot be converted ends the run, whatever was sent before.\<close>

lemma run_unconverted:
  assumes "\<forall>p \<in> set ps. sendable p" and "\<not> convertible scale (en_base_ts st) ps"
    and "\<And>e x. scale e = Inl x \<Longrightarrow> x = Bad_Conversion"
  shows "ofold (engine_step net (send net r) scale) ps st = Inl Bad_Conversion"
  using assms(1,2)
proof (induction ps arbitrary: st)
  case (Cons p ps)
  then have p: "sendable p" by simp
  show ?case
  proof (cases "replayable p")
    case False
    with step_skips [OF p] Cons show ?thesis by simp
  next
    case True
    show ?thesis
    proof (cases "can_wait scale (en_base_ts st) p")
      case True
      obtain b w2 where "send net r p (waited net scale p st) = Inr (b, w2)" using send_total [OF p] by blast
      then obtain st1 where "engine_step net (send net r) scale p st = Inr st1" "en_base_ts st1 = next_base p st"
        by (simp add: engine_step_send [OF p \<open>replayable p\<close> True])
      with Cons.IH [of st1] Cons.prems True \<open>replayable p\<close> show ?thesis by (simp add: next_base_def)
    next
      case False
      then show ?thesis by (simp add: step_unconverted [OF p True False assms(3)])
    qed
  qed
qed simp

end

lemma sint_size: "sendable p \<Longrightarrow> sint (of_nat (length (payload_bytes p)) :: size_t) = int (length (payload_bytes p))"
  by (simp add: sendable_def signed_of_nat signed_take_bit_int_eq_self)

lemma prefix_take: "prefix (take n xs) xs"
  by (rule take_is_prefix)

text \<open>Both senders follow the socket's report in the same way.\<close>

lemma socket_delivers:
  assumes "n \<le> int (length bs)" and "wire' = wire @ (if n > 0 then [take (nat n) bs] else [])" and "bs \<noteq> []"
  shows "\<exists>c. prefix c bs \<and> (n = int (length bs) \<longleftrightarrow> c = bs) \<and> wire' = wire @ (if c = [] then [] else [c])"
proof (intro exI conjI)
  let ?c = "take (nat n) bs"
  show "prefix ?c bs" by (rule take_is_prefix)
  show "n = int (length bs) \<longleftrightarrow> ?c = bs"
  proof -
    have "0 < length bs" using assms(3) by simp
    then show ?thesis using assms(1) unfolding take_all_iff by arith
  qed
  show "wire' = wire @ (if ?c = [] then [] else [?c])"
    using assms(2,3) by auto
qed

interpretation tcp_rep: replayer_class tcp_send
proof unfold_locales
  fix p net r w b w' wire
  assume p: "sendable p"
  show "\<exists>b w'. tcp_send net r p w = Inr (b, w')"
    using p by (auto simp: tcp_send_def sendable_def split: prod.split)
  assume ne: "payload_bytes p \<noteq> []" and net: "net_ok net wire" and s: "tcp_send net r p w = Inr (b, w')"
  show "\<exists>c. prefix c (payload_bytes p) \<and> (b \<longleftrightarrow> c = payload_bytes p) \<and>
      wire w' = wire w @ (if c = [] then [] else [c])"
  proof (cases "tr_connected r")
    case True
    obtain n w2 where n: "net_send net (tr_sock r) (payload_bytes p) w = (n, w2)" by fastforce
    with s p True have "b \<longleftrightarrow> n = int (length (payload_bytes p))" "w' = w2"
      by (auto simp: tcp_send_def sendable_def sint_size [OF p])
    with net n socket_delivers [OF _ _ ne, of n "wire w'" "wire w"] show ?thesis
      by (auto simp: net_ok_def)
  qed (use s ne in \<open>auto simp: tcp_send_def\<close>)
qed

interpretation udp_rep: replayer_class udp_send
proof unfold_locales
  fix p net r w b w' wire
  assume p: "sendable p"
  show "\<exists>b w'. udp_send net r p w = Inr (b, w')"
    using p by (auto simp: udp_send_def sendable_def split: prod.split)
  assume ne: "payload_bytes p \<noteq> []" and net: "net_ok net wire" and s: "udp_send net r p w = Inr (b, w')"
  show "\<exists>c. prefix c (payload_bytes p) \<and> (b \<longleftrightarrow> c = payload_bytes p) \<and>
      wire w' = wire w @ (if c = [] then [] else [c])"
  proof (cases "ur_sock r < 0")
    case False
    obtain n w2 where n: "net_sendto net (ur_sock r) (payload_bytes p)
        (make_addr net (ur_host r) (ur_port r)) w = (n, w2)" by fastforce
    with s p False have "b \<longleftrightarrow> n = int (length (payload_bytes p))" "w' = w2"
      by (auto simp: udp_send_def sendable_def sint_size [OF p])
    with net n socket_delivers [OF _ _ ne, of n "wire w'" "wire w"] show ?thesis
      by (auto simp: net_ok_def)
  qed (use s ne in \<open>auto simp: udp_send_def\<close>)
qed

interpretation rep: replayer_class replayer_send
proof unfold_locales
  fix p net r w b w' wire
  assume p: "sendable p"
  show "\<exists>b w'. replayer_send net r p w = Inr (b, w')"
    using tcp_rep.send_total [OF p] udp_rep.send_total [OF p] by (cases r) simp_all
  assume ne: "payload_bytes p \<noteq> []" and net: "net_ok net wire" and s: "replayer_send net r p w = Inr (b, w')"
  show "\<exists>c. prefix c (payload_bytes p) \<and> (b \<longleftrightarrow> c = payload_bytes p) \<and>
      wire w' = wire w @ (if c = [] then [] else [c])"
  proof (cases r)
    case (Tcp_Replayer t)
    with s have "tcp_send net t p w = Inr (b, w')" by simp
    then show ?thesis by (rule tcp_rep.send_delivers [OF p ne net])
  next
    case (Udp_Replayer u)
    with s have "udp_send net u p w = Inr (b, w')" by simp
    then show ?thesis by (rule udp_rep.send_delivers [OF p ne net])
  qed
qed

section \<open>What a replay sends, and when\<close>

text \<open>A replay sends exactly the TCP and UDP packets with a non-empty payload, in capture order:
  what reaches the wire is, for each of them in turn, its payload or (after a failed or short
  send) a proper prefix of it, and the counter counts the payloads sent completely. This
  holds for either kind of sender and every network.\<close>

lemma replay_sends_the_capture:
  assumes "\<forall>p \<in> set ps. sendable p" and "convertible scale (en_base_ts st) ps" and "net_ok net wire"
  shows "\<exists>st' cs. ofold (engine_step net (replayer_send net r) scale) ps st = Inr st' \<and>
    list_all2 (\<lambda>p c. prefix c (payload_bytes p)) (filter replayable ps) cs \<and>
    wire (en_world st') = wire (en_world st) @ filter (\<lambda>c. c \<noteq> []) cs \<and>
    en_sent_count st' = en_sent_count st +
      of_nat (length (filter (\<lambda>(p, c). c = payload_bytes p) (zip (filter replayable ps) cs)))"
  using rep.run_sends assms by blast

text \<open>A simulated network: the clock in nanoseconds and the packets sent; sleeping is exact.\<close>

type_synonym sim = "u64 \<times> byte list list"

definition sim_net :: "sim net" where
  "sim_net = \<lparr>net_errno = (\<lambda>_. []), net_socket = (\<lambda>_ w. (3, w)), net_connect = (\<lambda>_ _ w. (0, w)),
     net_send = (\<lambda>_ bs (t, out). (int (length bs), (t, if bs = [] then out else out @ [bs]))),
     net_sendto = (\<lambda>_ bs _ (t, out). (int (length bs), (t, if bs = [] then out else out @ [bs]))),
     net_close = (\<lambda>_ w. w), net_pton = (\<lambda>_. Some 0), net_clock_ns = (\<lambda>(t, _). uint t),
     net_sleep_us = (\<lambda>d (t, out). (t + d * 1000, out))\<rparr>"

lemma sim_net_ok: "net_ok sim_net snd"
  by (auto simp: net_ok_def sim_net_def)

definition engine_start :: "'w \<Rightarrow> 'w engine_state" where
  "engine_start w = \<lparr>en_base_ts = 0, en_sent_count = 0, en_start_us = None, en_world = w\<rparr>"

lemma engine_start_base [simp]: "en_base_ts (engine_start w) = 0"
  by (simp add: engine_start_def)

definition replay_demo :: "packet list" where
  "replay_demo = [(tcp_segment 1 [7])\<lparr>p_timestamp_us := 10\<rparr>, tcp_segment 2 [],
     (tcp_segment 2 [8, 9])\<lparr>p_timestamp_us := 30\<rparr>]"

lemma replay_demo_sendable: "\<forall>p \<in> set replay_demo. sendable p"
  by (simp add: replay_demo_def sendable_def has_payload_def payload_bytes_def tcp_segment_def)

lemma replay_demo_payloads: "map payload_bytes (filter replayable replay_demo) = [[7], [8, 9]]"
  by (simp add: replay_demo_def replayable_def payload_bytes_def tcp_segment_def)

lemma replay_sends_the_capture_instance:
  "\<exists>st' cs. ofold (engine_step sim_net (replayer_send sim_net (Udp_Replayer \<lparr>ur_sock = 3, ur_host = [], ur_port = 9\<rparr>))
      (\<lambda>e. Inr e)) replay_demo (engine_start (5000, [])) = Inr st' \<and>
    snd (en_world st') = filter (\<lambda>c. c \<noteq> []) cs \<and>
    list_all2 (\<lambda>p c. prefix c (payload_bytes p)) (filter replayable replay_demo) cs"
  using replay_sends_the_capture [OF replay_demo_sendable convertible_total [of "\<lambda>e. e"] sim_net_ok,
    of _ "engine_start (5000, [])"]
  by (fastforce simp: engine_start_def)

end
