(* ===== verification/Commands.thy ===== *)
theory Commands
  imports Command_Line Schema_Loader Stream_Timeline Timeline_Printer Replay
begin

text \<open>
  The two commands and the program (\<^verbatim>\<open>src/cli/Commands.cpp\<close>, \<^verbatim>\<open>src/main.cpp\<close>),
  composed from the components as the code composes them. A run yields the exit code and what
  was written, the lines of the logger included; a fault or an uncaught exception ends it.
\<close>

text \<open>Everything outside the sources, and the orders the standard library leaves open.\<close>

record ('n, 'h, 'w, 'd) environment =
  e_yaml :: "'n yaml"
  e_pcap :: "'h pcap_lib"
  e_net :: "'w net"
  e_scale :: "u64 \<Rightarrow> 'd \<Rightarrow> u64 outcome"
  e_show :: "'d \<Rightarrow> string"
  e_stod :: "string \<Rightarrow> 'd outcome"
  e_iteration :: iteration
  e_field_order :: field_order
  e_sorter :: sorter

definition help_text :: string where
  "help_text = concat (map (\<lambda>l. l @ newline)
    [''GatewayForge - custom TCP/UDP protocol debugging toolkit'',
     '''',
     ''Commands:'',
     ''  decode       Decode TCP/UDP packets from PCAP'',
     ''  replay       Replay TCP/UDP traffic from PCAP'',
     '''',
     ''Options:'',
     ''  --pcap <path>         Path to PCAP file'',
     ''  --schema <path>       Path to YAML protocol schema'',
     ''  --target <host:port>  Target host:port for replay'',
     ''  --transport <tcp|udp> Transport protocol'',
     ''  --speed <value>       Replay speed multiplier (default: 1.0)'',
     '''',
     ''Examples:'',
     ''  gatewayforge decode --pcap sample.pcap --schema schema.yaml'',
     ''  gatewayforge replay --pcap sample.pcap --target 127.0.0.1:9000 --transport tcp''])"

definition print_help :: "chunk list" where
  "print_help = [Out help_text]"

section \<open>decode\<close>

text \<open>The callback: packets of unknown protocol are not tracked.\<close>

definition decode_callback :: "packet \<Rightarrow> flow_table \<Rightarrow> flow_table outcome" where
  "decode_callback p t = (if p_protocol p \<noteq> UNKNOWN then tracker_on_packet p t else Inr t)"

definition flow_report :: "iteration \<Rightarrow> flow_table \<Rightarrow> string" where
  "flow_report ord t =
     newline @ ''=== Flow Summary ==='' @ newline @
     ''Total flows: '' @ show_nat (unat (flow_count t)) @ newline @
     ''TCP flows: '' @ show_nat (unat (tcp_flow_count ord t)) @ newline @
     ''UDP flows: '' @ show_nat (unat (udp_flow_count ord t)) @ newline @ newline"

definition cmd_decode ::
    "('n, 'h, 'w, 'd) environment \<Rightarrow> command_line \<Rightarrow> (int \<times> chunk list) run" where
  "cmd_decode env args =
     (let pcap_path = get_or args ''pcap'' []; schema_path = get_or args ''schema'' []
      in if pcap_path = [] \<or> schema_path = []
         then Some (Inr (1, [Errs (''Usage: gatewayforge decode --pcap <path> --schema <path>'' @ newline)]))
         else rbind (Some (load_from_yaml (e_yaml env) schema_path)) (\<lambda>schema_result.
           if is_err schema_result
           then Some (Inr (1, load_log schema_result @ [Errs (''Failed to load schema: '' @ result_error schema_result @ newline)]))
           else rbind (Some (unwrap schema_result)) (\<lambda>schema.
             let (opened, reader, log) = reader_open (e_pcap env) pcap_path new_reader
             in if \<not> opened
                then Some (Inr (1, load_log schema_result @ log @ [Errs (''Failed to open PCAP: '' @ pcap_path @ newline)]))
                else rbind (for_each_packet (e_pcap env) decode_callback reader []) (\<lambda>(reader', tracker).
                  rbind (builder_build (e_iteration env) (e_field_order env) (e_sorter env) (new_builder tracker schema))
                    (\<lambda>builder. Some (Inr (0, load_log schema_result @ log @
                      [Out (flow_report (e_iteration env) tracker), Out (print_timeline (builder_events builder))])))))))"

section \<open>replay\<close>

text \<open>\<open>None\<close> is a target without a colon.\<close>

definition parse_target :: "string \<Rightarrow> (string \<times> u16) option outcome" where
  "parse_target target_str =
     (if CHR '':'' \<notin> set target_str then Inr None
      else let host = takeWhile (\<lambda>c. c \<noteq> CHR '':'') target_str
           in obind (stoi (drop (length host + 1) target_str)) (\<lambda>port. Inr (Some (host, of_int port))))"

text \<open>
  The static \<open>start_us\<close> and the world are threaded through. The speed is converted before the
  options are checked.
\<close>

definition cmd_replay ::
    "('n, 'h, 'w, 'd) environment \<Rightarrow> command_line \<Rightarrow> u64 option \<Rightarrow> 'w \<Rightarrow>
     ((int \<times> chunk list) \<times> u64 option \<times> 'w) run" where
  "cmd_replay env args start w =
     (let pcap_path = get_or args ''pcap'' []; target_str = get_or args ''target'' [];
          transport = get_or args ''transport'' ''tcp''
      in rbind (Some (e_stod env (get_or args ''speed'' ''1.0''))) (\<lambda>speed.
        if pcap_path = [] \<or> target_str = []
        then Some (Inr ((1, [Errs (''Usage: gatewayforge replay --pcap <path> --target <host:port> [--transport tcp|udp]'' @ newline)]), start, w))
        else rbind (Some (parse_target target_str)) (\<lambda>target.
          case target of
            None \<Rightarrow> Some (Inr ((1, [Errs (''Invalid target format. Use host:port'' @ newline)]), start, w))
          | Some (host, port) \<Rightarrow>
              let opts = \<lparr>ro_pcap_path = pcap_path, ro_target_host = host, ro_target_port = port,
                    ro_transport = transport, ro_speed = speed, ro_randomize_source_port = False\<rparr>;
                  (eg, log, w1) = new_engine (e_net env) opts w
              in rbind (engine_run (e_pcap env) (e_net env) (e_scale env) (e_show env) eg start w1)
                   (\<lambda>(eg', log', start', w2).
                      Some (Inr ((0, log @ log'), start', destroy_replayer (e_net env) (eg_replayer eg') w2))))))"

section \<open>Execute and main\<close>

definition execute ::
    "('n, 'h, 'w, 'd) environment \<Rightarrow> command_line \<Rightarrow> u64 option \<Rightarrow> 'w \<Rightarrow>
     ((int \<times> chunk list) \<times> u64 option \<times> 'w) run" where
  "execute env args start w =
     (if cl_command args = ''help'' \<or> cl_command args = ''--help'' \<or> cl_command args = ''-h''
      then Some (Inr ((0, print_help), start, w))
      else if cl_command args = ''decode''
      then rbind (cmd_decode env args) (\<lambda>r. Some (Inr (r, start, w)))
      else if cl_command args = ''replay'' then cmd_replay env args start w
      else Some (Inr ((1, Errs (''Unknown command: '' @ cl_command args @ newline) # print_help), start, w)))"

definition main ::
    "('n, 'h, 'w, 'd) environment \<Rightarrow> string list \<Rightarrow> 'w \<Rightarrow> ((int \<times> chunk list) \<times> u64 option \<times> 'w) run" where
  "main env argv w =
     rbind (Some (logger_init ''info'' new_logger_state)) (\<lambda>logger.
       rbind (case parse_args argv of
           None \<Rightarrow> Some (Inr ((1, print_help), None, w))
         | Some cmd \<Rightarrow> execute env cmd None w)
         (\<lambda>((code, cs), rest). Some (Inr ((code, emit logger cs), rest))))"

lemma main_run: "main env argv w = rbind (case parse_args argv of
      None \<Rightarrow> Some (Inr ((1, print_help), None, w)) | Some cmd \<Rightarrow> execute env cmd None w)
    (\<lambda>((code, cs), rest). Some (Inr ((code, emit info_logger cs), rest)))"
  by (simp add: main_def init_info)

lemma loud_lines [simp]: "loud (loaded_line s)" "loud (opened_line f)" "loud (starting_line sh opts)" "loud (complete_line n)"
  by (simp_all add: loaded_line_def opened_line_def starting_line_def complete_line_def)

section \<open>The packets of a capture file\<close>

text \<open>
  What the callbacks are called with: the packets the records parse to, stamped; records that
  parse to nothing (no IPv4, neither TCP nor UDP, too short) are passed over.
\<close>

primrec capture_packets :: "capture_record list \<Rightarrow> packet list outcome" where
  "capture_packets [] = Inr []"
| "capture_packets (r # rs) = obind (parse (Some (snd r)) (ucast (h_len (fst r)))) (\<lambda>q.
     obind (capture_packets rs) (\<lambda>ps. Inr (case q of
       None \<Rightarrow> ps | Some p \<Rightarrow> p\<lparr>p_timestamp_us := header_timestamp (fst r)\<rparr> # ps)))"

lemma capture_packets_append:
  "capture_packets rs = Inr ps \<Longrightarrow> capture_packets rs' = Inr qs \<Longrightarrow> capture_packets (rs @ rs') = Inr (ps @ qs)"
proof (induction rs arbitrary: ps)
  case (Cons r rs)
  then show ?case by (auto simp: obind_eq_Inr split: option.splits)
qed simp

lemma process_all_captured: "capture_packets rs = Inr ps \<Longrightarrow> process_all cb rs s = ofold cb ps s"
  unfolding process_all_def
proof (induction rs arbitrary: ps s)
  case (Cons r rs)
  then obtain q qs where q: "parse (Some (snd r)) (ucast (h_len (fst r))) = Inr q"
    "capture_packets rs = Inr qs"
    "ps = (case q of None \<Rightarrow> qs | Some p \<Rightarrow> p\<lparr>p_timestamp_us := header_timestamp (fst r)\<rparr> # qs)"
    by (auto simp: obind_eq_Inr)
  have "ofold (\<lambda>r. process cb (Stored r)) rs = ofold cb qs" using Cons.IH [OF q(2)] by (rule ext)
  moreover have "process cb (Stored r) s =
      (case q of None \<Rightarrow> Inr s | Some p \<Rightarrow> cb (p\<lparr>p_timestamp_us := header_timestamp (fst r)\<rparr>) s)"
    using q(1) by (cases r; cases q) (simp_all add: process_def)
  ultimately show ?case using q(3) by (cases q) simp_all
qed simp

lemma captured_protocol: "capture_packets rs = Inr ps \<Longrightarrow> p \<in> set ps \<Longrightarrow> p_protocol p \<noteq> UNKNOWN"
proof (induction rs arbitrary: ps)
  case (Cons r rs)
  then show ?case
    by (auto simp: obind_eq_Inr frame_packet_def split: option.splits dest!: parse_frame_packet)
qed simp

lemma decode_callback_track:
  "(\<And>p. p \<in> set ps \<Longrightarrow> p_protocol p \<noteq> UNKNOWN) \<Longrightarrow> ofold decode_callback ps t = ofold tracker_on_packet ps t"
proof (induction ps arbitrary: t)
  case (Cons p ps)
  then have "decode_callback p t = tracker_on_packet p t" by (simp add: decode_callback_def)
  with Cons show ?case by (cases "tracker_on_packet p t") simp_all
qed simp

lemma reader_run:
  assumes "lib_open lib f = Inr h" and "yields lib h rs h'" and "capture_packets rs = Inr ps"
  shows "\<exists>r r'. reader_open lib f new_reader = (True, r, [opened_line f]) \<and>
    for_each_packet lib cb r s = Some (obind (ofold cb ps s) (\<lambda>s'. Inr (r', s')))"
  using read_loop_yields [OF assms(2), of cb Unset 0 s] assms(1) process_all_captured [OF assms(3), of cb s]
  by (cases "ofold cb ps s") (auto simp: reader_open_def for_each_packet_def)

section \<open>The replay target\<close>

lemma parse_target_port:
  assumes "CHR '':'' \<notin> set host" and "n \<le> 2147483647"
  shows "parse_target (host @ '':'' @ show_nat n) = Inr (Some (host, of_nat n))"
proof -
  have "takeWhile (\<lambda>c. c \<noteq> CHR '':'') (host @ CHR '':'' # show_nat n) = host"
    using assms(1) by (intro takeWhile_append_stop) auto
  then show ?thesis using stoi_show_nat [OF assms(2)] by (simp add: parse_target_def Let_def)
qed

text \<open>Targets read back: \<open>host:port\<close> yields the host (anything without a colon) and the port; a port
  number beyond 65535 is accepted and truncated to 16 bits, one beyond the range of \<open>int\<close> throws.\<close>

lemma target_roundtrip:
  assumes "CHR '':'' \<notin> set host"
  shows "(n \<le> 2147483647 \<longrightarrow> parse_target (host @ '':'' @ show_nat n) = Inr (Some (host, of_nat n))) \<and>
    (2147483647 < n \<longrightarrow> parse_target (host @ '':'' @ show_nat n) = Inl (Throw (Out_Of_Range ''stoi'')))"
proof (intro conjI impI)
  show "parse_target (host @ '':'' @ show_nat n) = Inr (Some (host, of_nat n))" if "n \<le> 2147483647"
    by (rule parse_target_port [OF assms that])
  have "takeWhile (\<lambda>c. c \<noteq> CHR '':'') (host @ CHR '':'' # show_nat n) = host"
    using assms by (intro takeWhile_append_stop) auto
  then show "parse_target (host @ '':'' @ show_nat n) = Inl (Throw (Out_Of_Range ''stoi''))"
    if "2147483647 < n"
    using stoi_show_nat_large [OF that] by (simp add: parse_target_def Let_def)
qed

end
