(* ===== verification/Decode_Runs.thy ===== *)
theory Decode_Runs
  imports Commands
begin

text \<open>
  Whole runs of the program with the command \<^verbatim>\<open>decode\<close>: from the arguments and the records of the
  capture file to the exit code and the text printed.
\<close>

section \<open>From arguments to output\<close>

definition decode_argv :: "string \<Rightarrow> string \<Rightarrow> string \<Rightarrow> string list" where
  "decode_argv prog f sp = [prog, ''decode'', ''--pcap'', f, ''--schema'', sp]"

text \<open>File names that the command line can carry.\<close>

definition file_name :: "string \<Rightarrow> bool" where
  "file_name f \<longleftrightarrow> f \<noteq> [] \<and> plain_value f"

lemma main_decode:
  assumes "file_name f" "file_name sp"
  shows "\<exists>args. get_or args ''pcap'' [] = f \<and> get_or args ''schema'' [] = sp \<and>
    main env (decode_argv prog f sp) w = rbind (cmd_decode env args) (\<lambda>(code, cs). Some (Inr ((code, emit info_logger cs), None, w)))"
proof (intro exI conjI)
  let ?args = "\<lparr>cl_command = ''decode'', cl_options = [(''pcap'', f), (''schema'', sp)]\<rparr>"
  have "parse_args (decode_argv prog f sp) = Some ?args"
    using assms by (simp add: parse_args_def plain_value_def file_name_def decode_argv_def)
  then show "main env (decode_argv prog f sp) w = rbind (cmd_decode env ?args) (\<lambda>(code, cs). Some (Inr ((code, emit info_logger cs), None, w)))"
    by (simp add: main_run execute_def rbind_assoc case_prod_unfold)
qed (simp_all add: get_or_def)

text \<open>What the file holds, as the reader delivers it, and the schema that loads.\<close>

definition decode_input ::
    "('n, 'h, 'w, 'd) environment \<Rightarrow> string \<Rightarrow> string \<Rightarrow> protocol_schema \<Rightarrow> packet list \<Rightarrow> bool" where
  "decode_input env f sp s ps \<longleftrightarrow> file_name f \<and> file_name sp \<and>
     load_from_yaml (e_yaml env) sp = Inr (ok s) \<and>
     (\<exists>h rs h'. lib_open (e_pcap env) f = Inr h \<and> yields (e_pcap env) h rs h' \<and> capture_packets rs = Inr ps) \<and>
     iteration_order (e_iteration env) \<and> event_sorter (e_sorter env)"

text \<open>What the command does with the packets: track them, build, print.\<close>

lemma decode_run:
  assumes inp: "decode_input env f sp s ps"
  shows "main env (decode_argv prog f sp) w = rbind (Some (ofold decode_callback ps [])) (\<lambda>t.
    rbind (build (e_iteration env) (e_field_order env) (e_sorter env) s t) (\<lambda>es.
      Some (Inr ((0, [loaded_line s, opened_line f, Out (flow_report (e_iteration env) t), Out (print_timeline es)]), None, w))))"
proof -
  obtain h rs h' where cap: "lib_open (e_pcap env) f = Inr h" "yields (e_pcap env) h rs h'"
      "capture_packets rs = Inr ps" and names: "file_name f" "file_name sp"
    and load: "load_from_yaml (e_yaml env) sp = Inr (ok s)"
    using inp by (auto simp: decode_input_def)
  obtain args where args: "get_or args ''pcap'' [] = f" "get_or args ''schema'' [] = sp"
    "main env (decode_argv prog f sp) w = rbind (cmd_decode env args) (\<lambda>(code, cs). Some (Inr ((code, emit info_logger cs), None, w)))"
    using main_decode [where env = env and prog = prog and w = w, OF names] by (elim exE conjE)
  obtain r r' where r: "reader_open (e_pcap env) f new_reader = (True, r, [opened_line f])"
    "for_each_packet (e_pcap env) decode_callback r [] =
      Some (obind (ofold decode_callback ps []) (\<lambda>t. Inr (r', t)))"
    using reader_run [OF cap, of decode_callback "[]"] by blast
  have schema: "\<not> is_err (ok s)" "unwrap (ok s) = Inr s" "load_log (ok s) = [loaded_line s]"
    by (simp_all add: load_log_def) (simp add: ok_def)
  have "cmd_decode env args = rbind (Some (ofold decode_callback ps [])) (\<lambda>t.
      rbind (build (e_iteration env) (e_field_order env) (e_sorter env) s t) (\<lambda>es.
        Some (Inr (0, [loaded_line s, opened_line f, Out (flow_report (e_iteration env) t), Out (print_timeline es)]))))"
    unfolding cmd_decode_def Let_def args(1,2) load r
    using names schema
    by (cases "ofold decode_callback ps []")
      (simp_all add: r(2) file_name_def builder_build_def new_builder_def new_decoder_def rbind_assoc)
  then show ?thesis unfolding args(3) by (simp add: rbind_assoc emit_loud)
qed

lemma decode_output:
  assumes inp: "decode_input env f sp s ps" and t: "track ps = Inr t"
    and b: "build (e_iteration env) (e_field_order env) (e_sorter env) s t = Some (Inr es)"
  shows "main env (decode_argv prog f sp) w =
    Some (Inr ((0, [loaded_line s, opened_line f, Out (flow_report (e_iteration env) t), Out (print_timeline es)]), None, w))"
proof -
  obtain rs where "capture_packets rs = Inr ps" using inp by (auto simp: decode_input_def)
  then have "ofold decode_callback ps [] = Inr t"
    using decode_callback_track [of ps "[]"] captured_protocol t by (simp add: track_def)
  with b show ?thesis by (simp add: decode_run [OF inp])
qed

section \<open>The flow summary\<close>

definition summary_text :: "nat \<Rightarrow> nat \<Rightarrow> nat \<Rightarrow> string" where
  "summary_text flows tcps udps =
     newline @ ''=== Flow Summary ==='' @ newline @ ''Total flows: '' @ show_nat flows @ newline @
     ''TCP flows: '' @ show_nat tcps @ newline @ ''UDP flows: '' @ show_nat udps @ newline @ newline"

lemma flow_report_track:
  assumes "\<forall>p \<in> set ps. trackable p" "length ps < 2 ^ 64" "iteration_order ord" "track ps = Inr t"
  shows "flow_report ord t =
    summary_text (card (make_key ` set ps)) (conversations TCP ps) (conversations UDP ps)"
  by (simp add: flow_report_def summary_text_def track_counts [OF assms])

lemma conversations_all:
  assumes "\<forall>p \<in> set ps. p_protocol p = pr"
  shows "conversations pr ps = card (make_key ` set ps)" "pr' \<noteq> pr \<Longrightarrow> conversations pr' ps = 0"
proof -
  have "{k \<in> make_key ` set ps. k_protocol k = pr} = make_key ` set ps" using assms by auto
  then show "conversations pr ps = card (make_key ` set ps)" by (simp add: conversations_def)
  show "conversations pr' ps = 0" if "pr' \<noteq> pr"
  proof -
    have "{k \<in> make_key ` set ps. k_protocol k = pr'} = {}" using assms that by auto
    then show ?thesis by (simp only: conversations_def card.empty)
  qed
qed

section \<open>Captures of datagrams and of connections\<close>

text \<open>The decode command, end to end, for datagrams: given a datagram schema that loads and a capture
  file whose records parse to UDP packets (others may parse to nothing), the program exits with 0
  and prints the number of conversations and a timeline, sorted by time, of exactly one event for each
  datagram with a payload, showing the fields its bytes decode to.\<close>

lemma decode_command_end_to_end:
  assumes "decode_input env f sp s ps" and "s_transport s = ''udp''" "length ps < 2 ^ 64"
    and "\<forall>p \<in> set ps. p_protocol p = UDP \<and> small_payload p"
  shows "\<exists>es. main env (decode_argv prog f sp) w = Some (Inr ((0, [loaded_line s, opened_line f,
      Out (summary_text (card (make_key ` set ps)) 0 (card (make_key ` set ps))),
      Out (print_timeline es)]), None, w)) \<and>
    sorted (map te_timestamp_us es) \<and>
    mset es = mset (map (datagram_event (e_field_order env) s) (filter (\<lambda>p. payload_bytes p \<noteq> []) ps))"
proof -
  have orders: "iteration_order (e_iteration env)" "event_sorter (e_sorter env)"
    using assms(1) by (auto simp: decode_input_def)
  from udp_capture [OF assms(4,2) orders, of "e_field_order env"] obtain t es where
    t: "track ps = Inr t" "build (e_iteration env) (e_field_order env) (e_sorter env) s t = Some (Inr es)"
      "sorted (map te_timestamp_us es)"
      "mset es = mset (map (datagram_event (e_field_order env) s) (filter (\<lambda>p. payload_bytes p \<noteq> []) ps))"
    by blast
  have "\<forall>p \<in> set ps. trackable p" using assms(4) by (simp add: trackable_def small_payload_def)
  from flow_report_track [OF this assms(3) orders(1) t(1)] conversations_all [of ps UDP] assms(4)
  have "flow_report (e_iteration env) t = summary_text (card (make_key ` set ps)) 0 (card (make_key ` set ps))"
    by simp
  with decode_output [OF assms(1) t(1,2), of prog w] t(3,4) show ?thesis by auto
qed

text \<open>C2: The decode command, end to end, for TCP: given a schema that loads, with a length field (and no trailing field of
  variable length if the length counts the header), and a capture file
  whose records parse to TCP segments of any number of connections, in any interleaving, each
  direction of which carries frames cut anywhere, the program exits with 0 and prints the number of
  connections and a timeline, sorted by time, of exactly one event for each complete frame of each
  direction, with that frame's fields (64-bit integers in the order of the host).\<close>

theorem decode_tcp_end_to_end:
  assumes "decode_input env f sp s ps" and "stream_schema s fs vf" "tcp_capture ps"
    and "\<forall>k \<in> make_key ` set ps. carries_frames s fs (client_packets k ps) (A k) \<and>
      carries_frames s fs (server_packets k ps) (B k)"
  shows "\<exists>es. main env (decode_argv prog f sp) w = Some (Inr ((0, [loaded_line s, opened_line f,
      Out (summary_text (card (make_key ` set ps)) (card (make_key ` set ps)) 0),
      Out (print_timeline es)]), None, w)) \<and>
    sorted (map te_timestamp_us es) \<and>
    mset es = (\<Sum>k \<in> make_key ` set ps. mset (connection_events (e_field_order env) k
      (p_timestamp_us (hd (packets_of k ps))) (map (frame_fields fs vf) (A k)) (map (frame_fields fs vf) (B k))))"
proof -
  have orders: "iteration_order (e_iteration env)" "event_sorter (e_sorter env)"
    using assms(1) by (auto simp: decode_input_def)
  from tcp_capture_events [OF assms(2-4) orders, of "e_field_order env"] obtain t es where
    t: "track ps = Inr t" "build (e_iteration env) (e_field_order env) (e_sorter env) s t = Some (Inr es)"
      "sorted (map te_timestamp_us es)"
      "mset es = (\<Sum>k \<in> make_key ` set ps. mset (connection_events (e_field_order env) k
        (p_timestamp_us (hd (packets_of k ps))) (map (frame_fields fs vf) (A k)) (map (frame_fields fs vf) (B k))))"
    by blast
  have "\<forall>p \<in> set ps. trackable p" using assms(3) by (simp add: tcp_capture_def trackable_def)
  from flow_report_track [OF this _ orders(1) t(1)] conversations_all [of ps TCP] assms(3)
  have "flow_report (e_iteration env) t = summary_text (card (make_key ` set ps)) (card (make_key ` set ps)) 0"
    by (simp add: tcp_capture_def)
  with decode_output [OF assms(1) t(1,2), of prog w] t(3,4) show ?thesis by auto
qed

section \<open>Two captures\<close>

definition demo_env :: "ytree \<Rightarrow> capture_record list \<Rightarrow> (ytree, capture_record list, sim, nat) environment" where
  "demo_env tree rs = \<lparr>e_yaml = tree_yaml tree, e_pcap = file_lib (\<lambda>_. Some rs), e_net = sim_net,
     e_scale = (\<lambda>e _. Inr e), e_show = show_nat, e_stod = (\<lambda>_. Inr 1), e_iteration = rev, e_field_order = (\<lambda>m. m),
     e_sorter = stable_sorter\<rparr>"

lemma demo_env_simps [simp]:
  "e_yaml (demo_env tree rs) = tree_yaml tree" "e_pcap (demo_env tree rs) = file_lib (\<lambda>_. Some rs)"
  "e_iteration (demo_env tree rs) = rev" "e_field_order (demo_env tree rs) = (\<lambda>m. m)"
  "e_sorter (demo_env tree rs) = stable_sorter" "e_stod (demo_env tree rs) v = Inr 1"
  "e_scale (demo_env tree rs) = (\<lambda>e _. Inr e)"
  "e_net (demo_env tree rs) = sim_net" "e_show (demo_env tree rs) = show_nat"
  by (simp_all add: demo_env_def)

lemma file_lib_open [simp]: "lib_open (file_lib (\<lambda>_. Some rs)) f = Inr rs"
  by (simp add: file_lib_def)

lemma demo_input:
  assumes "\<And>sp. load_from_yaml (tree_yaml tree) sp = Inr (ok s)" and "capture_packets rs = Inr ps"
  shows "decode_input (demo_env tree rs) ''b.pcap'' ''s.yaml'' s ps"
  unfolding decode_input_def
  using assms file_lib_yields [of "\<lambda>_. Some rs" rs] by (auto simp: file_name_def plain_value_def starts_with_def)

text \<open>A datagram, behind a frame too short for an IPv4 header, which is passed over.\<close>

definition runt_record :: capture_record where
  "runt_record = (\<lparr>h_tv_sec = 0, h_tv_usec = 5, h_caplen = 20, h_len = 20\<rparr>, replicate 20 0)"

lemma runt_ignored: "parse (Some (snd runt_record)) (ucast (h_len (fst runt_record))) = Inr None"
  by (simp add: runt_record_def parse_def parse_ethernet_def parse_ipv4_def mem_read_def)

lemma beacon_captured: "capture_packets [runt_record, beacon_record] = Inr [beacon_packet]"
proof -
  have "parse (Some beacon_frame) 44 =
      Inr (Some (udp_packet [192, 168, 1, 20] [10, 0, 0, 8] 35000 9001 [0xCA, 0xFE]))"
    by (rule parse_udp_frame [OF _ _ _ _ _ _ beacon_frame_def])
      (simp_all add: ip_options_ok_def beacon_frame_def udp_frame_def length_ipv4_bytes length_udp_bytes)
  then show ?thesis
    by (simp add: runt_ignored) (simp add: beacon_record_def beacon_packet_def header_timestamp_def)
qed

lemma beacon_facts: "p_protocol beacon_packet = UDP" "small_payload beacon_packet"
  "payload_bytes beacon_packet = [0xCA, 0xFE]"
  by (simp_all add: beacon_packet_def udp_packet_def small_payload_def has_payload_def payload_bytes_def)

lemma decode_command_end_to_end_instance:
  "\<exists>es. main (demo_env vehicle_udp_tree [runt_record, beacon_record])
      (decode_argv ''gatewayforge'' ''b.pcap'' ''s.yaml'') (0, []) =
      Some (Inr ((0, [loaded_line vehicle_udp_schema, opened_line ''b.pcap'',
      Out (summary_text 1 0 1), Out (print_timeline es)]), None, (0, []))) \<and>
    mset es = mset (map (datagram_event (\<lambda>m. m) vehicle_udp_schema) [beacon_packet])"
proof -
  have "s_transport vehicle_udp_schema = ''udp''" by (simp add: vehicle_udp_schema_def new_schema_def)
  from decode_command_end_to_end [OF demo_input [OF vehicle_udp_loads beacon_captured] this]
  show ?thesis by (simp add: beacon_facts)
qed

text \<open>A connection: two frames in two segments, the cut inside the first.\<close>

definition cut_bytes :: "byte list" where
  "cut_bytes = frame_bytes (vehicle_frame 1 [7, 8]) @ frame_bytes (vehicle_frame 2 [])"

definition cut_frame :: "u32 \<Rightarrow> byte list \<Rightarrow> byte list" where
  "cut_frame sq pl = tcp_frame (replicate 14 0) (replicate 10 0) [10, 0, 0, 1] [10, 0, 0, 2] []
     4000 9000 sq 0 0x18 (replicate 6 0) [] pl"

definition cut_record :: "u32 \<Rightarrow> byte list \<Rightarrow> capture_record" where
  "cut_record sq pl = (\<lparr>h_tv_sec = 3, h_tv_usec = 0, h_caplen = of_nat (54 + length pl),
     h_len = of_nat (54 + length pl)\<rparr>, cut_frame sq pl)"

definition cut_packet :: "u32 \<Rightarrow> byte list \<Rightarrow> packet" where
  "cut_packet sq pl = (tcp_packet [10, 0, 0, 1] [10, 0, 0, 2] 4000 9000 sq 0 0x18 pl)\<lparr>p_timestamp_us := 3000000\<rparr>"

definition cut_key :: flow_key where
  "cut_key = make_key (cut_packet 100 [])"

definition cut_capture :: "capture_record list" where
  "cut_capture = [cut_record 100 (take 5 cut_bytes), runt_record, cut_record 105 (drop 5 cut_bytes)]"

definition cut_packets :: "packet list" where
  "cut_packets = [cut_packet 100 (take 5 cut_bytes), cut_packet 105 (drop 5 cut_bytes)]"

lemma cut_addresses: "\<not> dotted [10, 0, 0, 2] < dotted [10, 0, 0, 1]" "dotted [10, 0, 0, 1] \<noteq> dotted [10, 0, 0, 2]"
  by (simp_all add: dotted_def show_nat.simps digit_char_def less_char_def)

lemma cut_record_parses:
  assumes "length pl < 1000"
  shows "parse (Some (snd (cut_record sq pl))) (ucast (h_len (fst (cut_record sq pl)))) =
    Inr (Some (tcp_packet [10, 0, 0, 1] [10, 0, 0, 2] 4000 9000 sq 0 0x18 pl))"
proof -
  have len: "length (cut_frame sq pl) = 54 + length pl"
    by (simp add: cut_frame_def tcp_frame_def length_ipv4_bytes length_tcp_bytes)
  have "unat (ucast (of_nat (54 + length pl) :: u32) :: size_t) = 54 + length pl"
    using assms by (simp add: unsigned_ucast_eq unat_of_nat_less take_bit_nat_eq_self del: of_nat_add)
  with len assms show ?thesis
    unfolding cut_record_def fst_conv snd_conv pkthdr.simps
    by (intro parse_tcp_frame [OF _ _ _ _ _ _ _ cut_frame_def]) (simp_all add: ip_options_ok_def)
qed

lemma cut_length: "length cut_bytes = 22"
  by (simp add: cut_bytes_def)

lemma cut_captured: "capture_packets cut_capture = Inr cut_packets"
proof -
  have "length (take 5 cut_bytes) < 1000" "length (drop 5 cut_bytes) < 1000"
    by (simp_all add: cut_bytes_def)
  note cut_record_parses [OF this(1)] cut_record_parses [OF this(2)]
  then show ?thesis
    by (simp add: cut_capture_def runt_ignored)
      (simp add: cut_packets_def cut_packet_def cut_record_def header_timestamp_def)
qed

lemma cut_keys: "make_key (cut_packet n pl) = cut_key" "is_client_side cut_key (cut_packet n pl)"
  "p_timestamp_us (cut_packet n pl) = 3000000" "p_protocol (cut_packet n pl) = TCP"
  "p_tcp_seq (cut_packet n pl) = n" "k_protocol cut_key = TCP"
  using cut_addresses
  by (simp_all add: cut_packet_def tcp_packet_def cut_key_def make_key_def normalized_def is_client_side_def)

lemma cut_payload:
  assumes "pl \<noteq> []" "length pl < 1000"
  shows "payload_bytes (cut_packet n pl) = pl" "has_payload (cut_packet n pl)" "p_payload (cut_packet n pl) = Some pl"
  using assms by (simp_all add: cut_packet_def tcp_packet_def payload_bytes_def has_payload_def)

lemma cut_pieces: "take 5 cut_bytes \<noteq> []" "drop 5 cut_bytes \<noteq> []" "length (take 5 cut_bytes) < 1000"
  "length (drop 5 cut_bytes) < 1000"
  using cut_length by (auto simp flip: length_0_conv)

lemmas cut_piece_facts = cut_keys cut_payload [OF cut_pieces(1,3)] cut_payload [OF cut_pieces(2,4)] cut_length

lemma cut_sides:
  "packets_of cut_key cut_packets = cut_packets" "make_key ` set cut_packets = {cut_key}"
  "client_packets cut_key cut_packets = cut_packets" "server_packets cut_key cut_packets = []"
  by (simp_all add: packets_of_def cut_packets_def cut_keys client_packets_def server_packets_def)

theorem decode_tcp_end_to_end_witness:
  "\<exists>es. main (demo_env vehicle_tree cut_capture) (decode_argv ''gatewayforge'' ''b.pcap'' ''s.yaml'') (0, []) =
      Some (Inr ((0, [loaded_line vehicle_tcp_schema, opened_line ''b.pcap'',
      Out (summary_text 1 1 0), Out (print_timeline es)]), None, (0, []))) \<and>
    mset es = mset (connection_events (\<lambda>m. m) cut_key 3000000
      (map (frame_fields (s_fields vehicle_tcp_schema) []) [vehicle_frame 1 [7, 8], vehicle_frame 2 []]) [])"
proof -
  have "tcp_capture cut_packets" by (simp add: tcp_capture_def cut_packets_def cut_piece_facts)
  moreover have "carries_frames vehicle_tcp_schema (s_fields vehicle_tcp_schema) cut_packets
      [vehicle_frame 1 [7, 8], vehicle_frame 2 []]"
    unfolding carries_frames_def
  proof (intro conjI exI [of _ "100 :: u32"] exI [of _ "vehicle_frame 3 []"] exI [of _ "0 :: nat"])
    show "contiguous 100 cut_packets" by (simp add: cut_packets_def cut_piece_facts)
    have "concat (map payload_bytes cut_packets) = cut_bytes" by (simp add: cut_packets_def cut_piece_facts)
    then show "concat (map payload_bytes cut_packets) =
        concat (map frame_bytes [vehicle_frame 1 [7, 8], vehicle_frame 2 []]) @ take 0 (frame_bytes (vehicle_frame 3 []))"
      "length (concat (map payload_bytes cut_packets)) < 2 ^ 63"
      by (simp_all add: cut_bytes_def)
  qed (simp_all add: vehicle_frame_ok)
  ultimately show ?thesis
    using decode_tcp_end_to_end [OF demo_input [OF vehicle_tcp_loads cut_captured] vehicle_stream,
        of "\<lambda>_. [vehicle_frame 1 [7, 8], vehicle_frame 2 []]" "\<lambda>_. []" "''gatewayforge''" "(0, [])"]
    by (simp add: cut_sides demo_carries(2)) (simp add: cut_packets_def cut_keys, blast)
qed

section \<open>Schemas that do not load\<close>

lemma decode_rejects:
  assumes "file_name f" "file_name sp" and "load_from_yaml (e_yaml env) sp = Inr (err new_schema e)"
  shows "main env (decode_argv prog f sp) w =
    Some (Inr ((1, [Errs (''Failed to load schema: '' @ e @ newline)]), None, w))"
proof -
  obtain args where args: "get_or args ''pcap'' [] = f" "get_or args ''schema'' [] = sp"
    "main env (decode_argv prog f sp) w = rbind (cmd_decode env args) (\<lambda>(code, cs). Some (Inr ((code, emit info_logger cs), None, w)))"
    using main_decode [where env = env and prog = prog and w = w, OF assms(1,2)] by (elim exE conjE)
  have "cmd_decode env args = Some (Inr (1, [Errs (''Failed to load schema: '' @ e @ newline)]))"
    unfolding cmd_decode_def Let_def args(1,2) assms(3)
    using assms(1,2) by (simp add: file_name_def load_log_def)
  then show ?thesis unfolding args(3) by (simp add: emit_loud)
qed

text \<open>C37: A field of unknown type stops the decode command: when the schema file is well-formed up to a field
  whose type is none of the ten, the program exits with 1 and a message that names the type, prints no
  report, and does not depend on the capture file in any way.\<close>

theorem unknown_type_is_reported:
  assumes "file_name f" "file_name sp" and "bad_field_type (e_yaml env) sp t"
  shows "main env (decode_argv prog f sp) w = Some (Inr ((1, [Errs
    (''Failed to load schema: '' @ (''Schema load error: Unknown field type: '' @ t) @ newline)]), None, w))"
  by (rule decode_rejects [OF assms(1,2) bad_field_type_reported [OF assms(3)]])

theorem unknown_type_is_reported_witness:
  "main (demo_env misspelt_tree []) (decode_argv ''gatewayforge'' ''b.pcap'' ''s.yaml'') (0, []) =
    Some (Inr ((1, [Errs (''Failed to load schema: Schema load error: Unknown field type: uint32'' @ newline)]), None, (0, [])))"
  using unknown_type_is_reported [of "''b.pcap''" "''s.yaml''" "demo_env misspelt_tree []" "''uint32''" "''gatewayforge''" "(0, [])"]
  by (simp add: misspelt_type file_name_def plain_value_def starts_with_def)

end
