(* ===== verification/Decode_Totality.thy ===== *)
theory Decode_Totality
  imports Decode_Runs
begin

text \<open>
  The command \<^verbatim>\<open>decode\<close> on arbitrary captures: any protocols, any order, any payloads, any schema
  under which the decoder returns. It completes on every capture whose packets all have a payload
  buffer, and ends in a null dereference on every other one.
\<close>

section \<open>Streams and datagrams\<close>

definition small_capture :: "packet list \<Rightarrow> bool" where
  "small_capture ps \<longleftrightarrow> length (concat (map payload_bytes ps)) < 2 ^ 63"

lemma small_capture_filter: "small_capture ps \<Longrightarrow> small_capture (filter P ps)"
  unfolding small_capture_def by (rule le_less_trans [OF length_concat_filter])

lemma small_capture_packets_of: "small_capture ps \<Longrightarrow> small_capture (packets_of k ps)"
  by (simp add: packets_of_def small_capture_filter)

lemma payload_le_concat: "p \<in> set ps \<Longrightarrow> length (payload_bytes p) \<le> length (concat (map payload_bytes ps))"
  by (induction ps) auto

lemma small_capture_payload:
  assumes "small_capture ps" and "p \<in> set ps" "p_payload p \<noteq> None"
  shows "small_payload p" "has_payload p"
proof -
  have "length (payload_bytes p) < 2 ^ 63"
    using assms(1) payload_le_concat [OF assms(2)] unfolding small_capture_def by (rule le_less_trans [rotated])
  with assms(3) show "small_payload p" "has_payload p"
    by (auto simp: small_payload_def has_payload_def payload_bytes_def)
qed

lemma add_segment_length:
  "add_segment p dir r = Inr r' \<Longrightarrow> length (r_stream r') \<le> length (r_stream r) + length (payload_bytes p)"
  by (auto simp: add_segment_def Let_def obind_eq_Inr payload_def payload_bytes_def split: if_splits option.splits)

lemma feed_length:
  "feed ps dir r = Inr r' \<Longrightarrow> length (r_stream r') \<le> length (r_stream r) + length (concat (map payload_bytes ps))"
proof (induction ps arbitrary: r)
  case (Cons p ps)
  then obtain r1 where "add_segment p dir r = Inr r1" "feed ps dir r1 = Inr r'" by (auto simp: obind_eq_Inr)
  with Cons.IH add_segment_length show ?case by fastforce
qed simp

lemma stream_events_total:
  assumes "returning_schema s" and "length stream < 2 ^ 63"
  shows "\<exists>es. stream_events ford s ts dir stream src dst = Some (Inr es)"
proof -
  have "valid_object stream (of_nat (length stream))"
    using assms(2) by (simp add: valid_object_def unat_of_nat_less)
  from decode_answers [OF assms(1) this] show ?thesis by (auto simp: stream_events_def decode_to_messages_def)
qed

lemma datagram_events_total:
  assumes "returning_schema s" and "small_payload p"
  shows "\<exists>es. datagram_events ford s p = Some (Inr es)"
  using decode_answers [OF assms(1) small_payload_object [OF assms(2)]] assms(2)
  by (auto simp: datagram_events_def decode_to_messages_def small_payload_def)

lemma datagram_events_bare: "p_payload p = None \<Longrightarrow> datagram_events ford s p = Some (Inl Null_Deref)"
  by (simp add: datagram_events_def payload_null)

section \<open>Flows\<close>

text \<open>What the packets of one conversation contribute: events, or the fault of a bare datagram.\<close>

lemma tcp_flow_events_total:
  assumes "returning_schema s" and "small_capture qs" "run_flow qs (Tcp_Flow (new_tcp_flow k)) = Inr f"
  shows "\<exists>es. flow_events ford s f = Some (Inr es)"
proof -
  obtain g where g: "f = Tcp_Flow g" "ofold tcp_on_packet qs (new_tcp_flow k) = Inr g"
    using assms(3) by (auto simp: run_flow_def tcp_dispatch obind_eq_Inr)
  have short: "length (r_stream r) < 2 ^ 63" if "feed (filter P qs) dir new_reassembler = Inr r" for P dir r
    using feed_length [OF that] small_capture_filter [OF assms(2), of P]
    by (simp add: new_reassembler_def small_capture_def)
  have "length (r_stream (tf_client_to_server g)) < 2 ^ 63" "length (r_stream (tf_server_to_client g)) < 2 ^ 63"
    using tcp_run_sides [OF g(2)] short by (auto simp: new_tcp_flow_def)
  from stream_events_total [OF assms(1) this(1)] stream_events_total [OF assms(1) this(2)]
  show ?thesis by (metis (no_types, lifting) g(1) flow_events.simps(1) rbind_simps(3) client_to_server_def server_to_client_def)
qed

lemma udp_flow_events_total:
  assumes "returning_schema s" and "small_capture qs" "run_flow qs (Udp_Flow (new_udp_flow k)) = Inr f"
  shows "\<forall>p \<in> set qs. p_payload p \<noteq> None \<Longrightarrow> \<exists>es. flow_events ford s f = Some (Inr es)"
    "\<exists>p \<in> set qs. p_payload p = None \<Longrightarrow> flow_events ford s f = Some (Inl Null_Deref)"
proof -
  obtain g where g: "f = Udp_Flow g" "u_datagrams (uf_tracker g) = qs"
    using udp_flow_of_packets [OF assms(3)] by blast
  have each: "(p_payload p = None \<and> datagram_events ford s p = Some (Inl Null_Deref)) \<or>
      (p_payload p \<noteq> None \<and> (\<exists>es. datagram_events ford s p = Some (Inr es)))" if "p \<in> set qs" for p
    using datagram_events_bare datagram_events_total [OF assms(1) small_capture_payload(1) [OF assms(2) that]]
    by blast
  show "\<exists>es. flow_events ford s f = Some (Inr es)" if "\<forall>p \<in> set qs. p_payload p \<noteq> None"
  proof -
    have "\<forall>p \<in> set qs. \<exists>es. datagram_events ford s p = Some (Inr es)" using that each by blast
    from collect_total [OF this, of "[]"] show ?thesis by (simp add: g)
  qed
  show "flow_events ford s f = Some (Inl Null_Deref)" if "\<exists>p \<in> set qs. p_payload p = None"
  proof -
    have "collect (datagram_events ford s) qs [] = Some (Inl Null_Deref)"
      by (rule collect_fault) (use that each in blast)+
    then show ?thesis by (simp add: g)
  qed
qed

section \<open>The command\<close>

lemma build_total:
  assumes s: "returning_schema s" and ps: "small_capture ps" "\<forall>p \<in> set ps. trackable p"
    and orders: "iteration_order ord" "event_sorter srt" and t: "track ps = Inr t"
  shows "\<forall>p \<in> set ps. p_payload p \<noteq> None \<Longrightarrow> \<exists>es. build ord ford srt s t = Some (Inr es) \<and> sorted (map te_timestamp_us es)"
    "\<exists>p \<in> set ps. p_payload p = None \<Longrightarrow> build ord ford srt s t = Some (Inl Null_Deref)"
proof -
  have tab: "set (map fst t) = make_key ` set ps" "\<forall>(k, f) \<in> set t. run_flow (packets_of k ps) (new_flow k) = Inr f"
    using track_table [OF ps(2)] t by auto
  have flow: "if \<forall>p \<in> set (packets_of k ps). p_payload p \<noteq> None then \<exists>es. flow_events ford s f = Some (Inr es)
      else flow_events ford s f = Some (Inl Null_Deref)" if kf: "(k, f) \<in> set t" for k f
  proof -
    have run: "run_flow (packets_of k ps) (new_flow k) = Inr f" using tab(2) kf by auto
    obtain p where p: "p \<in> set ps" "k = make_key p" using tab(1) kf by force
    show ?thesis
    proof (cases "k_protocol k = TCP")
      case True
      have "p_payload q \<noteq> None" if q: "q \<in> set (packets_of k ps)" for q
      proof -
        have "q \<in> set ps" "p_protocol q = TCP" using q True by (auto simp: packets_of_def)
        with ps(2) have "has_payload q" by (auto simp: trackable_def)
        then show ?thesis by (cases "p_payload q") (simp_all add: has_payload_def)
      qed
      with True tcp_flow_events_total [OF s small_capture_packets_of [OF ps(1)]] run show ?thesis
        by (simp add: new_flow_def)
    next
      case False
      with udp_flow_events_total [OF s small_capture_packets_of [OF ps(1)]] run show ?thesis
        by (auto simp: new_flow_def)
    qed
  qed
  have flows: "set (get_flows ord t) = snd ` set t" by (rule get_flows_set [OF orders(1)])
  show "\<exists>es. build ord ford srt s t = Some (Inr es) \<and> sorted (map te_timestamp_us es)"
    if "\<forall>p \<in> set ps. p_payload p \<noteq> None"
  proof -
    have "\<exists>es. flow_events ford s f = Some (Inr es)" if "f \<in> set (get_flows ord t)" for f
      using flow that \<open>\<forall>p \<in> set ps. p_payload p \<noteq> None\<close> by (fastforce simp: flows packets_of_def)
    then obtain es where "collect (flow_events ford s) (get_flows ord t) [] = Some (Inr es)"
      using collect_total [of "get_flows ord t"] by blast
    with sorted_events(2) [OF orders(2)] show ?thesis by (simp add: build_def)
  qed
  show "build ord ford srt s t = Some (Inl Null_Deref)" if bare: "\<exists>p \<in> set ps. p_payload p = None"
  proof -
    obtain p where p: "p \<in> set ps" "p_payload p = None" using bare by blast
    then obtain f where f: "(make_key p, f) \<in> set t" using tab(1) by force
    have "p \<in> set (packets_of (make_key p) ps)" using p(1) by (simp add: packets_of_def)
    with flow [OF f] p(2) have "flow_events ford s f = Some (Inl Null_Deref)" by (auto split: if_splits)
    with f have "\<exists>f \<in> set (get_flows ord t). flow_events ford s f = Some (Inl Null_Deref)"
      unfolding flows by force
    moreover have "\<forall>f \<in> set (get_flows ord t). flow_events ford s f = Some (Inl Null_Deref) \<or>
        (\<exists>es. flow_events ford s f = Some (Inr es))"
      using flow by (fastforce simp: flows split: if_splits)
    ultimately have "collect (flow_events ford s) (get_flows ord t) [] = Some (Inl Null_Deref)"
      by (rule collect_fault [rotated])
    then show ?thesis by (simp add: build_def)
  qed
qed

text \<open>Tracking fails at the first segment without payload.\<close>

lemma track_bare:
  assumes "small_capture ps" "\<forall>p \<in> set ps. p_protocol p \<noteq> UNKNOWN" and "\<not> (\<forall>p \<in> set ps. trackable p)"
  shows "track ps = Inl Null_Deref"
proof -
  from assms(3) obtain as p bs where split: "ps = as @ p # bs" "\<not> trackable p" "\<forall>q \<in> set as. trackable q"
    using split_list_first_prop [of ps "\<lambda>p. \<not> trackable p"] by blast
  then have p: "p_protocol p = TCP"
    using assms(2) by (cases "p_protocol p") (auto simp: trackable_def)
  have "p \<in> set ps" "\<not> has_payload p" using split p by (simp_all add: trackable_def)
  then have "p_payload p = None" using small_capture_payload(2) [OF assms(1)] by blast
  obtain t where t: "track as = Inr t" using split(3) track_demultiplexed by blast
  from bare_segment [OF track_inv [OF t] p \<open>p_payload p = None\<close>] t show ?thesis
    by (simp add: track_def split(1) ofold_append)
qed

lemma decode_total:
  assumes inp: "decode_input env f sp s ps" and s: "returning_schema s" and ps: "small_capture ps"
  shows "\<exists>p \<in> set ps. p_payload p = None \<Longrightarrow> main env (decode_argv prog f sp) w = Some (Inl Null_Deref)"
    and "\<forall>p \<in> set ps. p_payload p \<noteq> None \<Longrightarrow> \<exists>t es. track ps = Inr t \<and> sorted (map te_timestamp_us es) \<and>
      main env (decode_argv prog f sp) w =
        Some (Inr ((0, [loaded_line s, opened_line f, Out (flow_report (e_iteration env) t), Out (print_timeline es)]), None, w))"
proof -
  obtain rs where rs: "capture_packets rs = Inr ps" and orders: "iteration_order (e_iteration env)" "event_sorter (e_sorter env)"
    using inp by (auto simp: decode_input_def)
  have known: "\<forall>p \<in> set ps. p_protocol p \<noteq> UNKNOWN" using captured_protocol [OF rs] by blast
  have run: "main env (decode_argv prog f sp) w = rbind (Some (track ps)) (\<lambda>t.
      rbind (build (e_iteration env) (e_field_order env) (e_sorter env) s t) (\<lambda>es.
        Some (Inr ((0, [loaded_line s, opened_line f, Out (flow_report (e_iteration env) t), Out (print_timeline es)]), None, w))))"
    using decode_run [OF inp] decode_callback_track [of ps "[]"] known by (simp add: track_def)
  have tracked: "\<exists>t. track ps = Inr t" if "\<forall>p \<in> set ps. trackable p" using track_demultiplexed that by blast
  show "main env (decode_argv prog f sp) w = Some (Inl Null_Deref)" if bare: "\<exists>p \<in> set ps. p_payload p = None"
  proof (cases "\<forall>p \<in> set ps. trackable p")
    case True
    then obtain t where t: "track ps = Inr t" using tracked by blast
    from build_total(2) [OF s ps True orders t bare] show ?thesis by (simp add: run t)
  qed (simp add: run track_bare [OF ps known])
  show "\<exists>t es. track ps = Inr t \<and> sorted (map te_timestamp_us es) \<and> main env (decode_argv prog f sp) w =
      Some (Inr ((0, [loaded_line s, opened_line f, Out (flow_report (e_iteration env) t), Out (print_timeline es)]), None, w))"
    if all: "\<forall>p \<in> set ps. p_payload p \<noteq> None"
  proof -
    have tr: "\<forall>p \<in> set ps. trackable p"
    proof
      fix p assume "p \<in> set ps"
      then show "trackable p"
        using all known small_capture_payload(2) [OF ps] by (cases "p_protocol p") (auto simp: trackable_def)
    qed
    then obtain t where t: "track ps = Inr t" using tracked by blast
    from build_total(1) [OF s ps tr orders t all] obtain es where
      "build (e_iteration env) (e_field_order env) (e_sorter env) s t = Some (Inr es)" "sorted (map te_timestamp_us es)"
      by blast
    then show ?thesis by (auto simp: run t)
  qed
qed

end
