(* ===== verification/Replay_Pacing.thy ===== *)
theory Replay_Pacing
  imports Replay
begin

text \<open>
  When a replay sends (\<^verbatim>\<open>src/replay/ReplayEngine.cpp\<close>): the instants at which a run of the
  engine hands its payloads to the socket, against the timestamps of the capture.
\<close>

section \<open>Sleeping\<close>

text \<open>What a sleep promises: it does not end early (for times below 2^54 microseconds, 570 years).\<close>

definition clock_ok :: "'w net \<Rightarrow> bool" where
  "clock_ok net \<longleftrightarrow> (\<forall>d w. unat (time_now_us (net_now_ns net w)) + unat d < 2 ^ 54 \<longrightarrow>
     unat (time_now_us (net_now_ns net w)) + unat d \<le> unat (time_now_us (net_now_ns net (net_sleep_us net d w))))"

lemma sint_small: "unat (d :: u64) < 2 ^ 63 \<Longrightarrow> sint d = int (unat d)"
proof -
  have "sint (of_nat n :: u64) = int n" if "n < 2 ^ 63" for n
    using that by (simp add: signed_of_nat signed_take_bit_int_eq_self)
  from this [of "unat d"] show "unat d < 2 ^ 63 \<Longrightarrow> sint d = int (unat d)" by simp
qed

lemma waited_reaches:
  assumes "clock_ok net" and "unat (send_target net scale p st) < 2 ^ 54"
  shows "unat (send_target net scale p st) \<le> unat (time_now_us (net_now_ns net (waited net scale p st)))"
proof (cases "time_now_us (net_now_ns net (en_world st)) < send_target net scale p st")
  case True
  let ?now = "time_now_us (net_now_ns net (en_world st))" and ?t = "send_target net scale p st"
  have "unat (?t - ?now) = unat ?t - unat ?now" "unat ?now < unat ?t"
    using True by (auto simp: size_sub_nat word_less_nat_alt word_le_nat_alt)
  then have sum: "unat ?now + unat (?t - ?now) = unat ?t" by simp
  then have "unat (?t - ?now) < 2 ^ 63" using assms(2) by simp
  from sint_small [OF this] have "0 < sint (?t - ?now)"
    using \<open>unat (?t - ?now) = unat ?t - unat ?now\<close> \<open>unat ?now < unat ?t\<close> by linarith
  then have "waited net scale p st = net_sleep_us net (?t - ?now) (en_world st)"
    using True by (simp add: waited_def sleep_for_def Let_def)
  with sum assms show ?thesis by (simp add: clock_ok_def) (metis)
qed (simp add: waited_def Let_def word_less_nat_alt)

section \<open>Observed sends\<close>

text \<open>
  An observer's log of the calls to \<open>send\<close> and \<open>sendto\<close>: the time of each call and its data,
  whatever the call then reports. Nothing else is logged.
\<close>

definition net_logs :: "'w net \<Rightarrow> ('w \<Rightarrow> (u64 \<times> byte list) list) \<Rightarrow> bool" where
  "net_logs net log \<longleftrightarrow>
     (\<forall>s bs w. log (snd (net_send net s bs w)) = log w @ [(time_now_us (net_now_ns net w), bs)]) \<and>
     (\<forall>s bs a w. log (snd (net_sendto net s bs a w)) = log w @ [(time_now_us (net_now_ns net w), bs)]) \<and>
     (\<forall>t w. log (net_sleep_us net t w) = log w)"

text \<open>A network on which nothing fails: every call succeeds and every send takes all its data.\<close>

definition net_reliable :: "'w net \<Rightarrow> bool" where
  "net_reliable net \<longleftrightarrow> (\<forall>b w. 0 \<le> fst (net_socket net b w)) \<and> (\<forall>s a w. 0 \<le> fst (net_connect net s a w)) \<and>
     (\<forall>s bs w. fst (net_send net s bs w) = int (length bs)) \<and>
     (\<forall>s bs a w. fst (net_sendto net s bs a w) = int (length bs))"

text \<open>
  A sender that is ready makes exactly one call for each packet, and reports success where the
  network is reliable.
\<close>

locale ready_replayer = replayer_class send
  for send :: "'w net \<Rightarrow> 'r \<Rightarrow> packet \<Rightarrow> 'w \<Rightarrow> (bool \<times> 'w) outcome" +
  fixes ready :: "'r \<Rightarrow> bool"
  assumes send_logged: "sendable p \<Longrightarrow> ready r \<Longrightarrow> net_logs net log \<Longrightarrow> send net r p w = Inr (b, w') \<Longrightarrow>
    log w' = log w @ [(time_now_us (net_now_ns net w), payload_bytes p)]"
    and send_succeeds: "sendable p \<Longrightarrow> ready r \<Longrightarrow> net_reliable net \<Longrightarrow> send net r p w = Inr (b, w') \<Longrightarrow> b"
begin

text \<open>On a reliable network the whole capture is delivered.\<close>

lemma run_delivers:
  assumes "\<forall>p \<in> set ps. sendable p" "convertible scale (en_base_ts st) ps" and r: "ready r"
    and net: "net_ok net wire" "net_reliable net"
  shows "\<exists>st'. ofold (engine_step net (send net r) scale) ps st = Inr st' \<and>
    wire (en_world st') = wire (en_world st) @ map payload_bytes (filter replayable ps)"
  using assms(1,2)
proof (induction ps arbitrary: st)
  case (Cons p ps)
  then have p: "sendable p" by simp
  show ?case
  proof (cases "replayable p")
    case False
    with step_skips [OF p] Cons show ?thesis by simp
  next
    case True
    let ?w1 = "waited net scale p st"
    have conv: "can_wait scale (en_base_ts st) p" "convertible scale (next_base p st) ps"
      using Cons.prems(2) True by (simp_all add: next_base_def)
    have ne: "payload_bytes p \<noteq> []" using True by (simp add: replayable_def)
    have w1: "wire ?w1 = wire (en_world st)" using net(1) by (simp add: waited_def sleep_for_def Let_def net_ok_def)
    obtain b w2 where s: "send net r p ?w1 = Inr (b, w2)" using send_total [OF p] by blast
    have "wire w2 = wire (en_world st) @ [payload_bytes p]"
      using send_delivers [OF p ne net(1) s] send_succeeds [OF p r net(2) s] ne w1 by auto
    moreover obtain st1 where "engine_step net (send net r) scale p st = Inr st1" "en_world st1 = w2"
      "en_base_ts st1 = next_base p st"
      using s by (simp add: engine_step_send [OF p True conv(1)])
    ultimately show ?thesis using Cons.IH [of st1] Cons.prems(1) True conv(2) by auto
  qed
qed simp

text \<open>One packet that is sent, by the time the log shows.\<close>

lemma step_logged:
  assumes p: "sendable p" "replayable p" "can_wait scale (en_base_ts st) p" and r: "ready r"
    and net: "clock_ok net" "net_logs net log"
    and bound: "unat (send_target net scale p st) < 2 ^ 54"
  shows "\<exists>st' t. engine_step net (send net r) scale p st = Inr st' \<and>
    log (en_world st') = log (en_world st) @ [(t, payload_bytes p)] \<and>
    unat (send_target net scale p st) \<le> unat t \<and>
    en_base_ts st' = next_base p st \<and> en_start_us st' = Some (next_start net st)"
proof -
  let ?w1 = "waited net scale p st"
  have "log ?w1 = log (en_world st)" using net(2) by (simp add: waited_def sleep_for_def Let_def net_logs_def)
  moreover obtain b w2 where s: "send net r p ?w1 = Inr (b, w2)" using send_total [OF p(1)] by blast
  ultimately have "log w2 = log (en_world st) @ [(time_now_us (net_now_ns net ?w1), payload_bytes p)]"
    using send_logged [OF p(1) r net(2) s] by simp
  with s waited_reaches [OF net(1) bound] show ?thesis by (auto simp: engine_step_send [OF p])
qed

text \<open>
  A run whose base time and start time are set already: every packet is sent at its
  instant or after it.
\<close>

lemma run_logged:
  assumes "\<forall>p \<in> set ps. sendable p" and r: "ready r" and net: "clock_ok net" "net_logs net log"
    and "convertible scale base ps" "en_base_ts st = base" "base \<noteq> 0" "en_start_us st = Some start"
    and "\<forall>p \<in> set (filter replayable ps). unat (start + wait_of scale (p_timestamp_us p - base)) < 2 ^ 54"
  shows "\<exists>st' ts. ofold (engine_step net (send net r) scale) ps st = Inr st' \<and>
    log (en_world st') = log (en_world st) @ zip ts (map payload_bytes (filter replayable ps)) \<and>
    list_all2 (\<lambda>p t. unat (start + wait_of scale (p_timestamp_us p - base)) \<le> unat t) (filter replayable ps) ts"
  using assms(1,5,6,8,9)
proof (induction ps arbitrary: st)
  case Nil
  show ?case by (auto intro!: exI [of _ "[]"])
next
  case (Cons p ps)
  show ?case
  proof (cases "replayable p")
    case False
    with step_skips [of p net r scale st] Cons show ?thesis by simp
  next
    case True
    have t: "send_target net scale p st = start + wait_of scale (p_timestamp_us p - base)"
      using Cons.prems assms(7) by (simp add: send_target_def next_start_def next_base_def base_after_def)
    obtain st1 t where 1: "engine_step net (send net r) scale p st = Inr st1"
      "log (en_world st1) = log (en_world st) @ [(t, payload_bytes p)]"
      "unat (start + wait_of scale (p_timestamp_us p - base)) \<le> unat t"
      "en_base_ts st1 = base" "en_start_us st1 = Some start"
      using step_logged [OF _ True _ r net, of scale st] Cons.prems True assms(7)
      by (auto simp: t next_base_def base_after_def next_start_def)
    have "convertible scale base ps" using Cons.prems(2) True assms(7) by (simp add: base_after_def)
    from Cons.IH [OF _ this 1(4,5)] Cons.prems True obtain st' ts where
      2: "ofold (engine_step net (send net r) scale) ps st1 = Inr st'"
        "log (en_world st') = log (en_world st1) @ zip ts (map payload_bytes (filter replayable ps))"
        "list_all2 (\<lambda>p t. unat (start + wait_of scale (p_timestamp_us p - base)) \<le> unat t) (filter replayable ps) ts"
      by auto
    show ?thesis
      by (rule exI [of _ st'], rule exI [of _ "t # ts"]) (use 1 2 True in simp)
  qed
qed

text \<open>A whole run: the first packet sent fixes the base time, and the start time unless it is set.\<close>

lemma run_paced:
  assumes ps: "\<forall>p \<in> set ps. sendable p" "convertible scale 0 ps" and r: "ready r" and net: "clock_ok net" "net_logs net log"
    and first: "filter replayable ps = q # qs" "p_timestamp_us q \<noteq> 0" "en_base_ts st = 0"
    and bound: "\<forall>p \<in> set (q # qs). unat (next_start net st + wait_of scale (p_timestamp_us p - p_timestamp_us q)) < 2 ^ 54"
  shows "\<exists>st' ts. ofold (engine_step net (send net r) scale) ps st = Inr st' \<and>
    log (en_world st') = log (en_world st) @ zip ts (map payload_bytes (q # qs)) \<and>
    list_all2 (\<lambda>p t. unat (next_start net st + wait_of scale (p_timestamp_us p - p_timestamp_us q)) \<le> unat t) (q # qs) ts"
  using ps first(1)
proof (induction ps)
  case (Cons p ps)
  show ?case
  proof (cases "replayable p")
    case False
    with step_skips [of p net r scale st] Cons show ?thesis by simp
  next
    case True
    with Cons.prems(3) have p: "p = q" "qs = filter replayable ps" by simp_all
    have t: "send_target net scale q st = next_start net st + wait_of scale (p_timestamp_us q - p_timestamp_us q)"
      using first(3) by (simp add: send_target_def next_base_def base_after_def)
    obtain st1 t where 1: "engine_step net (send net r) scale q st = Inr st1"
      "log (en_world st1) = log (en_world st) @ [(t, payload_bytes q)]"
      "unat (next_start net st + wait_of scale (p_timestamp_us q - p_timestamp_us q)) \<le> unat t"
      "en_base_ts st1 = p_timestamp_us q" "en_start_us st1 = Some (next_start net st)"
      using step_logged [OF _ _ _ r net, of q scale st] Cons.prems(1,2) bound True first(3)
      by (auto simp: t p(1) next_base_def base_after_def)
    have "convertible scale (p_timestamp_us q) ps"
      using Cons.prems(2) True by (simp add: p(1) base_after_def)
    from run_logged [OF _ r net this 1(4) first(2) 1(5)] Cons.prems bound obtain st' ts where
      2: "ofold (engine_step net (send net r) scale) ps st1 = Inr st'"
        "log (en_world st') = log (en_world st1) @ zip ts (map payload_bytes qs)"
        "list_all2 (\<lambda>p t. unat (next_start net st + wait_of scale (p_timestamp_us p - p_timestamp_us q)) \<le> unat t) qs ts"
      unfolding p(2) by auto
    show ?thesis
      by (rule exI [of _ st'], rule exI [of _ "t # ts"]) (use 1 2 p(1) in simp)
  qed
qed simp

end

primrec replayer_ready :: "replayer \<Rightarrow> bool" where
  "replayer_ready (Tcp_Replayer r) \<longleftrightarrow> tr_connected r"
| "replayer_ready (Udp_Replayer r) \<longleftrightarrow> 0 \<le> ur_sock r"

interpretation tcp_ready: ready_replayer tcp_send tr_connected
proof unfold_locales
  fix p :: packet and r net w b w' log
  assume p: "sendable p" and r: "tr_connected r" and s: "tcp_send net r p w = Inr (b, w')"
  have call: "snd (net_send net (tr_sock r) (payload_bytes p) w) = w'"
    and b: "b \<longleftrightarrow> fst (net_send net (tr_sock r) (payload_bytes p) w) = int (length (payload_bytes p))"
    using p r s by (auto simp: tcp_send_def sendable_def sint_size [OF p] split: prod.splits)
  show "log w' = log w @ [(time_now_us (net_now_ns net w), payload_bytes p)]" if "net_logs net log"
    using that call by (auto simp: net_logs_def)
  show b if "net_reliable net" using that b by (simp add: net_reliable_def)
qed

interpretation udp_ready: ready_replayer udp_send "\<lambda>r. 0 \<le> ur_sock r"
proof unfold_locales
  fix p :: packet and r net w b w' log
  assume p: "sendable p" and r: "0 \<le> ur_sock r" and s: "udp_send net r p w = Inr (b, w')"
  let ?to = "make_addr net (ur_host r) (ur_port r)"
  have call: "snd (net_sendto net (ur_sock r) (payload_bytes p) ?to w) = w'"
    and b: "b \<longleftrightarrow> fst (net_sendto net (ur_sock r) (payload_bytes p) ?to w) = int (length (payload_bytes p))"
    using p r s by (auto simp: udp_send_def sendable_def sint_size [OF p] split: prod.splits)
  show "log w' = log w @ [(time_now_us (net_now_ns net w), payload_bytes p)]" if "net_logs net log"
    using that call by (auto simp: net_logs_def)
  show b if "net_reliable net" using that b by (simp add: net_reliable_def)
qed

interpretation rep_ready: ready_replayer replayer_send replayer_ready
proof unfold_locales
  fix p r net log w b w'
  assume s: "sendable p" "replayer_ready r" "replayer_send net r p w = Inr (b, w')"
  then show "log w' = log w @ [(time_now_us (net_now_ns net w), payload_bytes p)]" if "net_logs net log"
    using that tcp_ready.send_logged udp_ready.send_logged by (cases r) simp_all
  show b if "net_reliable net"
    using s that tcp_ready.send_succeeds udp_ready.send_succeeds by (cases r) auto
qed

section \<open>Pacing\<close>

text \<open>C31: Pacing: over a whole run, with a sender that is connected and quotients that convert, every payload of the capture is
  handed to the socket in order, and none before its instant, the start time plus the scaled
  distance of its timestamp from that of the first packet sent. The start time is that of the
  first send of the process, so a second replay is paced against the start of the first one.\<close>

theorem replay_is_never_early:
  assumes "\<forall>p \<in> set ps. sendable p" "convertible scale 0 ps" and "replayer_ready r" and "clock_ok net" "net_logs net log"
    and "filter replayable ps = q # qs" "p_timestamp_us q \<noteq> 0" "en_base_ts st = 0"
    and "start = (case en_start_us st of None \<Rightarrow> time_now_us (net_now_ns net (en_world st)) | Some t \<Rightarrow> t)"
    and "\<forall>p \<in> set (q # qs). unat (start + wait_of scale (p_timestamp_us p - p_timestamp_us q)) < 2 ^ 54"
  shows "\<exists>st' ts. ofold (engine_step net (replayer_send net r) scale) ps st = Inr st' \<and>
    log (en_world st') = log (en_world st) @ zip ts (map payload_bytes (q # qs)) \<and>
    list_all2 (\<lambda>p t. unat (start + wait_of scale (p_timestamp_us p - p_timestamp_us q)) \<le> unat t) (q # qs) ts"
  using rep_ready.run_paced [OF assms(1-8)] assms(9,10) by (simp add: next_start_def)

text \<open>A network that logs its calls; the clock counts nanoseconds and sleeping is exact.\<close>

definition log_net :: "(u64 \<times> (u64 \<times> byte list) list) net" where
  "log_net = \<lparr>net_errno = (\<lambda>_. []), net_socket = (\<lambda>_ w. (3, w)), net_connect = (\<lambda>_ _ w. (0, w)),
     net_send = (\<lambda>_ bs (t, out). (int (length bs), (t, out @ [(time_now_us t, bs)]))),
     net_sendto = (\<lambda>_ bs _ (t, out). (int (length bs), (t, out @ [(time_now_us t, bs)]))),
     net_close = (\<lambda>_ w. w), net_pton = (\<lambda>_. Some 0), net_clock_ns = (\<lambda>(t, _). uint t),
     net_sleep_us = (\<lambda>d (t, out). (t + d * 1000, out))\<rparr>"

lemma exact_sleep:
  assumes "unat (t div 1000) + unat d < 2 ^ 54"
  shows "unat (t div 1000) + unat d \<le> unat ((t + d * 1000) div (1000 :: u64))"
proof -
  have t: "unat t div 1000 + unat d < 2 ^ 54" using assms by (simp add: unat_div)
  then have "unat d * 1000 < 2 ^ 64" and sum: "unat t + unat d * 1000 < 2 ^ 64" by simp_all
  then have "unat (d * 1000) = unat d * 1000" by (simp add: unat_word_ariths)
  then have "unat (t + d * 1000) = unat t + unat d * 1000"
    using sum by (subst size_add_nat) simp_all
  then show ?thesis by (simp add: unat_div)
qed

lemma log_net_ok: "clock_ok log_net" "net_logs log_net snd"
  using exact_sleep by (auto simp: clock_ok_def net_logs_def log_net_def net_now_ns_def time_now_ns_def time_now_us_def split: prod.split)

theorem replay_is_never_early_witness:
  "\<exists>st' t1 t2. ofold (engine_step log_net (replayer_send log_net (Tcp_Replayer \<lparr>tr_sock = 3, tr_connected = True\<rparr>))
      (\<lambda>e. Inr e)) replay_demo (engine_start (5000, [])) = Inr st' \<and>
    snd (en_world st') = [(t1, [7]), (t2, [8, 9])] \<and> 5 \<le> unat t1 \<and> 25 \<le> unat t2"
proof -
  let ?r = "Tcp_Replayer \<lparr>tr_sock = 3, tr_connected = True\<rparr>" and ?st = "engine_start (5000, []) :: (u64 \<times> (u64 \<times> byte list) list) engine_state"
  let ?q = "(tcp_segment 1 [7])\<lparr>p_timestamp_us := 10\<rparr>" and ?p = "(tcp_segment 2 [8, 9])\<lparr>p_timestamp_us := 30\<rparr>"
  have start: "5 = (case en_start_us ?st of None \<Rightarrow> time_now_us (net_now_ns log_net (en_world ?st)) | Some t \<Rightarrow> t)"
    by (simp add: engine_start_def log_net_def net_now_ns_def time_now_ns_def time_now_us_def)
  have sent: "filter replayable replay_demo = [?q, ?p]"
    by (simp add: replay_demo_def replayable_def payload_bytes_def tcp_segment_def)
  have stamps: "p_timestamp_us ?q = 10" "p_timestamp_us ?p = 30" "payload_bytes ?q = [7]" "payload_bytes ?p = [8, 9]"
    by (simp_all add: payload_bytes_def tcp_segment_def)
  have "replayer_ready ?r" by simp
  from replay_is_never_early [OF replay_demo_sendable convertible_total [of "\<lambda>e. e"] this log_net_ok sent _ _ start]
  obtain st' ts where "ofold (engine_step log_net (replayer_send log_net ?r) (\<lambda>e. Inr e)) replay_demo ?st = Inr st'"
    "snd (en_world st') = zip ts [[7], [8, 9]]"
    "list_all2 (\<lambda>p t. unat (5 + (p_timestamp_us p - 10)) \<le> unat t) [?q, ?p] ts"
    by (auto simp: stamps engine_start_def)
  then show ?thesis by (auto simp: list_all2_Cons1 stamps)
qed

section \<open>A second replay\<close>

text \<open>
  The start time is a static: in a process that replays twice, the second run measures its instants from the
  start of the first. Once they have all passed, it does not sleep at all, and the run is its sends
  one after the other, on any network whose clock does not go back in a send.
\<close>

definition clock_forward :: "'w net \<Rightarrow> bool" where
  "clock_forward net \<longleftrightarrow>
     (\<forall>s bs w. time_now_us (net_now_ns net w) \<le> time_now_us (net_now_ns net (snd (net_send net s bs w)))) \<and>
     (\<forall>s bs a w. time_now_us (net_now_ns net w) \<le> time_now_us (net_now_ns net (snd (net_sendto net s bs a w))))"

definition send_all :: "'w net \<Rightarrow> replayer \<Rightarrow> packet list \<Rightarrow> 'w \<Rightarrow> 'w outcome" where
  "send_all net r ps w = ofold (\<lambda>p w. obind (replayer_send net r p w) (\<lambda>(_, w'). Inr w')) ps w"

lemma send_forward:
  assumes "sendable p" "clock_forward net"
  shows "\<exists>b w'. replayer_send net r p w = Inr (b, w') \<and> time_now_us (net_now_ns net w) \<le> time_now_us (net_now_ns net w')"
proof (cases r)
  case (Tcp_Replayer t)
  with assms show ?thesis
    by (auto simp: tcp_send_def sendable_def clock_forward_def has_payload_def payload_def payload_size_def split: option.splits prod.splits)
      (metis snd_conv)
next
  case (Udp_Replayer u)
  with assms show ?thesis
    by (auto simp: udp_send_def sendable_def clock_forward_def has_payload_def payload_def payload_size_def split: option.splits prod.splits)
      (metis snd_conv)
qed

lemma late_run:
  assumes "\<forall>p \<in> set ps. sendable p" "convertible scale base ps" and net: "clock_forward net"
    and st: "en_base_ts st = base" "base \<noteq> 0" "en_start_us st = Some start"
    and "\<forall>p \<in> set (filter replayable ps). start + wait_of scale (p_timestamp_us p - base) \<le> time_now_us (net_now_ns net (en_world st))"
  shows "\<exists>st'. ofold (engine_step net (replayer_send net r) scale) ps st = Inr st' \<and>
    send_all net r (filter replayable ps) (en_world st) = Inr (en_world st')"
  using assms(1,2) st(1,3) assms(7)
proof (induction ps arbitrary: st)
  case (Cons p ps)
  have p: "sendable p" using Cons.prems by simp
  show ?case
  proof (cases "replayable p")
    case True
    obtain b w' where s: "replayer_send net r p (en_world st) = Inr (b, w')"
      "time_now_us (net_now_ns net (en_world st)) \<le> time_now_us (net_now_ns net w')"
      using send_forward [OF p net] by blast
    have conv: "can_wait scale (en_base_ts st) p" "convertible scale base ps"
      using Cons.prems(2,3) True st(2) by (simp_all add: base_after_def)
    have base: "next_base p st = base" "next_start net st = start"
      using Cons.prems st(2) by (simp_all add: next_base_def base_after_def next_start_def)
    then have "waited net scale p st = en_world st"
      using Cons.prems(5) True by (auto simp: waited_def send_target_def Let_def)
    then obtain st1 where st1: "engine_step net (replayer_send net r) scale p st = Inr st1"
      "en_base_ts st1 = base" "en_start_us st1 = Some start" "en_world st1 = w'"
      using s(1) base conv by (simp add: engine_step_send [OF p True])
    have "\<forall>q \<in> set (filter replayable ps). start + wait_of scale (p_timestamp_us q - base) \<le> time_now_us (net_now_ns net (en_world st1))"
      using Cons.prems(5) order_trans [OF _ s(2)] unfolding st1(4) by auto
    from Cons.IH [OF _ conv(2) st1(2,3) this] Cons.prems(1) st1 s(1) True show ?thesis
      by (auto simp: send_all_def)
  next
    case False
    with Cons.IH [OF _ _ Cons.prems(3,4)] Cons.prems show ?thesis by (simp add: rep.step_skips [OF p False])
  qed
qed (simp add: send_all_def)

end
