(* ===== verification/Replay_Runs.thy ===== *)
theory Replay_Runs
  imports Decode_Totality Replay_Pacing
begin

text \<open>
  Whole runs of the program with the command \<^verbatim>\<open>replay\<close>: from the arguments and the records of the
  capture file to what reaches the wire, and the capture that ends both commands.
\<close>

section \<open>From arguments to the wire\<close>

definition replay_argv :: "string \<Rightarrow> string \<Rightarrow> string \<Rightarrow> nat \<Rightarrow> string \<Rightarrow> string list" where
  "replay_argv prog f host port transport = [prog, ''replay'', ''--pcap'', f,
     ''--target'', host @ '':'' @ show_nat port, ''--transport'', transport]"

definition host_name :: "string \<Rightarrow> bool" where
  "host_name host \<longleftrightarrow> CHR '':'' \<notin> set host \<and> plain_value (host @ '':'')"

text \<open>Opening and closing sockets sends nothing.\<close>

definition net_quiet :: "'w net \<Rightarrow> ('w \<Rightarrow> byte list list) \<Rightarrow> bool" where
  "net_quiet net wire \<longleftrightarrow> (\<forall>b w. wire (snd (net_socket net b w)) = wire w) \<and>
     (\<forall>s a w. wire (snd (net_connect net s a w)) = wire w) \<and> (\<forall>s w. wire (net_close net s w) = wire w)"

lemma plain_target: "host_name host \<Longrightarrow> plain_value (host @ '':'' @ show_nat port)"
  by (cases host; cases "List.tl host") (auto simp: host_name_def plain_value_def starts_with_def)

lemma main_replay:
  assumes "file_name f" "host_name host" "plain_value tr"
  shows "\<exists>args. get_or args ''pcap'' [] = f \<and> get_or args ''target'' [] = host @ '':'' @ show_nat port \<and>
    get_or args ''transport'' ''tcp'' = tr \<and> get_or args ''speed'' ''1.0'' = ''1.0'' \<and>
    main env (replay_argv prog f host port tr) w =
      rbind (cmd_replay env args None w) (\<lambda>((code, cs), rest). Some (Inr ((code, emit info_logger cs), rest)))"
proof (intro exI conjI)
  let ?args = "\<lparr>cl_command = ''replay'', cl_options = [(''pcap'', f),
    (''target'', host @ '':'' @ show_nat port), (''transport'', tr)]\<rparr>"
  have "parse_args (replay_argv prog f host port tr) = Some ?args"
    using assms plain_target [OF assms(2), of port]
    by (simp add: parse_args_def plain_value_def file_name_def replay_argv_def)
  then show "main env (replay_argv prog f host port tr) w =
      rbind (cmd_replay env ?args None w) (\<lambda>((code, cs), rest). Some (Inr ((code, emit info_logger cs), rest)))"
    by (simp add: main_run execute_def)
qed (simp_all add: get_or_def)

text \<open>The messages of a log, and nothing on the two streams.\<close>

definition only_log :: "chunk list \<Rightarrow> bool" where
  "only_log cs \<longleftrightarrow> (\<forall>c \<in> set cs. \<exists>l msg. c = Log l msg \<and> (l = L_Info \<or> l = L_Err))"

lemma only_log_loud: "only_log cs \<Longrightarrow> \<forall>c \<in> set cs. loud c"
  by (auto simp: only_log_def)

lemma new_engine_options:
  assumes "new_engine net opts w = (eg, cl, w1)"
  shows "eg_options eg = opts" "eg_sent_count eg = 0" "only_log cl"
  using assms by (auto simp: new_engine_def new_tcp_replayer_def new_udp_replayer_def only_log_def Let_def
      split: if_splits prod.splits)

lemma new_engine_quiet:
  assumes "new_engine net opts w = (eg, cl, w1)" and "net_quiet net wire"
  shows "wire w1 = wire w" "net_reliable net \<Longrightarrow> replayer_ready (eg_replayer eg)"
  using assms
  by (auto simp: new_engine_def new_tcp_replayer_def new_udp_replayer_def net_quiet_def net_reliable_def
      Let_def split: if_splits prod.splits) (metis fst_conv snd_conv linorder_not_less)+

lemma destroy_quiet: "net_quiet net wire \<Longrightarrow> wire (destroy_replayer net r w) = wire w"
  by (cases r) (simp_all add: destroy_tcp_replayer_def destroy_udp_replayer_def net_quiet_def)

text \<open>What the file holds, as the reader delivers it.\<close>

definition replay_input :: "('n, 'h, 'w, 'd) environment \<Rightarrow> string \<Rightarrow> packet list \<Rightarrow> bool" where
  "replay_input env f ps \<longleftrightarrow>
     (\<exists>h rs h'. lib_open (e_pcap env) f = Inr h \<and> yields (e_pcap env) h rs h' \<and> capture_packets rs = Inr ps)"

definition replay_opts :: "string \<Rightarrow> string \<Rightarrow> nat \<Rightarrow> string \<Rightarrow> 'd \<Rightarrow> 'd replay_options" where
  "replay_opts f host port tr speed = \<lparr>ro_pcap_path = f, ro_target_host = host, ro_target_port = of_nat port,
     ro_transport = tr, ro_speed = speed, ro_randomize_source_port = False\<rparr>"

lemma replay_opts_fields [simp]: "ro_pcap_path (replay_opts f host port tr speed) = f"
  "ro_speed (replay_opts f host port tr speed) = speed"
  by (simp_all add: replay_opts_def)

text \<open>What the command does with plain arguments: connect, run the engine, disconnect.\<close>

lemma replay_start:
  assumes "file_name f" "host_name host" "plain_value tr" "port \<le> 2147483647" "e_stod env ''1.0'' = Inr speed"
    and "new_engine (e_net env) (replay_opts f host port tr speed) w = (eg, cl, w1)"
  shows "main env (replay_argv prog f host port tr) w =
    rbind (engine_run (e_pcap env) (e_net env) (e_scale env) (e_show env) eg None w1) (\<lambda>(eg', cl', start, w2).
      Some (Inr ((0, emit info_logger (cl @ cl')), start, destroy_replayer (e_net env) (eg_replayer eg') w2)))"
proof -
  obtain args where args: "get_or args ''pcap'' [] = f" "get_or args ''target'' [] = host @ '':'' @ show_nat port"
    "get_or args ''transport'' ''tcp'' = tr" "get_or args ''speed'' ''1.0'' = ''1.0''"
    "main env (replay_argv prog f host port tr) w =
      rbind (cmd_replay env args None w) (\<lambda>((code, cs), rest). Some (Inr ((code, emit info_logger cs), rest)))"
    using main_replay [where env = env and prog = prog and port = port and w = w, OF assms(1-3)] by (elim exE conjE)
  have "cmd_replay env args None w =
      rbind (engine_run (e_pcap env) (e_net env) (e_scale env) (e_show env) eg None w1) (\<lambda>(eg', cl', start, w2).
        Some (Inr ((0, cl @ cl'), start, destroy_replayer (e_net env) (eg_replayer eg') w2)))"
    unfolding cmd_replay_def Let_def args(1-4)
    using assms(1,2,5,6) parse_target_port [of host port] assms(4)
    by (simp add: file_name_def host_name_def flip: replay_opts_def)
  then show ?thesis unfolding args(5) by (simp add: rbind_assoc case_prod_unfold)
qed

lemma replay_run:
  assumes "file_name f" "host_name host" "plain_value tr" "port \<le> 2147483647"
    and "e_stod env ''1.0'' = Inr speed" "replay_input env f ps"
  obtains eg cl w1 opts where "new_engine (e_net env) opts w = (eg, cl, w1)"
    "opts = replay_opts f host port tr speed" "only_log cl"
    "main env (replay_argv prog f host port tr) w =
      Some (obind (ofold (engine_step (e_net env) (replayer_send (e_net env) (eg_replayer eg)) (\<lambda>e. e_scale env e speed))
        ps (engine_start w1)) (\<lambda>st. Inr ((0, cl @ [opened_line f, starting_line (e_show env) opts, complete_line (en_sent_count st)]),
          en_start_us st, destroy_replayer (e_net env) (eg_replayer eg) (en_world st))))"
proof -
  let ?opts = "replay_opts f host port tr speed"
  obtain eg cl w1 where eg: "new_engine (e_net env) ?opts w = (eg, cl, w1)" by (metis prod_cases3)
  let ?step = "engine_step (e_net env) (replayer_send (e_net env) (eg_replayer eg)) (\<lambda>e. e_scale env e speed)"
  obtain h rs h' where cap: "lib_open (e_pcap env) f = Inr h" "yields (e_pcap env) h rs h'" "capture_packets rs = Inr ps"
    using assms(6) by (auto simp: replay_input_def)
  obtain r r' where r: "reader_open (e_pcap env) f new_reader = (True, r, [opened_line f])"
    "for_each_packet (e_pcap env) ?step r (engine_start w1) =
      Some (obind (ofold ?step ps (engine_start w1)) (\<lambda>s'. Inr (r', s')))"
    using reader_run [OF cap, of ?step "engine_start w1"] by blast
  let ?lines = "\<lambda>st. [opened_line f, starting_line (e_show env) ?opts, complete_line (en_sent_count st)]"
  have "engine_run (e_pcap env) (e_net env) (e_scale env) (e_show env) eg None w1 =
      Some (obind (ofold ?step ps (engine_start w1)) (\<lambda>st.
        Inr (eg\<lparr>eg_sent_count := en_sent_count st\<rparr>, ?lines st, en_start_us st, en_world st)))"
    using r by (cases "ofold ?step ps (engine_start w1)")
      (simp_all add: engine_run_def new_engine_options [OF eg] flip: engine_start_def)
  moreover have "emit info_logger (cl @ ?lines st) = cl @ ?lines st" for st
    by (rule emit_loud) (use only_log_loud [OF new_engine_options(3) [OF eg]] in auto)
  ultimately have "main env (replay_argv prog f host port tr) w = Some (obind (ofold ?step ps (engine_start w1)) (\<lambda>st.
      Inr ((0, cl @ ?lines st), en_start_us st, destroy_replayer (e_net env) (eg_replayer eg) (en_world st))))"
    unfolding replay_start [OF assms(1-5) eg] by (cases "ofold ?step ps (engine_start w1)") simp_all
  then show thesis by (rule that [OF eg refl new_engine_options(3) [OF eg]])
qed

text \<open>C3: The replay command, end to end: given a capture file whose records parse to packets that carry a
  payload buffer (others may parse to nothing), with waiting times that convert to integers, and a target whose
  port is a number, the program exits
  with 0; what it puts on the wire is, for each TCP or UDP packet with a non-empty
  payload, in the order of the file, that payload or (after a failed or short send) a proper prefix
  of it. It writes nothing but log lines: those of the connection, then that the file is open, that the replay
  starts, and how many payloads went out completely. On a network that takes all it is given, with either
  transport, the wire carries exactly those payloads.\<close>

theorem replay_command_end_to_end:
  assumes "file_name f" "host_name host" "plain_value tr" "port \<le> 2147483647"
    and "e_stod env ''1.0'' = Inr speed" "replay_input env f ps" "\<forall>p \<in> set ps. sendable p"
    and "convertible (\<lambda>e. e_scale env e speed) 0 ps"
    and "net_ok (e_net env) wire" "net_quiet (e_net env) wire"
  shows "\<exists>start w' cs cl. main env (replay_argv prog f host port tr) w = Some (Inr ((0, cl @ [opened_line f,
        starting_line (e_show env) (replay_opts f host port tr speed),
        complete_line (of_nat (length (filter (\<lambda>(p, c). c = payload_bytes p) (zip (filter replayable ps) cs))))]), start, w')) \<and>
    only_log cl \<and>
    list_all2 (\<lambda>p c. prefix c (payload_bytes p)) (filter replayable ps) cs \<and>
    wire w' = wire w @ filter (\<lambda>c. c \<noteq> []) cs \<and>
    (net_reliable (e_net env) \<longrightarrow> wire w' = wire w @ map payload_bytes (filter replayable ps))"
proof -
  let ?net = "e_net env" and ?scale = "\<lambda>e. e_scale env e speed" and ?opts = "replay_opts f host port tr speed"
  obtain eg cl w1 where eg: "new_engine ?net ?opts w = (eg, cl, w1)" "only_log cl" and
    run: "main env (replay_argv prog f host port tr) w =
      Some (obind (ofold (engine_step ?net (replayer_send ?net (eg_replayer eg)) ?scale) ps (engine_start w1))
        (\<lambda>st. Inr ((0, cl @ [opened_line f, starting_line (e_show env) ?opts, complete_line (en_sent_count st)]),
          en_start_us st, destroy_replayer ?net (eg_replayer eg) (en_world st))))"
    by (rule replay_run [OF assms(1-6)]) simp
  note new = new_engine_quiet [OF eg(1) assms(10)]
  have w1: "wire (en_world (engine_start w1)) = wire w" "en_sent_count (engine_start w1) = 0"
    by (simp_all add: engine_start_def new(1))
  obtain st cs where st: "ofold (engine_step ?net (replayer_send ?net (eg_replayer eg)) ?scale) ps (engine_start w1) = Inr st"
      "list_all2 (\<lambda>p c. prefix c (payload_bytes p)) (filter replayable ps) cs"
      "wire (en_world st) = wire w @ filter (\<lambda>c. c \<noteq> []) cs"
      "en_sent_count st = of_nat (length (filter (\<lambda>(p, c). c = payload_bytes p) (zip (filter replayable ps) cs)))"
    using rep.run_sends [of ps ?scale "engine_start w1" ?net wire "eg_replayer eg"] assms(7-9) w1 by auto
  have "wire (en_world st) = wire w @ map payload_bytes (filter replayable ps)" if "net_reliable ?net"
    using rep_ready.run_delivers [OF assms(7) _ new(2) [OF that] assms(9) that, of ?scale "engine_start w1"]
      assms(8) st(1) w1 by auto
  with st run eg(2) destroy_quiet [OF assms(10)] show ?thesis
    by (intro exI [of _ "en_start_us st"] exI [of _ "destroy_replayer ?net (eg_replayer eg) (en_world st)"]
        exI [of _ cs] exI [of _ cl]) simp
qed

lemma sim_net_facts: "net_quiet sim_net snd" "net_reliable sim_net"
  by (simp_all add: net_quiet_def net_reliable_def sim_net_def split: prod.split)

lemma cut_sendable: "\<forall>p \<in> set cut_packets. sendable p"
  "map payload_bytes (filter replayable cut_packets) = [take 5 cut_bytes, drop 5 cut_bytes]"
  using cut_length
  by (auto simp: cut_packets_def cut_packet_def tcp_packet_def sendable_def has_payload_def payload_bytes_def
      replayable_def simp flip: length_0_conv)

theorem replay_command_end_to_end_witness:
  "\<exists>start w' cl n. main (demo_env vehicle_tree cut_capture)
      (replay_argv ''gatewayforge'' ''b.pcap'' ''127.0.0.1'' 9000 ''udp'') (0, []) = Some (Inr ((0, cl @ [opened_line ''b.pcap'',
        starting_line show_nat (replay_opts ''b.pcap'' ''127.0.0.1'' 9000 ''udp'' 1), complete_line n]), start, w')) \<and>
    snd w' = [take 5 cut_bytes, drop 5 cut_bytes]"
proof -
  have names: "file_name ''b.pcap''" "host_name ''127.0.0.1''" "plain_value ''udp''" "(9000 :: nat) \<le> 2147483647"
    by (simp_all add: file_name_def host_name_def plain_value_def starts_with_def)
  have "replay_input (demo_env vehicle_tree cut_capture) ''b.pcap'' cut_packets"
    unfolding replay_input_def using file_lib_yields [of "\<lambda>_. Some cut_capture" cut_capture] cut_captured by auto
  from replay_command_end_to_end [OF names _ this cut_sendable(1) _, of _ snd "''gatewayforge''" "(0, [])"]
  show ?thesis by (auto simp: sim_net_ok sim_net_facts cut_sendable(2))
qed

section \<open>Packets without payload\<close>

lemma engine_total:
  assumes "\<forall>p \<in> set ps. sendable p" and "convertible scale 0 ps"
  shows "\<exists>st. ofold (engine_step net (replayer_send net r) scale) ps (engine_start w) = Inr st"
  by (rule rep.run_total) (use assms in simp_all)

lemma replay_bare:
  assumes "\<forall>q \<in> set ps. sendable q" and "p_payload p = None" and "convertible scale (en_base_ts st) ps"
  shows "ofold (engine_step net (replayer_send net r) scale) (ps @ p # qs) st = Inl Null_Deref"
proof -
  obtain st' where "ofold (engine_step net (replayer_send net r) scale) ps st = Inr st'"
    using rep.run_total assms(1,3) by blast
  with assms(2) show ?thesis by (simp add: ofold_append engine_step_def payload_size_null)
qed

text \<open>C25: Packets without payload, and nothing else in a capture, end the program: for captures of any mixture of
  packets, with a schema on which the decoder returns, waiting times that convert to integers, a plain target and any network, each command follows a null
  pointer if some packet has no payload buffer, such as the segments of any handshake, and otherwise
  completes with exit code 0; it never loops, and meets no other fault and no exception.\<close>

theorem bare_packets_end_both_commands:
  assumes "decode_input env f sp s ps" "returning_schema s" "small_capture ps"
    and "host_name host" "plain_value tr" "port \<le> 2147483647" "e_stod env ''1.0'' = Inr speed"
    and "convertible (\<lambda>e. e_scale env e speed) 0 ps"
  shows "(main env (decode_argv prog f sp) w = Some (Inl Null_Deref) \<longleftrightarrow> (\<exists>p \<in> set ps. p_payload p = None)) \<and>
    (main env (replay_argv prog f host port tr) w = Some (Inl Null_Deref) \<longleftrightarrow> (\<exists>p \<in> set ps. p_payload p = None)) \<and>
    ((\<exists>p \<in> set ps. p_payload p = None) \<or>
      (\<exists>out log start w'. main env (decode_argv prog f sp) w = Some (Inr ((0, out), None, w)) \<and>
        main env (replay_argv prog f host port tr) w = Some (Inr ((0, log), start, w')) \<and> only_log log))"
proof -
  have names: "file_name f" and inp: "replay_input env f ps"
    using assms(1) by (auto simp: decode_input_def replay_input_def)
  note dec = decode_total [OF assms(1-3), of prog w]
  have small: "sendable q" if "q \<in> set ps" "p_payload q \<noteq> None" for q
    using small_capture_payload [OF assms(3) that] by (simp add: sendable_def small_payload_def)
  show ?thesis
  proof (cases "\<exists>p \<in> set ps. p_payload p = None")
    case True
    then obtain qs p rs where split: "ps = qs @ p # rs" "p_payload p = None" "\<forall>q \<in> set qs. p_payload q \<noteq> None"
      using split_list_first_prop [of ps "\<lambda>p. p_payload p = None"] by blast
    then have "\<forall>q \<in> set qs. sendable q" using small by simp
    moreover have qs: "convertible (\<lambda>e. e_scale env e speed) 0 qs"
      using convertible_append assms(8) unfolding split(1) by blast
    ultimately have "main env (replay_argv prog f host port tr) w = Some (Inl Null_Deref)"
      by (rule_tac replay_run [OF names assms(4-7) inp]) (simp add: split(1) replay_bare [OF _ split(2)] qs)
    with dec(1) True show ?thesis by simp
  next
    case False
    obtain eg cl w1 opts where "new_engine (e_net env) opts w = (eg, cl, w1)" "only_log cl" and
      run: "main env (replay_argv prog f host port tr) w =
      Some (obind (ofold (engine_step (e_net env) (replayer_send (e_net env) (eg_replayer eg)) (\<lambda>e. e_scale env e speed))
        ps (engine_start w1)) (\<lambda>st. Inr ((0, cl @ [opened_line f, starting_line (e_show env) opts, complete_line (en_sent_count st)]),
          en_start_us st, destroy_replayer (e_net env) (eg_replayer eg) (en_world st))))"
      by (rule replay_run [OF names assms(4-7) inp])
    from this(2) have log: "only_log (cl @ [opened_line f, starting_line (e_show env) opts, complete_line n])" for n
      by (auto simp: only_log_def opened_line_def starting_line_def complete_line_def)
    have "\<forall>p \<in> set ps. sendable p" using False small by blast
    then obtain st where "ofold (engine_step (e_net env) (replayer_send (e_net env) (eg_replayer eg)) (\<lambda>e. e_scale env e speed))
        ps (engine_start w1) = Inr st"
      using engine_total [OF _ assms(8)] by fast
    with run log obtain log start w' where
      "main env (replay_argv prog f host port tr) w = Some (Inr ((0, log), start, w'))" "only_log log" by fastforce
    with dec(2) False show ?thesis by fastforce
  qed
qed

definition syn_record :: capture_record where
  "syn_record = (\<lparr>h_tv_sec = 1, h_tv_usec = 0, h_caplen = 58, h_len = 58\<rparr>, syn_frame)"

definition syn_packet :: packet where
  "syn_packet = (tcp_packet [10, 0, 0, 1] [10, 0, 0, 2] 12345 9000 99 0 2 [])\<lparr>p_timestamp_us := 1000000\<rparr>"

lemma syn_captured: "capture_packets [runt_record, beacon_record, syn_record] = Inr ([beacon_packet] @ syn_packet # [])"
proof -
  have "parse (Some syn_frame) 58 = Inr (Some (tcp_packet [10, 0, 0, 1] [10, 0, 0, 2] 12345 9000 99 0 2 []))"
    by (rule parse_tcp_frame [OF _ _ _ _ _ _ _ syn_frame_def])
      (simp_all add: ip_options_ok_def syn_frame_def tcp_frame_def length_ipv4_bytes length_tcp_bytes)
  then have "capture_packets [syn_record] = Inr [syn_packet]"
    by (simp add: syn_record_def syn_packet_def header_timestamp_def)
  from capture_packets_append [OF beacon_captured this] show ?thesis by simp
qed

theorem bare_packets_end_both_commands_witness:
  "main (demo_env vehicle_udp_tree [runt_record, beacon_record, syn_record])
    (replay_argv ''gatewayforge'' ''b.pcap'' ''10.0.0.9'' 9000 ''tcp'') (0, []) = Some (Inl Null_Deref) \<and>
   main (demo_env vehicle_udp_tree [runt_record, beacon_record, syn_record])
    (decode_argv ''gatewayforge'' ''b.pcap'' ''s.yaml'') (0, []) = Some (Inl Null_Deref) \<and>
   (\<exists>out. main (demo_env vehicle_udp_tree [runt_record, beacon_record])
    (decode_argv ''gatewayforge'' ''b.pcap'' ''s.yaml'') (0, []) = Some (Inr ((0, out), None, (0, []))))"
proof -
  have p: "p_payload syn_packet = None" "payload_bytes syn_packet = []"
    by (simp_all add: syn_packet_def tcp_packet_def payload_bytes_def)
  have names: "host_name ''10.0.0.9''" "plain_value ''tcp''" "(9000 :: nat) \<le> 2147483647"
    by (simp_all add: host_name_def plain_value_def starts_with_def)
  have s: "returning_schema vehicle_udp_schema"
    by (simp add: returning_schema_def vehicle_udp_schema_def new_schema_def)
  have small: "small_capture ([beacon_packet] @ syn_packet # [])" "small_capture [beacon_packet]"
    by (simp_all add: small_capture_def p beacon_facts)
  have full: "p_payload beacon_packet \<noteq> None" by (simp add: beacon_packet_def udp_packet_def)
  note bare = bare_packets_end_both_commands [OF demo_input [OF vehicle_udp_loads syn_captured] s small(1) names,
      of _ "''gatewayforge''" "(0, [])"]
  note fine = bare_packets_end_both_commands [OF demo_input [OF vehicle_udp_loads beacon_captured] s small(2) names,
      of _ "''gatewayforge''" "(0, [])"]
  show ?thesis using bare fine p(1) full by auto
qed

end
