(* ===== verification/Failed_Runs.thy ===== *)
theory Failed_Runs
  imports Replay_Runs
begin

text \<open>
  Runs of the program that fail: a target that does not answer, a waiting time that cannot be
  converted to an integer, and a capture file that cannot be opened.
  The command \<^verbatim>\<open>decode\<close> says in its exit code that a file does not open, the command \<^verbatim>\<open>replay\<close> does not. The last section is
  about the exit codes of all runs.
\<close>

section \<open>A target that does not answer\<close>

text \<open>A sender whose connection failed sends nothing; the engine goes on, and waits, all the same.\<close>

lemma unconnected_step:
  assumes "sendable p" "\<not> tr_connected r" "net_ok net wire" "replayable p \<Longrightarrow> can_wait scale (en_base_ts st) p"
  shows "\<exists>st'. engine_step net (tcp_send net r) scale p st = Inr st' \<and>
    wire (en_world st') = wire (en_world st) \<and> en_sent_count st' = en_sent_count st \<and>
    en_base_ts st' = (if replayable p then next_base p st else en_base_ts st)"
proof (cases "replayable p")
  case True
  have "wire (waited net scale p st) = wire (en_world st)"
    using assms(3) by (simp add: waited_def sleep_for_def net_ok_def Let_def)
  then show ?thesis
    using assms(2) True by (simp add: engine_step_send [OF assms(1) True assms(4) [OF True]] tcp_send_def)
next
  case False
  show ?thesis by (rule exI [of _ st]) (simp add: tcp_rep.step_skips [OF assms(1) False] False)
qed

lemma unconnected_run:
  assumes "\<forall>p \<in> set ps. sendable p" "convertible scale (en_base_ts st) ps" "\<not> tr_connected r" "net_ok net wire"
  shows "\<exists>st'. ofold (engine_step net (tcp_send net r) scale) ps st = Inr st' \<and>
    wire (en_world st') = wire (en_world st) \<and> en_sent_count st' = en_sent_count st"
  using assms(1,2)
proof (induction ps arbitrary: st)
  case (Cons p ps)
  from unconnected_step [OF _ assms(3,4), of p scale st] Cons.prems obtain st1 where
    "engine_step net (tcp_send net r) scale p st = Inr st1" "wire (en_world st1) = wire (en_world st)"
    "en_sent_count st1 = en_sent_count st" "convertible scale (en_base_ts st1) ps"
    by (auto simp: next_base_def split: if_splits)
  with Cons.IH [of st1] Cons.prems show ?case by auto
qed simp

definition unreachable :: "'w net \<Rightarrow> bool" where
  "unreachable net \<longleftrightarrow> (\<forall>s a w. fst (net_connect net s a w) < 0)"

lemma unreachable_engine:
  assumes "unreachable net" "new_engine net opts w = (eg, cl, w1)" "ro_transport opts = ''tcp''"
  shows "\<exists>r msg. eg_replayer eg = Tcp_Replayer r \<and> \<not> tr_connected r \<and> cl = [Log L_Err msg]"
  using assms by (auto simp: unreachable_def new_engine_def new_tcp_replayer_def Let_def split: if_splits prod.splits)
    (metis fst_conv)

lemma replayer_send_tcp: "replayer_send net (Tcp_Replayer r) = tcp_send net r"
  by (intro ext) simp

text \<open>The replay to a TCP target that refuses the connection exits with 0, having sent nothing; the log has the
  error and a summary of no packets.\<close>

lemma unreachable_target:
  assumes "file_name f" "host_name host" "port \<le> 2147483647" "e_stod env ''1.0'' = Inr speed"
    and "replay_input env f ps" "\<forall>p \<in> set ps. sendable p"
    and "convertible (\<lambda>e. e_scale env e speed) 0 ps" "net_ok (e_net env) wire" "net_quiet (e_net env) wire" "unreachable (e_net env)"
  shows "\<exists>msg start w'. main env (replay_argv prog f host port ''tcp'') w = Some (Inr ((0, [Log L_Err msg, opened_line f,
      starting_line (e_show env) (replay_opts f host port ''tcp'' speed), complete_line 0]), start, w')) \<and> wire w' = wire w"
proof -
  have tcp: "plain_value ''tcp''" by (simp add: plain_value_def starts_with_def)
  obtain eg cl w1 opts where eg: "new_engine (e_net env) opts w = (eg, cl, w1)" "opts = replay_opts f host port ''tcp'' speed" and
    run: "main env (replay_argv prog f host port ''tcp'') w =
      Some (obind (ofold (engine_step (e_net env) (replayer_send (e_net env) (eg_replayer eg)) (\<lambda>e. e_scale env e speed))
        ps (engine_start w1)) (\<lambda>st. Inr ((0, cl @ [opened_line f, starting_line (e_show env) opts, complete_line (en_sent_count st)]),
          en_start_us st, destroy_replayer (e_net env) (eg_replayer eg) (en_world st))))"
    by (rule replay_run [OF assms(1,2) tcp assms(3-5)])
  obtain r msg where r: "eg_replayer eg = Tcp_Replayer r" "\<not> tr_connected r" "cl = [Log L_Err msg]"
    using unreachable_engine [OF assms(10) eg(1)] eg(2) by (auto simp: replay_opts_def)
  obtain st where "ofold (engine_step (e_net env) (tcp_send (e_net env) r) (\<lambda>e. e_scale env e speed)) ps (engine_start w1) = Inr st"
    "wire (en_world st) = wire w1" "en_sent_count st = 0"
    using unconnected_run [OF assms(6) _ r(2) assms(8), of _ "engine_start w1"] assms(7) by (auto simp: engine_start_def)
  with run eg(2) new_engine_quiet(1) [OF eg(1) assms(9)] destroy_quiet [OF assms(9), of "Tcp_Replayer r"] show ?thesis
    by (auto simp: r replayer_send_tcp)
qed

section \<open>A quotient that cannot be converted\<close>

text \<open>
  The wait is a quotient of doubles converted to \<open>uint64_t\<close> without a check. A speed of 0 or below makes that
  undefined, and so does, at half speed or less, a packet stamped before the first one sent.
\<close>

lemma undefined_quotient:
  assumes "file_name f" "host_name host" "plain_value tr" "port \<le> 2147483647" "e_stod env ''1.0'' = Inr speed"
    and "replay_input env f ps" "\<forall>p \<in> set ps. sendable p"
    and "\<not> convertible (\<lambda>e. e_scale env e speed) 0 ps"
    and "\<And>e x. e_scale env e speed = Inl x \<Longrightarrow> x = Bad_Conversion"
  shows "main env (replay_argv prog f host port tr) w = Some (Inl Bad_Conversion)"
proof -
  have "ofold (engine_step (e_net env) (replayer_send (e_net env) r) (\<lambda>e. e_scale env e speed)) ps (engine_start w1) =
      Inl Bad_Conversion" for r w1
    using assms(7-9) by (intro rep.run_unconverted) simp_all
  then show ?thesis by (rule_tac replay_run [OF assms(1-6)]) simp
qed

definition half_speed :: "(ytree, capture_record list, sim, nat) environment" where
  "half_speed = demo_env vehicle_tree (cut_capture @ [runt_record, beacon_record])
     \<lparr>e_scale := (\<lambda>e _. if unat e < 2 ^ 63 then Inr (2 * e) else Inl Bad_Conversion)\<rparr>"

lemma undefined_quotient_instance:
  "main half_speed (replay_argv ''gatewayforge'' ''b.pcap'' ''127.0.0.1'' 9000 ''udp'') (0, []) = Some (Inl Bad_Conversion)"
proof (rule undefined_quotient [where speed = 1 and ps = "cut_packets @ [beacon_packet]"])
  have "capture_packets (cut_capture @ [runt_record, beacon_record]) = Inr (cut_packets @ [beacon_packet])"
    by (rule capture_packets_append [OF cut_captured beacon_captured])
  then show "replay_input half_speed ''b.pcap'' (cut_packets @ [beacon_packet])"
    unfolding replay_input_def half_speed_def
    using file_lib_yields [of "\<lambda>_. Some (cut_capture @ [runt_record, beacon_record])"] by simp blast
  have beacon: "sendable beacon_packet" "replayable beacon_packet" "p_timestamp_us beacon_packet = 2000005"
    using beacon_facts by (simp_all add: sendable_def small_payload_def replayable_def beacon_packet_def)
  then show "\<forall>p \<in> set (cut_packets @ [beacon_packet]). sendable p" using cut_sendable(1) by simp
  let ?q = "cut_packet 100 (take 5 cut_bytes)" and ?p = "cut_packet 105 (drop 5 cut_bytes)"
  have sent: "filter replayable (cut_packets @ [beacon_packet]) = ?q # [?p, beacon_packet]"
    using beacon(2) cut_pieces by (simp add: cut_packets_def replayable_def cut_piece_facts)
  show "\<not> convertible (\<lambda>e. e_scale half_speed e 1) 0 (cut_packets @ [beacon_packet])"
    by (rule older_packet_unconverted [OF sent, of beacon_packet "2 ^ 63"])
      (simp_all add: beacon(3) cut_keys half_speed_def)
qed (auto simp: file_name_def host_name_def plain_value_def starts_with_def half_speed_def split: if_splits)

section \<open>A capture that cannot be opened\<close>

lemma decode_unopened:
  assumes "file_name f" "file_name sp" "load_from_yaml (e_yaml env) sp = Inr (ok s)" "lib_open (e_pcap env) f = Inl why"
  shows "main env (decode_argv prog f sp) w = Some (Inr ((1, [loaded_line s,
    log_error (''Failed to open pcap file: '' @ why), Errs (''Failed to open PCAP: '' @ f @ newline)]), None, w))"
proof -
  obtain args where args: "get_or args ''pcap'' [] = f" "get_or args ''schema'' [] = sp"
    "main env (decode_argv prog f sp) w =
      rbind (cmd_decode env args) (\<lambda>(code, cs). Some (Inr ((code, emit info_logger cs), None, w)))"
    using main_decode [where env = env and prog = prog and w = w, OF assms(1,2)] by (elim exE conjE)
  have schema: "\<not> is_err (ok s)" "unwrap (ok s) = Inr s" "load_log (ok s) = [loaded_line s]"
    by (simp_all add: load_log_def) (simp add: ok_def)
  have "cmd_decode env args = Some (Inr (1, [loaded_line s,
      log_error (''Failed to open pcap file: '' @ why), Errs (''Failed to open PCAP: '' @ f @ newline)]))"
    unfolding cmd_decode_def Let_def args(1,2) assms(3)
    using assms(1,2,4) schema by (simp add: file_name_def reader_open_def)
  then show ?thesis unfolding args(3) by (simp add: emit_loud)
qed

text \<open>C27: A capture that cannot be opened: \<^verbatim>\<open>decode\<close> exits with 1 after an error message and prints no
  report, although the schema was loaded. \<^verbatim>\<open>replay\<close>, after the log lines of its connection, logs the
  error twice, sends nothing, and exits with 0, which a caller cannot tell from success.\<close>

theorem missing_capture:
  assumes "file_name f" "file_name sp" "load_from_yaml (e_yaml env) sp = Inr (ok s)" "lib_open (e_pcap env) f = Inl why"
    and "host_name host" "plain_value tr" "port \<le> 2147483647" "e_stod env ''1.0'' = Inr speed" "net_quiet (e_net env) wire"
  shows "main env (decode_argv prog f sp) w = Some (Inr ((1, [loaded_line s,
      log_error (''Failed to open pcap file: '' @ why), Errs (''Failed to open PCAP: '' @ f @ newline)]), None, w)) \<and>
    (\<exists>cl w'. main env (replay_argv prog f host port tr) w = Some (Inr ((0, cl @
        [log_error (''Failed to open pcap file: '' @ why), log_error (''Failed to open pcap: '' @ f)]), None, w')) \<and>
      only_log cl \<and> wire w' = wire w)"
proof (rule conjI [OF decode_unopened [OF assms(1-4)]])
  obtain eg cl w1 where eg: "new_engine (e_net env) (replay_opts f host port tr speed) w = (eg, cl, w1)"
    by (metis prod_cases3)
  let ?log = "[log_error (''Failed to open pcap file: '' @ why), log_error (''Failed to open pcap: '' @ f)]"
  have "engine_run (e_pcap env) (e_net env) (e_scale env) (e_show env) eg None w1 = Some (Inr (eg, ?log, None, w1))"
    using assms(4) by (simp add: engine_run_def reader_open_def new_engine_options [OF eg])
  moreover have "emit info_logger (cl @ ?log) = cl @ ?log"
    by (rule emit_loud) (use only_log_loud [OF new_engine_options(3) [OF eg]] in auto)
  ultimately show "\<exists>cl w'. main env (replay_argv prog f host port tr) w = Some (Inr ((0, cl @ ?log), None, w')) \<and>
      only_log cl \<and> wire w' = wire w"
    using replay_start [OF assms(1,5-8) eg, of prog] new_engine_options(3) [OF eg]
      new_engine_quiet(1) [OF eg assms(9)] destroy_quiet [OF assms(9)] by auto
qed

definition no_capture :: "(ytree, capture_record list, sim, nat) environment" where
  "no_capture = demo_env vehicle_tree []\<lparr>e_pcap := file_lib (\<lambda>_. None)\<rparr>"

theorem missing_capture_witness:
  "main no_capture (decode_argv ''gatewayforge'' ''b.pcap'' ''s.yaml'') (0, []) = Some (Inr ((1, [loaded_line vehicle_tcp_schema,
      log_error ''Failed to open pcap file: No such file'', Errs (''Failed to open PCAP: b.pcap'' @ newline)]), None, (0, []))) \<and>
   (\<exists>cl w'. main no_capture (replay_argv ''gatewayforge'' ''b.pcap'' ''127.0.0.1'' 9000 ''tcp'') (0, []) =
      Some (Inr ((0, cl @ [log_error ''Failed to open pcap file: No such file'', log_error ''Failed to open pcap: b.pcap'']), None, w')) \<and>
      only_log cl \<and> snd w' = [])"
proof -
  have names: "file_name ''b.pcap''" "file_name ''s.yaml''" "host_name ''127.0.0.1''" "plain_value ''tcp''" "(9000 :: nat) \<le> 2147483647"
    by (simp_all add: file_name_def host_name_def plain_value_def starts_with_def)
  have env: "load_from_yaml (e_yaml no_capture) ''s.yaml'' = Inr (ok vehicle_tcp_schema)"
    "lib_open (e_pcap no_capture) ''b.pcap'' = Inl ''No such file''" "e_stod no_capture ''1.0'' = Inr 1"
    "net_quiet (e_net no_capture) snd"
    by (simp_all add: no_capture_def vehicle_tcp_loads file_lib_def sim_net_facts)
  from missing_capture [OF names(1,2) env(1,2) names(3-5) env(3,4), of "''gatewayforge''" "(0, [])"]
  show ?thesis by simp
qed

section \<open>Exit codes\<close>

text \<open>The two ways a command can end: with 0 and no error text, or with 1, an error text, and no output but the
  help text.\<close>

definition reported :: "int \<Rightarrow> chunk list \<Rightarrow> bool" where
  "reported code cs \<longleftrightarrow>
     (if code = 0 then \<forall>t. Errs t \<notin> set cs
      else code = 1 \<and> (\<exists>t. Errs t \<in> set cs) \<and> (\<forall>t. Out t \<in> set cs \<longrightarrow> t = help_text))"

lemma only_log_streams [simp]:
  "only_log cs \<Longrightarrow> Errs t \<notin> set cs" "only_log cs \<Longrightarrow> Out t \<notin> set cs"
  by (auto simp: only_log_def)

lemma only_log_simps [simp]:
  "only_log []" "only_log (Log l m # cs) \<longleftrightarrow> (l = L_Info \<or> l = L_Err) \<and> only_log cs"
  "only_log (cs @ ds) \<longleftrightarrow> only_log cs \<and> only_log ds"
  by (auto simp: only_log_def)

lemma emit_streams [simp]:
  "Errs t \<in> set (emit lg cs) \<longleftrightarrow> Errs t \<in> set cs" "Out t \<in> set (emit lg cs) \<longleftrightarrow> Out t \<in> set cs"
  by (simp_all add: emit_def)

lemma reported_emit [simp]: "reported code (emit lg cs) \<longleftrightarrow> reported code cs"
  by (simp add: reported_def)

lemma logs_only:
  "only_log (load_log r)" "reader_open lib f rd = (b, rd', lg) \<Longrightarrow> only_log lg"
  by (auto simp: load_log_def loaded_line_def reader_open_def opened_line_def split: sum.splits)

lemma decode_reported: "cmd_decode env args = Some (Inr (code, cs)) \<Longrightarrow> reported code cs"
proof -
  assume run: "cmd_decode env args = Some (Inr (code, cs))"
  obtain b rd lg where r: "reader_open (e_pcap env) (get_or args ''pcap'' []) new_reader = (b, rd, lg)"
    by (metis prod_cases3)
  then have "only_log lg" by (rule logs_only(2))
  with run show ?thesis
    using logs_only(1) by (auto simp: cmd_decode_def Let_def rbind_eq_Inr reported_def r split: if_splits)
qed

lemma engine_logs:
  "engine_run lib net scale_by sh eg start w = Some (Inr (eg', cl, start', w')) \<Longrightarrow> only_log cl"
  using logs_only(2)
  by (auto simp: engine_run_def Let_def rbind_eq_Inr starting_line_def complete_line_def split: if_splits prod.splits)

lemma new_engine_logs: "only_log (fst (snd (new_engine net opts w)))"
  using new_engine_options(3) [of net opts w] by (cases "new_engine net opts w") simp

lemma replay_end:
  assumes "cmd_replay env args start w = Some (Inr ((code, cs), start', w'))"
  shows "(\<exists>t. code = 1 \<and> cs = [Errs t] \<and> start' = start \<and> w' = w) \<or> code = 0 \<and> only_log cs"
  using assms
  by (auto simp: cmd_replay_def Let_def rbind_eq_Inr case_prod_unfold new_engine_logs
      split: if_splits option.splits dest!: engine_logs)

lemma replay_reported:
  assumes "cmd_replay env args start w = Some (Inr ((code, cs), start', w'))"
  shows "reported code cs" "code = 1 \<Longrightarrow> w' = w \<and> start' = start"
  using replay_end [OF assms] by (auto simp: reported_def)

text \<open>C26: Exit codes, for every command line, environment and input: a run of the program that ends in an
  orderly way ends with 0 or 1; with 1 exactly if there was no command or something was written to the standard
  error, and then nothing but the help text went to the standard output beside log lines, no
  socket was opened and nothing was sent.\<close>

theorem exit_codes:
  assumes "main env argv w = Some (Inr ((code, out), start, w'))"
  shows "code \<in> {0, 1} \<and> (code = 1 \<longleftrightarrow> parse_args argv = None \<or> (\<exists>t. Errs t \<in> set out)) \<and>
    (code = 1 \<longrightarrow> (\<forall>t. Out t \<in> set out \<longrightarrow> t = help_text) \<and> start = None \<and> w' = w)"
proof (cases "parse_args argv")
  case None
  with assms show ?thesis by (auto simp: main_run print_help_def emit_def)
next
  case (Some cmd)
  with assms obtain cs where cs: "execute env cmd None w = Some (Inr ((code, cs), start, w'))" "out = emit info_logger cs"
    by (auto simp: main_run rbind_eq_Inr)
  have "reported code cs \<and> (code = 1 \<longrightarrow> start = None \<and> w' = w)"
    using cs(1) replay_reported [of env cmd None w code cs start w']
    by (auto simp: execute_def rbind_eq_Inr decode_reported print_help_def split: if_splits)
      (auto simp: reported_def)
  then show ?thesis using Some cs(2) by (auto simp: reported_def split: if_splits)
qed

theorem exit_codes_witness:
  "\<exists>out. main no_capture [''gatewayforge'', ''encode''] (0, []) = Some (Inr ((1, out), None, (0, []))) \<and>
    (\<exists>t. Errs t \<in> set out) \<and> \<not> (\<exists>t. Out t \<in> set out \<and> t \<noteq> help_text)"
proof -
  have cmd: "parse_args [''gatewayforge'', ''encode''] = Some \<lparr>cl_command = ''encode'', cl_options = []\<rparr>"
    by (simp add: parse_args_def)
  then have run: "main no_capture [''gatewayforge'', ''encode''] (0, []) =
      Some (Inr ((1, emit info_logger (Errs (''Unknown command: encode'' @ newline) # print_help)), None, (0, [])))"
    by (simp add: main_run execute_def)
  from exit_codes [OF run] cmd run show ?thesis by auto
qed

end
