(* ===== verification/Schema_Semantics.thy ===== *)
theory Schema_Semantics
  imports Schema_Loader
begin

text \<open>
  What a schema file means, stated on its nodes entry by entry and without any order of evaluation, and the
  proof that the loader succeeds with a schema exactly when the file means it. With
  \<open>load_returns_result\<close> every other file, malformed in whatever entry, yields an error result.
\<close>

section \<open>Entries\<close>

text \<open>An optional entry: absent and then the default, or present and then it must convert.\<close>

definition entry :: "'n yaml \<Rightarrow> 'n \<Rightarrow> string \<Rightarrow> ('n \<Rightarrow> string + 'a) \<Rightarrow> 'a \<Rightarrow> 'a \<Rightarrow> bool" where
  "entry y n k conv dflt v \<longleftrightarrow>
     (\<exists>m. y_get y n k = Inr m \<and> (if y_defined y m then conv m = Inr v else v = dflt))"

text \<open>An entry with a fallback, which also stands in for one that is no string.\<close>

definition text_entry :: "'n yaml \<Rightarrow> 'n \<Rightarrow> string \<Rightarrow> string \<Rightarrow> string \<Rightarrow> bool" where
  "text_entry y n k dflt v \<longleftrightarrow>
     (\<exists>m. y_get y n k = Inr m \<and>
       (if y_defined y m \<and> (\<exists>x. y_string y m = Inr x) then y_string y m = Inr v else v = dflt))"

text \<open>A required string.\<close>

definition required :: "'n yaml \<Rightarrow> 'n \<Rightarrow> string \<Rightarrow> string \<Rightarrow> bool" where
  "required y n k v \<longleftrightarrow> (\<exists>m. y_get y n k = Inr m \<and> y_string y m = Inr v)"

text \<open>A section: absent and then its defaults, or a node that is described.\<close>

definition section_at :: "'n yaml \<Rightarrow> 'n \<Rightarrow> string \<Rightarrow> ('n \<Rightarrow> bool) \<Rightarrow> bool \<Rightarrow> bool" where
  "section_at y root k P absent \<longleftrightarrow>
     (\<exists>m. y_get y root k = Inr m \<and> (if y_defined y m then P m else absent))"

section \<open>Schemas\<close>

definition framing_at :: "'n yaml \<Rightarrow> 'n \<Rightarrow> framing_config \<Rightarrow> bool" where
  "framing_at y f fr \<longleftrightarrow>
     text_entry y f ''type'' ''datagram'' (framing_type_to_string (fr_type fr)) \<and>
     entry y f ''length_field'' (y_string y) [] (fr_length_field fr) \<and>
     entry y f ''header_len'' (y_u64 y) 0 (fr_header_len fr) \<and>
     entry y f ''length_includes_header'' (y_bool y) False (fr_length_includes_header fr)"

definition field_at :: "'n yaml \<Rightarrow> 'n \<Rightarrow> field_def \<Rightarrow> bool" where
  "field_at y n d \<longleftrightarrow>
     required y n ''name'' (fd_name d) \<and>
     required y n ''type'' (field_type_to_string (fd_type d)) \<and>
     section_at y n ''const'' (\<lambda>m. fd_has_const d \<and> y_u64 y m = Inr (fd_const_value d))
       (\<not> fd_has_const d \<and> fd_const_value d = 0)"

definition schema_at :: "'n yaml \<Rightarrow> 'n \<Rightarrow> protocol_schema \<Rightarrow> bool" where
  "schema_at y root s \<longleftrightarrow>
     text_entry y root ''name'' [] (s_name s) \<and>
     text_entry y root ''transport'' ''tcp'' (s_transport s) \<and>
     text_entry y root ''endian'' ''big'' (s_endian s) \<and>
     section_at y root ''framing'' (\<lambda>f. framing_at y f (s_framing s)) (s_framing s = new_framing) \<and>
     section_at y root ''message'' (\<lambda>m. \<exists>ns. y_items y m = Inr ns \<and> list_all2 (field_at y) ns (s_fields s))
       (s_fields s = []) \<and>
     section_at y root ''payload'' (\<lambda>p. entry y p ''length_from'' (y_string y) [] (pd_length_from (s_payload s)))
       (pd_length_from (s_payload s) = []) \<and>
     section_at y root ''analysis'' (\<lambda>a.
         entry y a ''sequence_field'' (y_string y) [] (s_sequence_field s) \<and>
         entry y a ''timestamp_field'' (y_string y) [] (s_timestamp_field s) \<and>
         entry y a ''device_id_field'' (y_string y) [] (s_device_id_field s))
       (s_sequence_field s = [] \<and> s_timestamp_field s = [] \<and> s_device_id_field s = [])"

section \<open>The loader, inverted\<close>

lemma ylift_eq_Inr [simp]: "ylift r = Inr x \<longleftrightarrow> r = Inr x"
  by (cases r) simp_all

lemma string_or_iff: "string_or y n k d = Inr v \<longleftrightarrow> text_entry y n k d v"
proof (cases "y_get y n k")
  case (Inr m)
  then show ?thesis
    by (cases "y_string y m") (auto simp: string_or_def text_entry_def)
qed (simp add: string_or_def text_entry_def)

lemma string_or_then:
  "obind (string_or y n k d) K = Inr r \<longleftrightarrow> (\<exists>v. text_entry y n k d v \<and> K v = Inr r)"
  by (simp add: obind_eq_Inr string_or_iff)

text \<open>A member that is set if its entry is there: the default is what the member holds.\<close>

lemma if_present_iff:
  assumes "st (get s) s = s"
  shows "if_present y n k conv st s = Inr s' \<longleftrightarrow> (\<exists>v. entry y n k conv (get s) v \<and> s' = st v s)"
proof (cases "y_get y n k")
  case (Inr m)
  then show ?thesis using assms by (cases "conv m") (auto simp: if_present_def entry_def)
qed (simp add: if_present_def entry_def)

lemma if_present_then:
  assumes "st (get s) s = s"
  shows "obind (if_present y n k conv st s) K = Inr r \<longleftrightarrow> (\<exists>v. entry y n k conv (get s) v \<and> K (st v s) = Inr r)"
  by (auto simp: obind_eq_Inr if_present_iff [of st get, OF assms])

text \<open>A section is looked at in the same way wherever it occurs.\<close>

lemma section_iff:
  "obind (ylift (y_get y root k)) (\<lambda>m. if y_defined y m then K m else Inr d) = Inr r \<longleftrightarrow>
    section_at y root k (\<lambda>m. K m = Inr r) (r = d)"
  by (cases "y_get y root k") (auto simp: section_at_def)

lemma framing_type_iff: "framing_type_from_string t = Inr ft \<longleftrightarrow> t = framing_type_to_string ft"
  by (cases ft) (auto simp: framing_type_from_string_def)

lemma framing_type_then:
  "obind (framing_type_from_string t) K = Inr r \<longleftrightarrow> (\<exists>ft. t = framing_type_to_string ft \<and> K ft = Inr r)"
  by (simp add: obind_eq_Inr framing_type_iff)

lemma field_type_iff: "field_type_from_string t = Inr ft \<longleftrightarrow> t = field_type_to_string ft"
  using field_type_names by blast

lemma field_type_to_string_inject [simp]: "field_type_to_string a = field_type_to_string b \<longleftrightarrow> a = b"
  using field_type_names by (metis Inr_inject)

lemma load_framing_iff:
  "load_framing y root new_framing = Inr fr \<longleftrightarrow>
    section_at y root ''framing'' (\<lambda>f. framing_at y f fr) (fr = new_framing)"
proof -
  have "obind (string_or y f ''type'' ''datagram'') (\<lambda>t. obind (framing_type_from_string t) (\<lambda>ft.
      obind (if_present y f ''length_field'' (y_string y) (\<lambda>x fr. fr\<lparr>fr_length_field := x\<rparr>) (new_framing\<lparr>fr_type := ft\<rparr>)) (\<lambda>fr.
      obind (if_present y f ''header_len'' (y_u64 y) (\<lambda>x fr. fr\<lparr>fr_header_len := x\<rparr>) fr) (\<lambda>fr.
      if_present y f ''length_includes_header'' (y_bool y) (\<lambda>x fr. fr\<lparr>fr_length_includes_header := x\<rparr>) fr)))) = Inr fr \<longleftrightarrow>
    framing_at y f fr" for f
    by (cases fr) (auto simp add: string_or_then framing_type_then
        if_present_then [where get = fr_length_field] if_present_then [where get = fr_header_len]
        if_present_iff [where get = fr_length_includes_header] framing_at_def new_framing_def)
  then show ?thesis unfolding load_framing_def section_iff by simp
qed

lemma load_field_iff: "load_field y n = Inr d \<longleftrightarrow> field_at y n d"
  by (cases d) (auto simp: load_field_def field_at_def required_def section_at_def if_present_def obind_eq_Inr
      field_type_iff new_field_def_def split: if_splits)

lemma load_items_iff:
  "ofold (\<lambda>n fs. obind (load_field y n) (\<lambda>d. Inr (fs @ [d]))) ns fs = Inr gs \<longleftrightarrow>
    (\<exists>ds. list_all2 (field_at y) ns ds \<and> gs = fs @ ds)"
proof (induction ns arbitrary: fs)
  case (Cons n ns)
  then show ?case by (auto simp: obind_eq_Inr load_field_iff list_all2_Cons1)
qed auto

lemma load_fields_iff:
  "load_fields y root = Inr fs \<longleftrightarrow>
    section_at y root ''message'' (\<lambda>m. \<exists>ns. y_items y m = Inr ns \<and> list_all2 (field_at y) ns fs) (fs = [])"
  unfolding load_fields_def section_iff by (simp add: obind_eq_Inr load_items_iff)

lemma load_payload_iff:
  "load_payload y root (s_payload new_schema) = Inr p \<longleftrightarrow>
    section_at y root ''payload'' (\<lambda>n. entry y n ''length_from'' (y_string y) [] (pd_length_from p))
      (pd_length_from p = [])"
  unfolding load_payload_def section_iff
  by (cases p) (simp add: if_present_iff [where get = pd_length_from] new_schema_def)

lemma load_analysis_iff:
  assumes "s_sequence_field s = []" "s_timestamp_field s = []" "s_device_id_field s = []"
  shows "load_analysis y root s = Inr s' \<longleftrightarrow>
    section_at y root ''analysis'' (\<lambda>a. \<exists>sq ts dv. entry y a ''sequence_field'' (y_string y) [] sq \<and>
        entry y a ''timestamp_field'' (y_string y) [] ts \<and> entry y a ''device_id_field'' (y_string y) [] dv \<and>
        s' = s\<lparr>s_sequence_field := sq, s_timestamp_field := ts, s_device_id_field := dv\<rparr>)
      (s' = s)"
  unfolding load_analysis_def section_iff
  by (simp add: if_present_then [where get = s_sequence_field] if_present_then [where get = s_timestamp_field]
      if_present_iff [where get = s_device_id_field] assms)

lemma load_schema_iff:
  "load_schema y filepath = Inr s \<longleftrightarrow> (\<exists>root. y_load y filepath = Inr root \<and> schema_at y root s)"
proof -
  have analysis: "load_analysis y root (new_schema\<lparr>s_name := n, s_transport := t, s_endian := e, s_framing := fr,
      s_fields := fs, s_payload := p\<rparr>) = Inr s \<longleftrightarrow>
    s_name s = n \<and> s_transport s = t \<and> s_endian s = e \<and> s_framing s = fr \<and> s_fields s = fs \<and> s_payload s = p \<and>
    section_at y root ''analysis'' (\<lambda>a. entry y a ''sequence_field'' (y_string y) [] (s_sequence_field s) \<and>
        entry y a ''timestamp_field'' (y_string y) [] (s_timestamp_field s) \<and>
        entry y a ''device_id_field'' (y_string y) [] (s_device_id_field s))
      (s_sequence_field s = [] \<and> s_timestamp_field s = [] \<and> s_device_id_field s = [])" for root n t e fr fs p
    by (cases s) (auto simp: load_analysis_iff new_schema_def section_at_def)
  show ?thesis
    unfolding load_schema_def schema_at_def
    by (simp add: obind_eq_Inr string_or_iff load_framing_iff load_fields_iff load_payload_iff analysis)
qed

section \<open>The meaning of a file\<close>

text \<open>C36: The loader, exactly: \<open>LoadFromYaml\<close> returns a schema if and only if the file means it: each
  text has its value or its fallback, each optional entry is absent (and the member has its default) or
  present and convertible, every field names one of the ten types, and the sections that are missing leave their
  defaults. For every other file, whatever is malformed in it, the call returns an error that says
  whether YAML or the schema's own names were at fault; it never throws.\<close>

theorem loader_meaning:
  "(load_from_yaml y filepath = Inr (ok s) \<longleftrightarrow> (\<exists>root. y_load y filepath = Inr root \<and> schema_at y root s)) \<and>
   (\<exists>r. load_from_yaml y filepath = Inr r \<and>
     (is_ok r \<or> starts_with ''YAML parse error: '' (rs_error r) \<or> starts_with ''Schema load error: '' (rs_error r)))"
proof (rule conjI [OF _ load_returns_result])
  have "ok a = ok b \<longleftrightarrow> a = b" for a b :: protocol_schema by (simp add: ok_def)
  then show "load_from_yaml y filepath = Inr (ok s) \<longleftrightarrow> (\<exists>root. y_load y filepath = Inr root \<and> schema_at y root s)"
    unfolding load_schema_iff [symmetric]
    by (auto simp: load_from_yaml_def err_def ok_def split: sum.splits fault.splits exn.splits)
qed

text \<open>A file with little more than a field: everything else is the default; and files with one
  malformed entry, which do not load.\<close>

definition one_entry :: "string \<Rightarrow> ytree \<Rightarrow> ytree" where
  "one_entry k v = YMap [(''message'', YSeq [YMap [(''name'', YStr ''id''), (''type'', YStr ''u8'')]]), (k, v)]"

lemma tree_loads: "y_load (tree_yaml t) f = Inr t"
  by (simp add: tree_yaml_def)

lemma sparse_schema:
  "schema_at (tree_yaml t) (one_entry ''x'' YNone) (new_schema\<lparr>s_name := [], s_transport := ''tcp'', s_endian := ''big'',
     s_fields := [plain_field ''id'' U8]\<rparr>)"
  by (simp add: schema_at_def text_entry_def section_at_def field_at_def required_def one_entry_def tree_yaml_def
      new_schema_def plain_field_def new_field_def_def)

theorem loader_meaning_witness:
  "load_from_yaml (tree_yaml (one_entry ''x'' YNone)) ''s.yaml'' = Inr (ok (new_schema\<lparr>s_name := [], s_transport := ''tcp'', s_endian := ''big'',
     s_fields := [plain_field ''id'' U8]\<rparr>)) \<and>
   \<not> (\<exists>s. load_from_yaml (tree_yaml (one_entry ''framing'' (YMap [(''header_len'', YStr ''ten'')]))) ''s.yaml'' = Inr (ok s))"
proof -
  let ?bad = "one_entry ''framing'' (YMap [(''header_len'', YStr ''ten'')])"
  have "\<not> schema_at (tree_yaml ?bad) ?bad s" for s
    by (simp add: schema_at_def section_at_def framing_at_def entry_def one_entry_def tree_yaml_def)
  then show ?thesis
    using loader_meaning [of "tree_yaml (one_entry ''x'' YNone)"] loader_meaning [of "tree_yaml ?bad"] sparse_schema
    by (auto simp: tree_loads)
qed

end
