(* ===== verification/Decoder_Typing.thy ===== *)
theory Decoder_Typing
  imports Decoder_Framing Decoder_Datagrams
begin

text \<open>
  Types of decoded messages: under any schema and on any input, what \<^verbatim>\<open>BinaryDecoder::Decode\<close>
  puts into a message is a field of the schema with a value of the declared type, so that the
  typed accessor \<^verbatim>\<open>FieldValue::As\<close> cannot throw on it.
\<close>

text \<open>A message over fields: each name once, and each value of the type of a field of that name.\<close>

definition typed_message :: "field_def list \<Rightarrow> fields \<Rightarrow> bool" where
  "typed_message fs m \<longleftrightarrow> distinct (map fst m) \<and>
     (\<forall>(n, v) \<in> set m. \<exists>f \<in> set fs. fd_name f = n \<and> fd_type f = value_type v)"

lemma typed_message_Nil [simp]: "typed_message fs []"
  by (simp add: typed_message_def)

lemma typed_message_update:
  assumes "typed_message fs m" and "f \<in> set fs" "value_type v = fd_type f"
  shows "typed_message fs (AList.update (fd_name f) v m)"
proof -
  have "set (AList.update (fd_name f) v m) \<subseteq> insert (fd_name f, v) (set m)"
    by (induction m) auto
  with assms show ?thesis
    unfolding typed_message_def by (fastforce simp: distinct_update)
qed

lemma read_field_type: "read_field d off n t = Inr v \<Longrightarrow> value_type v = t"
  by (cases t) (auto simp: obind_eq_Inr)

lemma read_field_udp_type: "read_field_udp d len off t = Inr v \<Longrightarrow> value_type v = t"
  by (cases t) (auto simp: obind_eq_Inr)

lemma decode_fields_typed:
  assumes "decode_fields d n e gs off m = Inr m'" and "set gs \<subseteq> set fs" "typed_message fs m"
  shows "typed_message fs m'"
  using assms
proof (induction gs arbitrary: off m)
  case (Cons g gs)
  show ?case
  proof (cases "m' = m")
    case False
    with Cons.prems(1) obtain off' v where "read_field d off n (fd_type g) = Inr v"
      "decode_fields d n e gs off' (AList.update (fd_name g) v m) = Inr m'"
      by (auto simp: Let_def obind_eq_Inr simp del: read_field.simps split: if_splits)
    with Cons.IH Cons.prems(2,3) show ?thesis
      by (auto intro: typed_message_update read_field_type)
  qed (use Cons.prems(3) in simp)
qed simp

lemma decode_datagram_typed:
  assumes "decode_datagram d len gs off m = Inr m'" and "set gs \<subseteq> set fs" "typed_message fs m"
  shows "typed_message fs m'"
  using assms
proof (induction gs arbitrary: off m)
  case (Cons g gs)
  show ?case
  proof (cases "m' = m")
    case False
    with Cons.prems(1) obtain off' v where "read_field_udp d len off (fd_type g) = Inr v"
      "decode_datagram d len gs off' (AList.update (fd_name g) v m) = Inr m'"
      by (auto simp: Let_def obind_eq_Inr simp del: read_field_udp.simps split: if_splits)
    with Cons.IH Cons.prems(2,3) show ?thesis
      by (auto intro: typed_message_update read_field_udp_type)
  qed (use Cons.prems(3) in simp)
qed simp

lemma frame_step_typed: "frame_step s d len off = Inr (Some (m, off')) \<Longrightarrow> typed_message (s_fields s) m"
  by (auto simp: frame_step_def Let_def obind_eq_Inr split: if_splits intro: decode_fields_typed)

lemma frame_loop_typed:
  assumes "frame_loop s d len off acc = Some r" and "\<forall>m \<in> set acc. typed_message (s_fields s) m"
  shows "\<forall>ms. r = Inr ms \<longrightarrow> (\<forall>m \<in> set ms. typed_message (s_fields s) m)"
proof -
  have "(\<forall>m \<in> set acc. typed_message (s_fields s) m) \<longrightarrow>
    (\<forall>ms. r = Inr ms \<longrightarrow> (\<forall>m \<in> set ms. typed_message (s_fields s) m))"
  proof (rule frame_loop.raw_induct [where P = "\<lambda>s d len off acc r. (\<forall>m \<in> set acc. typed_message (s_fields s) m) \<longrightarrow>
      (\<forall>ms. r = Inr ms \<longrightarrow> (\<forall>m \<in> set ms. typed_message (s_fields s) m))", OF _ assms(1)])
    fix f s d len off acc r
    assume IH: "\<And>s d len off acc r. f s d len off acc = Some r \<Longrightarrow>
        (\<forall>m \<in> set acc. typed_message (s_fields s) m) \<longrightarrow>
        (\<forall>ms. r = Inr ms \<longrightarrow> (\<forall>m \<in> set ms. typed_message (s_fields s) m))"
      and eq: "(case frame_step s d len off of Inl e \<Rightarrow> Some (Inl e)
        | Inr r \<Rightarrow> (case r of None \<Rightarrow> Some (Inr acc)
          | Some mo \<Rightarrow> f s d len (snd mo) (acc @ [fst mo]))) = Some r"
    show "(\<forall>m \<in> set acc. typed_message (s_fields s) m) \<longrightarrow>
        (\<forall>ms. r = Inr ms \<longrightarrow> (\<forall>m \<in> set ms. typed_message (s_fields s) m))"
    proof (cases "\<exists>m off'. frame_step s d len off = Inr (Some (m, off'))")
      case True
      then obtain m off' where step: "frame_step s d len off = Inr (Some (m, off'))" by blast
      with eq IH [of s d len off' "acc @ [m]" r] frame_step_typed [OF step] show ?thesis by auto
    qed (use eq in \<open>auto split: sum.splits option.splits\<close>)
  qed
  with assms(2) show ?thesis by blast
qed

lemma decode_typed:
  assumes "decode s data len = Some (Inr ms)" and "m \<in> set ms"
  shows "typed_message (s_fields s) m"
  using assms frame_loop_typed [of s _ len 0 "[]" "Inr ms"] decode_datagram_typed [of _ len "s_fields s" 0 "[]"]
  by (auto simp: decode_def obind_eq_Inr split: option.splits if_splits)

text \<open>C15: Decoded messages are well typed: whatever the schema and the bytes, each message the decoder
  returns has every field at most once, each under the name of a field of the schema whose declared type
  is the type of the value; hence, for a schema with distinct field names, reading any field of any
  message with the accessor for its declared type yields the value and never throws.\<close>

theorem decoded_fields_are_typed:
  assumes "decode s data len = Some (Inr ms)" and "m \<in> set ms"
  shows "distinct (map fst m) \<and>
    (\<forall>(n, v) \<in> set m. \<exists>f \<in> set (s_fields s). fd_name f = n \<and> value_as (fd_type f) v = Inr v) \<and>
    (distinct (map fd_name (s_fields s)) \<longrightarrow> (\<forall>f \<in> set (s_fields s). \<forall>v.
      map_of m (fd_name f) = Some v \<longrightarrow> value_as (fd_type f) v = Inr v))"
proof (intro conjI impI)
  from decode_typed [OF assms] have typed: "distinct (map fst m)"
    "\<forall>(n, v) \<in> set m. \<exists>f \<in> set (s_fields s). fd_name f = n \<and> fd_type f = value_type v"
    by (simp_all add: typed_message_def)
  then show "distinct (map fst m)"
    "\<forall>(n, v) \<in> set m. \<exists>f \<in> set (s_fields s). fd_name f = n \<and> value_as (fd_type f) v = Inr v"
    by (simp_all add: value_as_Inr eq_commute [of _ "fd_type f" for f])
  assume dist: "distinct (map fd_name (s_fields s))"
  show "\<forall>f \<in> set (s_fields s). \<forall>v. map_of m (fd_name f) = Some v \<longrightarrow> value_as (fd_type f) v = Inr v"
  proof (intro ballI allI impI)
    fix f v assume f: "f \<in> set (s_fields s)" "map_of m (fd_name f) = Some v"
    then obtain g where g: "g \<in> set (s_fields s)" "fd_name g = fd_name f" "fd_type g = value_type v"
      using typed(2) by (auto dest!: map_of_SomeD)
    then have "g = f" using dist f(1) by (auto simp: distinct_map inj_on_def)
    with g show "value_as (fd_type f) v = Inr v" by (simp add: value_as_Inr)
  qed
qed

theorem decoded_fields_are_typed_witness:
  "\<exists>m. decode vehicle_udp_schema (Some (encode_values beacon_values)) 26 = Some (Inr [m]) \<and>
    distinct (map fst m) \<and>
    (\<forall>v. map_of m ''seq'' = Some v \<longrightarrow> value_as U32 v = Inr v)"
proof -
  let ?s = vehicle_udp_schema
  let ?m = "frame_fields (s_fields ?s) [] (beacon_values, [])"
  have d: "decode ?s (Some (encode_values beacon_values)) 26 = Some (Inr [?m])"
    using datagram_frame [OF beacon_schema, of "(beacon_values, [])" 26] beacon_fixed beacon_size
    by (cases "encode_values beacon_values = []") (simp_all add: frame_bytes_def valid_object_def)
  note typed = decoded_fields_are_typed [OF d, of ?m, simplified, THEN conjunct2, THEN conjunct2]
  have "distinct (map fd_name (s_fields ?s))" and seq: "plain_field ''seq'' U32 \<in> set (s_fields ?s)"
    by (simp_all add: vehicle_udp_schema_def new_schema_def)
  from typed [rule_format, OF this] have "value_as U32 v = Inr v" if "map_of ?m ''seq'' = Some v" for v
    using that by simp
  moreover have "distinct (map fst ?m)" using decoded_fields_are_typed [OF d, of ?m] by simp
  ultimately show ?thesis using d by auto
qed

end
