(* ===== verification/Decoder_Reference.thy ===== *)
theory Decoder_Reference
  imports Decoder_Framing
begin

text \<open>
  A reference parser for the schema language: no offsets, no machine words, no memory; a message is
  split off the front of the list of bytes, a field off the front of a message. The decoder computes
  exactly this parser, its calls that never return included.
\<close>

section \<open>The parser\<close>

definition field_width :: "field_type \<Rightarrow> nat" where
  "field_width t = unat (field_type_size t)"

primrec field_of :: "field_type \<Rightarrow> byte list \<Rightarrow> field_value" where
  "field_of U8 bs = VU8 (of_nat (be_val bs))"
| "field_of U16 bs = VU16 (of_nat (be_val bs))"
| "field_of U32 bs = VU32 (of_nat (be_val bs))"
| "field_of U64 bs = VU64 (of_nat (le_val bs))"
| "field_of I8 bs = VI8 (of_nat (be_val bs))"
| "field_of I16 bs = VI16 (of_nat (be_val bs))"
| "field_of I32 bs = VI32 (of_nat (be_val bs))"
| "field_of I64 bs = VI64 (of_nat (le_val bs))"
| "field_of BYTES bs = VBytes bs"
| "field_of STRING bs = VString (to_chars bs)"

text \<open>The fields of a message, in schema order, up to the first that does not fit. A variable-length
  field takes the number of bytes that \<open>var\<close> gives for what is left of the message.\<close>

fun parse_fields :: "(byte list \<Rightarrow> nat) \<Rightarrow> field_def list \<Rightarrow> byte list \<Rightarrow> (string \<times> field_value) list" where
  "parse_fields var [] b = []"
| "parse_fields var (f # fs) b =
     (let w = (if is_variable (fd_type f) then var b else field_width (fd_type f))
      in if length b < w then []
         else (fd_name f, field_of (fd_type f) (take w b)) # parse_fields var fs (drop w b))"

text \<open>A later field of the same name replaces an earlier one.\<close>

definition to_fields :: "(string \<times> field_value) list \<Rightarrow> fields" where
  "to_fields nvs = foldl (\<lambda>m (n, v). AList.update n v m) [] nvs"

text \<open>The announced length: the last 16-bit field of that name among the fields that lie inside the
  input.\<close>

fun parse_length :: "string \<Rightarrow> field_def list \<Rightarrow> byte list \<Rightarrow> nat \<Rightarrow> nat" where
  "parse_length lf [] b n = n"
| "parse_length lf (f # fs) b n =
     (let w = field_width (fd_type f)
      in if length b < w then n
         else parse_length lf fs (drop w b)
           (if fd_name f = lf \<and> fd_type f = U16 then be_val (take 2 b) else n))"

text \<open>The message at the front of a stream: its announced length, its size, its fields.\<close>

definition front_length :: "protocol_schema \<Rightarrow> byte list \<Rightarrow> nat" where
  "front_length s b = parse_length (fr_length_field (s_framing s)) (s_fields s) b 0"

definition front_size :: "protocol_schema \<Rightarrow> byte list \<Rightarrow> nat" where
  "front_size s b = (if fr_length_includes_header (s_framing s) then front_length s b
     else unat (fr_header_len (s_framing s)) + front_length s b)"

definition front_message :: "protocol_schema \<Rightarrow> byte list \<Rightarrow> fields" where
  "front_message s b =
     to_fields (parse_fields (\<lambda>_. front_length s b) (s_fields s) (take (front_size s b) b))"

definition incomplete :: "protocol_schema \<Rightarrow> byte list \<Rightarrow> bool" where
  "incomplete s b \<longleftrightarrow> b = [] \<or> length b < unat (fr_header_len (s_framing s)) \<or> length b < front_size s b"

text \<open>The messages of a stream; \<open>None\<close> is a stream in which a message of size zero comes up.\<close>

function parse_frames :: "protocol_schema \<Rightarrow> byte list \<Rightarrow> fields list option" where
  "parse_frames s b =
     (if incomplete s b then Some []
      else if front_size s b = 0 then None
      else map_option ((#) (front_message s b)) (parse_frames s (drop (front_size s b) b)))"
  by pat_completeness auto
termination by (relation "measure (length \<circ> snd)") (auto simp: incomplete_def)

declare parse_frames.simps [simp del]

definition parse_stream :: "protocol_schema \<Rightarrow> byte list \<Rightarrow> fields list option" where
  "parse_stream s b =
     (if b = [] then Some []
      else if s_transport s = ''tcp'' \<and> fr_type (s_framing s) = LENGTH_FIELD then parse_frames s b
      else if s_transport s = ''udp'' then Some [to_fields (parse_fields length (s_fields s) b)]
      else Some [])"

section \<open>Fields\<close>

lemma le_val_single: "length bs = Suc 0 \<Longrightarrow> le_val bs = be_val bs"
  by (cases bs) (auto simp: be_val_def)

lemma read_field_of:
  assumes "unat off + (if is_variable t then unat n else field_width t) \<le> length d"
  shows "read_field d off n t =
    Inr (field_of t (take (if is_variable t then unat n else field_width t) (drop (unat off) d)))"
  using assms by (cases t) (simp_all add: mem_read_ok field_width_def is_variable_def le_val_single)

lemma read_field_udp_of:
  assumes "unat off + (if is_variable t then unat (len - off) else field_width t) \<le> length d"
  shows "read_field_udp d len off t =
    Inr (field_of t (take (if is_variable t then unat (len - off) else field_width t) (drop (unat off) d)))"
  using assms by (cases t) (simp_all add: mem_read_ok field_width_def is_variable_def le_val_single)

lemma foldl_update_Cons:
  "foldl (\<lambda>m (n, v). AList.update n v m) m ((n, v) # nvs) =
    foldl (\<lambda>m (n, v). AList.update n v m) (AList.update n v m) nvs"
  by simp

text \<open>The end of a field: in words and in the numbers they stand for.\<close>

lemma field_end_le:
  fixes off lim w :: size_t
  assumes "unat off \<le> unat lim" "unat lim < 2 ^ 63" "unat w < 2 ^ 63"
  shows "off + w > lim \<longleftrightarrow> unat lim - unat off < unat w"
    and "\<not> off + w > lim \<Longrightarrow> unat (off + w) = unat off + unat w"
proof -
  have "unat (off + w) = unat off + unat w"
    by (rule field_end_nat [OF le_less_trans [OF assms(1,2)] assms(3)])
  then show "off + w > lim \<longleftrightarrow> unat lim - unat off < unat w"
    "\<not> off + w > lim \<Longrightarrow> unat (off + w) = unat off + unat w"
    using assms(1) by (auto simp: word_less_nat_alt)
qed

lemma decode_fields_parse:
  assumes d: "valid_object d len" and "unat stop \<le> unat len" "unat off \<le> unat stop"
  shows "decode_fields d n stop fs off m = Inr (foldl (\<lambda>m (n, v). AList.update n v m) m
    (parse_fields (\<lambda>_. unat n) fs (take (unat stop - unat off) (drop (unat off) d))))"
  using assms(3)
proof (induction fs arbitrary: off m)
  case (Cons f fs)
  let ?sz = "if fd_type f = BYTES \<or> fd_type f = STRING then ucast n else field_type_size (fd_type f)"
  let ?w = "if is_variable (fd_type f) then unat n else field_width (fd_type f)"
  let ?b = "take (unat stop - unat off) (drop (unat off) d)"
  have sz: "unat ?sz = ?w" by (auto simp: is_variable_def field_width_def)
  have small: "unat stop < 2 ^ 63" "unat ?sz < 2 ^ 63"
    using assms(1,2) field_type_size_le [of "fd_type f"] u16_bound [of n] by (auto simp: valid_object_def)
  have b: "length ?b = unat stop - unat off" using assms(1,2) by (auto simp: valid_object_def)
  note ends = field_end_le [OF Cons.prems small]
  show ?case
  proof (cases "off + ?sz > stop")
    case True
    then show ?thesis using ends(1) b sz by (simp add: Let_def)
  next
    case False
    then have fit: "\<not> length ?b < ?w" and next_off: "unat (off + ?sz) = unat off + ?w"
      using ends b sz by auto
    have inside: "unat off + ?w \<le> length d"
      using fit b assms(1,2) Cons.prems unfolding valid_object_def by linarith
    have taken: "take ?w ?b = take ?w (drop (unat off) d)" using fit b by (auto simp: min_def)
    have rest: "take (unat stop - unat (off + ?sz)) (drop (unat (off + ?sz)) d) = drop ?w ?b"
      unfolding next_off by (simp add: drop_take ac_simps)
    have "unat (off + ?sz) \<le> unat stop" using next_off fit b Cons.prems by linarith
    from Cons.IH [OF this] show ?thesis
      using False fit read_field_of [OF inside] by (simp only: rest) (simp add: Let_def taken del: take_take)
  qed
qed simp

lemma decode_datagram_parse:
  assumes d: "valid_object d len" and "unat off \<le> unat len"
  shows "decode_datagram d len fs off m = Inr (foldl (\<lambda>m (n, v). AList.update n v m) m
    (parse_fields length fs (drop (unat off) d)))"
  using assms(2)
proof (induction fs arbitrary: off m)
  case (Cons f fs)
  let ?sz = "if fd_type f = BYTES \<or> fd_type f = STRING then len - off else field_type_size (fd_type f)"
  let ?b = "drop (unat off) d"
  let ?w = "if is_variable (fd_type f) then length ?b else field_width (fd_type f)"
  have len: "unat len = length d" "unat len < 2 ^ 63" using d by (simp_all add: valid_object_def)
  have rest: "unat (len - off) = length ?b"
    using Cons.prems len by (simp add: size_sub_nat word_le_nat_alt)
  then have sz: "unat ?sz = ?w" by (auto simp: is_variable_def field_width_def)
  have small: "unat ?sz < 2 ^ 63"
    using len rest field_type_size_le [of "fd_type f"] by (auto simp: not_less intro: le_less_trans [rotated])
  note ends = field_end_le [OF Cons.prems len(2) small]
  show ?case
  proof (cases "off + ?sz > len")
    case True
    then show ?thesis using ends(1) len(1) sz by (simp add: Let_def)
  next
    case False
    then have fit: "\<not> length ?b < ?w" and next_off: "unat (off + ?sz) = unat off + ?w"
      using ends len sz by auto
    have inside: "unat off + (if is_variable (fd_type f) then unat (len - off) else field_width (fd_type f)) \<le> length d"
      using fit len Cons.prems rest unfolding length_drop by (auto split: if_splits)
    have "unat (off + ?sz) \<le> unat len" using next_off fit len Cons.prems by (auto split: if_splits)
    from Cons.IH [OF this] show ?thesis
      using False fit read_field_udp_of [OF inside] rest
      by (simp only: next_off) (simp add: Let_def ac_simps)
  qed
qed simp

lemma find_length_parse:
  assumes d: "valid_object d len" and "unat off \<le> unat len"
  shows "\<exists>n'. find_length fr d len fs off n = Inr n' \<and>
    unat n' = parse_length (fr_length_field fr) fs (drop (unat off) d) (unat n)"
  using assms(2)
proof (induction fs arbitrary: off n)
  case (Cons f fs)
  let ?sz = "field_type_size (fd_type f)"
  let ?b = "drop (unat off) d"
  have len: "unat len = length d" "unat len < 2 ^ 63" using d by (simp_all add: valid_object_def)
  have small: "unat ?sz < 2 ^ 63" using field_type_size_le [of "fd_type f"] by simp
  note ends = field_end_le [OF Cons.prems len(2) small]
  show ?case
  proof (cases "off + ?sz > len")
    case True
    then show ?thesis using ends(1) len(1) by (simp add: Let_def field_width_def)
  next
    case False
    then have fit: "\<not> length ?b < field_width (fd_type f)"
      and next_off: "unat (off + ?sz) = unat off + field_width (fd_type f)"
      using ends len by (auto simp: field_width_def)
    have le: "unat (off + ?sz) \<le> unat len" using next_off fit len Cons.prems by auto
    have read: "mem_read d off 2 = Inr (take 2 ?b)" "length (take 2 ?b) = 2" if "fd_type f = U16"
      using that fit len Cons.prems by (auto simp: mem_read_def field_width_def)
    have val: "unat (of_nat (be_val bs) :: u16) = be_val bs" if "length bs = 2" for bs
      using be_val_less [of bs] that by (intro unat_of_nat_less) simp
    have rest: "drop (field_width (fd_type f)) ?b = drop (unat (off + ?sz)) d"
      unfolding next_off by (simp add: ac_simps)
    show ?thesis
    proof (cases "fd_name f = fr_length_field fr \<and> fd_type f = U16")
      case True
      then show ?thesis
        using Cons.IH [OF le, of "of_nat (be_val (take 2 ?b))"] False fit read val next_off
        by (simp add: Let_def ac_simps)
    next
      case other: False
      then show ?thesis
        using Cons.IH [OF le, of n] False fit next_off by (auto simp: Let_def ac_simps)
    qed
  qed
qed simp

section \<open>Messages\<close>

lemma message_size_nat:
  assumes "sane_header fr"
  shows "unat (message_size fr n) =
    (if fr_length_includes_header fr then unat n else unat (fr_header_len fr) + unat n)"
  using assms u16_bound [of n] by (simp add: message_size_def sane_header_def size_add_nat)

lemma frame_step_parse:
  assumes d: "valid_object d len" and fr: "sane_header (s_framing s)" and off: "unat off \<le> unat len"
  defines "b \<equiv> drop (unat off) d"
  shows "incomplete s b \<Longrightarrow> frame_step s d len off = Inr None"
    and "\<not> incomplete s b \<Longrightarrow>
      frame_step s d len off = Inr (Some (front_message s b, off + of_nat (front_size s b)))"
    and "\<not> incomplete s b \<Longrightarrow> unat (off + of_nat (front_size s b)) = unat off + front_size s b"
proof -
  have len: "unat len = length d" "unat len < 2 ^ 63" using d by (simp_all add: valid_object_def)
  obtain n where n: "find_length (s_framing s) d len (s_fields s) off 0 = Inr n" "unat n = front_length s b"
    using find_length_parse [OF d off, of "s_framing s" "s_fields s" 0] by (auto simp: front_length_def b_def)
  let ?hl = "fr_header_len (s_framing s)" and ?ms = "message_size (s_framing s) n"
  have ms: "unat ?ms = front_size s b" using message_size_nat [OF fr] n(2) by (simp add: front_size_def)
  then have ms_word: "of_nat (front_size s b) = ?ms" by (metis of_nat_unat ucast_id)
  have hl: "unat ?hl < 2 ^ 63" using fr by (simp add: sane_header_def)
  have lb: "length b = unat len - unat off" using len by (simp add: b_def)
  have nonempty: "off < len \<longleftrightarrow> b \<noteq> []" using off len by (auto simp: b_def word_less_nat_alt)
  note header = field_end_le [OF off len(2) hl]
  note whole = field_end_le [OF off len(2) message_size_bound [OF fr, of n], unfolded ms]
  show "frame_step s d len off = Inr None" if "incomplete s b"
    using that n(1) nonempty header(1) whole(1) lb by (auto simp: incomplete_def frame_step_def Let_def)
  assume "\<not> incomplete s b"
  then have fits: "off < len" "\<not> off + ?hl > len" "\<not> off + ?ms > len" and small: "front_size s b \<le> length b"
    using nonempty header(1) whole(1) lb by (auto simp: incomplete_def)
  have stop: "unat (off + ?ms) = unat off + front_size s b" by (rule whole(2) [OF fits(3)])
  then show "unat (off + of_nat (front_size s b)) = unat off + front_size s b" by (simp only: ms_word)
  have "unat (off + ?ms) \<le> unat len" "unat off \<le> unat (off + ?ms)"
    using stop small lb off by auto
  from decode_fields_parse [OF d this, of n "s_fields s" "[]"] have
    "decode_fields d n (off + ?ms) (s_fields s) off [] = Inr (front_message s b)"
    by (simp add: front_message_def to_fields_def b_def stop n(2))
  then show "frame_step s d len off = Inr (Some (front_message s b, off + of_nat (front_size s b)))"
    using fits n(1) by (simp add: frame_step_def Let_def ms_word)
qed

lemma frame_loop_parse:
  assumes d: "valid_object d len" and fr: "sane_header (s_framing s)" and "unat off \<le> unat len"
  shows "frame_loop s d len off acc =
    map_option (\<lambda>ms. Inr (acc @ ms)) (parse_frames s (drop (unat off) d))"
  using assms(3)
proof (induction "length d - unat off" arbitrary: off acc rule: less_induct)
  case less
  let ?b = "drop (unat off) d"
  let ?sz = "front_size s ?b"
  have len: "unat len = length d" using d by (simp add: valid_object_def)
  note step = frame_step_parse [OF d fr less.prems] and unroll = parse_frames.simps [of s ?b]
  show ?case
  proof (cases "incomplete s ?b")
    case True
    then show ?thesis using step(1) unroll by (simp add: frame_loop_stop)
  next
    case False
    note loop = frame_loop_next [OF step(2) [OF False]] and next_off = step(3) [OF False]
    show ?thesis
    proof (cases "?sz = 0")
      case True
      then show ?thesis using step(2) [OF False] False unroll by (simp add: stuck_step_diverges)
    next
      case pos: False
      have "length d - unat (off + of_nat ?sz) < length d - unat off" "unat (off + of_nat ?sz) \<le> unat len"
        using False pos len unfolding next_off by (auto simp: incomplete_def)
      from less.hyps [OF this, of "acc @ [front_message s ?b]"] show ?thesis
        using False pos unroll by (simp add: loop next_off option.map_comp o_def ac_simps)
    qed
  qed
qed

lemma decode_parses:
  assumes "valid_object d len" and "sane_header (s_framing s)"
  shows "decode s (Some d) len = map_option Inr (parse_stream s d)"
proof -
  have "len = 0 \<longleftrightarrow> d = []"
    using assms(1) by (auto simp: valid_object_def word_unat_eq_iff)
  then show ?thesis
    using frame_loop_parse [OF assms, of 0 "[]"] decode_datagram_parse [OF assms(1), of 0 "s_fields s" "[]"]
    by (simp add: decode_def parse_stream_def to_fields_def)
qed

text \<open>C4: The decoder is the reference parser: for every schema whose header length does not wrap around and
  every object, \<open>Decode\<close> returns exactly the messages that the parser finds, and it fails to return exactly
  where the parser meets a message of size zero. The offsets, the 64-bit sums, the bounds checks and the
  two loops over the fields amount to splitting the bytes off the front.\<close>

theorem decode_is_parser:
  assumes "valid_object d len" and "sane_header (s_framing s)"
  shows "decode s (Some d) len = map_option Inr (parse_stream s d)"
  by (rule decode_parses [OF assms])

lemma total_length_parses:
  "parse_stream total_length_schema [0, 4, 9, 9, 0, 3, 1] = Some [[(''n'', VU16 4)], [(''n'', VU16 3)]]"
  "parse_stream total_length_schema [0, 4, 9, 9, 0, 0] = None"
  by (simp_all add: parse_stream_def total_length_schema_def new_schema_def new_field_def_def new_framing_def
      parse_frames.simps incomplete_def front_size_def front_length_def front_message_def field_width_def is_variable_def be_val_def to_fields_def)

theorem decode_is_parser_witness:
  "decode total_length_schema (Some [0, 4, 9, 9, 0, 3, 1]) 7 = Some (Inr [[(''n'', VU16 4)], [(''n'', VU16 3)]]) \<and>
   decode total_length_schema (Some [0, 4, 9, 9, 0, 0]) 6 = None"
  using decode_is_parser [of "[0, 4, 9, 9, 0, 3, 1]" 7, OF _ total_length_sane]
    decode_is_parser [of "[0, 4, 9, 9, 0, 0]" 6, OF _ total_length_sane]
  by (simp add: valid_object_def total_length_parses)

text \<open>Schemas that load and under which nothing is ever decoded, without any error: those with a transport
  that is neither \<^verbatim>\<open>tcp\<close> nor \<^verbatim>\<open>udp\<close>, and TCP schemas without a framing section, whose framing is that of
  datagrams.\<close>

lemma silent_schemas:
  assumes "s_transport s \<notin> {''tcp'', ''udp''} \<or> s_transport s = ''tcp'' \<and> s_framing s = new_framing"
  shows "decode s d len = Some (Inr [])"
  using assms by (auto simp: decode_def new_framing_def split: option.splits)

section \<open>Nothing is invented\<close>

text \<open>Field by field, the encoder is the inverse of the parser.\<close>

lemma string_bytes: "map (\<lambda>c. of_nat (of_char c)) (to_chars bs) = bs"
proof -
  have "(of_nat (of_char (char_of (unat b) :: char)) :: byte) = b" for b :: byte
    by (simp add: word_unat_eq_iff)
  then show ?thesis by (simp add: to_chars_def o_def)
qed

lemma be_word_nat: "(256 :: nat) ^ length bs \<le> 2 ^ LENGTH('a) \<Longrightarrow> unat (of_nat (be_val bs) :: 'a::len word) = be_val bs"
  using be_val_less [of bs] by (intro unat_of_nat_less) (rule less_le_trans)

lemma le_word_nat: "(256 :: nat) ^ length bs \<le> 2 ^ LENGTH('a) \<Longrightarrow> unat (of_nat (le_val bs) :: 'a::len word) = le_val bs"
  using le_val_less [of bs] by (intro unat_of_nat_less) (rule less_le_trans)

lemma byte_of_single: "length bs = Suc 0 \<Longrightarrow> [of_nat (be_val bs)] = bs"
  by (cases bs) (simp_all add: be_val_def)

lemma encode_field_of:
  assumes "is_variable t \<or> length bs = field_width t"
  shows "encode_value (field_of t bs) = bs"
proof (cases t)
  case STRING
  then show ?thesis using string_bytes [of bs] by simp
qed (use assms in \<open>simp_all add: is_variable_def field_width_def be_word_nat le_word_nat byte_of_single\<close>)

lemma parse_fields_bytes: "\<exists>r. b = encode_values (map snd (parse_fields var fs b)) @ r"
proof (induction fs arbitrary: b)
  case (Cons f fs)
  define w where "w = (if is_variable (fd_type f) then var b else field_width (fd_type f))"
  show ?case
  proof (cases "length b < w")
    case False
    then have "encode_value (field_of (fd_type f) (take w b)) = take w b"
      by (intro encode_field_of) (simp add: w_def)
    moreover obtain r where "drop w b = encode_values (map snd (parse_fields var fs (drop w b))) @ r"
      using Cons.IH by blast
    ultimately show ?thesis
      using False append_take_drop_id [of w b] by (intro exI [of _ r]) (simp add: Let_def w_def [symmetric] del: append_take_drop_id)
  qed (simp add: Let_def w_def [symmetric])
qed simp

lemma parse_fields_names: "map fst (parse_fields var fs b) = take (length (parse_fields var fs b)) (map fd_name fs)"
  by (induction fs arbitrary: b) (simp_all add: Let_def)

lemma to_fields_distinct:
  assumes "distinct (map fst nvs)"
  shows "to_fields nvs = nvs"
proof -
  have "foldl (\<lambda>m (n, v). AList.update n v m) m nvs = m @ nvs" if "distinct (map fst (m @ nvs))" for m
    using that
  proof (induction nvs arbitrary: m)
    case (Cons nv nvs)
    obtain n v where nv: "nv = (n, v)" by (cases nv)
    have "AList.update n v m = m @ [(n, v)]"
      using Cons.prems nv by (induction m) auto
    with Cons show ?case by (simp add: nv)
  qed simp
  from this [of "[]"] assms show ?thesis by (simp add: to_fields_def)
qed

text \<open>What a decoded message says of the bytes it was read from.\<close>

definition reads_as :: "field_def list \<Rightarrow> fields \<Rightarrow> byte list \<Rightarrow> bool" where
  "reads_as fs m c \<longleftrightarrow> map fst m = take (length m) (map fd_name fs) \<and> (\<exists>r. c = encode_values (map snd m) @ r)"

lemma parse_fields_read:
  "distinct (map fd_name fs) \<Longrightarrow> reads_as fs (to_fields (parse_fields var fs c)) c"
  using parse_fields_bytes [of c var fs] parse_fields_names [of var fs c]
  by (simp add: reads_as_def to_fields_distinct distinct_take)

lemma parse_frames_read:
  assumes "distinct (map fd_name (s_fields s))" and "parse_frames s b = Some ms"
  shows "\<exists>cs rest. b = concat cs @ rest \<and> list_all2 (reads_as (s_fields s)) ms cs"
  using assms
proof (induction s b arbitrary: ms rule: parse_frames.induct [case_names frames])
  case (frames s b)
  let ?sz = "front_size s b"
  show ?case
  proof (cases "incomplete s b")
    case True
    then show ?thesis using frames.prems by (intro exI [of _ "[]"] exI [of _ b]) (simp add: parse_frames.simps)
  next
    case False
    then obtain ms' where ms': "?sz \<noteq> 0" "parse_frames s (drop ?sz b) = Some ms'" "ms = front_message s b # ms'"
      using frames.prems by (auto simp: parse_frames.simps [of s b] split: if_splits)
    from frames.IH [OF False ms'(1) frames.prems(1) ms'(2)] obtain cs rest where
      cs: "drop ?sz b = concat cs @ rest" "list_all2 (reads_as (s_fields s)) ms' cs" by blast
    have "reads_as (s_fields s) (front_message s b) (take ?sz b)"
      unfolding front_message_def by (rule parse_fields_read [OF frames.prems(1)])
    moreover have "b = concat (take ?sz b # cs) @ rest" using append_take_drop_id [of ?sz b] cs(1) by simp
    ultimately show ?thesis
      using cs(2) ms'(3) by (intro exI [of _ "take ?sz b # cs"] exI [of _ rest]) simp
  qed
qed

text \<open>C14: Nothing is invented: when no two fields of the schema share a name, the messages
  that \<open>Decode\<close> returns were read from consecutive pieces at the front of the input; each message has an initial
  part of the schema's fields, in their order, and its values, encoded again one after the other (64-bit integers in the order of the host), are the bytes
  at the front of its piece.\<close>

theorem decoded_bytes_are_input:
  assumes "valid_object d len" and "sane_header (s_framing s)" "distinct (map fd_name (s_fields s))"
    and "decode s (Some d) len = Some (Inr ms)"
  shows "\<exists>cs rest. d = concat cs @ rest \<and> list_all2 (reads_as (s_fields s)) ms cs"
proof -
  have "parse_stream s d = Some ms"
    using assms(4) decode_parses [OF assms(1,2)] by simp
  moreover have ?thesis if "ms = []" using that by (intro exI [of _ "[]"] exI [of _ d]) simp
  moreover have ?thesis if "ms = [to_fields (parse_fields length (s_fields s) d)]"
    using that parse_fields_read [OF assms(3), of length d] by (intro exI [of _ "[d]"] exI [of _ "[]"]) simp
  ultimately show ?thesis
    using parse_frames_read [OF assms(3), of d ms] by (auto simp: parse_stream_def split: if_splits)
qed

theorem decoded_bytes_are_input_witness:
  "\<exists>cs rest. [0, 4, 9, 9, 0, 3, 1] = concat cs @ rest \<and>
    list_all2 (reads_as (s_fields total_length_schema)) [[(''n'', VU16 4)], [(''n'', VU16 3)]] cs"
proof (rule decoded_bytes_are_input [OF _ total_length_sane])
  show "valid_object [0, 4, 9, 9, 0, 3, 1] 7" by (simp add: valid_object_def)
  then show "decode total_length_schema (Some [0, 4, 9, 9, 0, 3, 1]) 7 = Some (Inr [[(''n'', VU16 4)], [(''n'', VU16 3)]])"
    using decode_parses [OF _ total_length_sane] by (simp add: total_length_parses)
qed (simp add: total_length_schema_def)

end
