(* ===== verification/Demo_Servers.thy ===== *)
theory Demo_Servers
  imports Decoder_Datagrams Decoder_Reference
begin

text \<open>
  The message handling of the demo servers
  (\<^verbatim>\<open>examples/demo-server/tcp_demo_server.cpp\<close>, \<^verbatim>\<open>udp_demo_server.cpp\<close>): what they
  print and answer for the bytes of one receive call, and how that relates to the decoder
  under the shipped schemas. A receive buffer lives across calls; a byte nothing has been
  received into is \<open>None\<close>.
\<close>

unbundle bit_operations_syntax

section \<open>Receive buffers\<close>

type_synonym recv_buffer = "byte option list"

definition received :: "byte list \<Rightarrow> recv_buffer \<Rightarrow> recv_buffer" where
  "received bs buf = map Some bs @ drop (length bs) buf"

definition buf_at :: "recv_buffer \<Rightarrow> nat \<Rightarrow> byte outcome" where
  "buf_at buf i =
     (if i < length buf then (case buf ! i of None \<Rightarrow> Inl Indeterminate_Read | Some b \<Rightarrow> Inr b)
      else Inl Out_Of_Bounds)"

text \<open>\<open>(buf[i] << 8) | buf[i + 1]\<close> and its four-byte form.\<close>

definition shift16 :: "byte \<Rightarrow> byte \<Rightarrow> u16" where
  "shift16 a b = push_bit 8 (ucast a) OR ucast b"

definition shift32 :: "byte \<Rightarrow> byte \<Rightarrow> byte \<Rightarrow> byte \<Rightarrow> u32" where
  "shift32 a b c d = push_bit 24 (ucast a) OR push_bit 16 (ucast b) OR push_bit 8 (ucast c) OR ucast d"

definition buf_16 :: "recv_buffer \<Rightarrow> nat \<Rightarrow> u16 outcome" where
  "buf_16 buf i = obind (buf_at buf i) (\<lambda>a. obind (buf_at buf (i + 1)) (\<lambda>b. Inr (shift16 a b)))"

definition buf_32 :: "recv_buffer \<Rightarrow> nat \<Rightarrow> u32 outcome" where
  "buf_32 buf i = obind (buf_at buf i) (\<lambda>a. obind (buf_at buf (i + 1)) (\<lambda>b.
     obind (buf_at buf (i + 2)) (\<lambda>c. obind (buf_at buf (i + 3)) (\<lambda>d. Inr (shift32 a b c d)))))"

text \<open>The loop \<open>device_id = (device_id << 8) | buf[4 + i]\<close>.\<close>

definition buf_64 :: "recv_buffer \<Rightarrow> nat \<Rightarrow> u64 outcome" where
  "buf_64 buf i = ofold (\<lambda>j v. obind (buf_at buf (i + j)) (\<lambda>b. Inr (push_bit 8 v OR ucast b))) [0..<8] 0"

section \<open>The TCP server\<close>

record demo_message =
  dm_version :: byte
  dm_msg_type :: byte
  dm_seq :: u32
  dm_payload_len :: u16

definition tcp_demo_fields :: "recv_buffer \<Rightarrow> demo_message outcome" where
  "tcp_demo_fields buf =
     obind (buf_16 buf 0) (\<lambda>magic. obind (buf_at buf 2) (\<lambda>version. obind (buf_at buf 3) (\<lambda>msg_type.
     obind (buf_32 buf 4) (\<lambda>seq. obind (buf_16 buf 8) (\<lambda>payload_len.
       Inr \<lparr>dm_version = version, dm_msg_type = msg_type, dm_seq = seq, dm_payload_len = payload_len\<rparr>)))))"

definition tcp_demo_log :: "demo_message \<Rightarrow> nat \<Rightarrow> string" where
  "tcp_demo_log m n =
     ''  msg_type='' @ show_nat (unat (dm_msg_type m)) @ '' seq='' @ show_nat (unat (dm_seq m)) @
     '' payload_len='' @ show_nat (unat (dm_payload_len m)) @ '' total='' @ show_nat n @ '' bytes'' @ [CHR 0x0A]"

definition tcp_demo_ack :: "demo_message \<Rightarrow> byte list" where
  "tcp_demo_ack m = [0xCA, 0xFE, dm_version m, 0x02, 0, 0, 0, ucast (dm_seq m + 1), 0, 0]"

text \<open>One \<open>recv\<close> of the inner loop: the line printed and the bytes sent back, if any.\<close>

definition tcp_demo_handle ::
    "byte list \<Rightarrow> recv_buffer \<Rightarrow> ((string \<times> byte list) option \<times> recv_buffer) outcome" where
  "tcp_demo_handle bs buf0 =
     (let buf = received bs buf0; n = length bs
      in if n \<ge> 10
         then obind (tcp_demo_fields buf) (\<lambda>m. Inr (Some (tcp_demo_log m n, tcp_demo_ack m), buf))
         else Inr (None, buf))"

section \<open>The UDP server\<close>

record demo_datagram =
  dd_device_id :: u64
  dd_msg_type :: byte
  dd_seq :: u32

definition udp_demo_fields :: "recv_buffer \<Rightarrow> demo_datagram option outcome" where
  "udp_demo_fields buf =
     obind (buf_16 buf 0) (\<lambda>magic.
       if magic = 0xCAFE
       then obind (buf_at buf 2) (\<lambda>version. obind (buf_at buf 3) (\<lambda>msg_type.
            obind (buf_64 buf 4) (\<lambda>device_id. obind (buf_32 buf 12) (\<lambda>seq.
              Inr (Some \<lparr>dd_device_id = device_id, dd_msg_type = msg_type, dd_seq = seq\<rparr>)))))
       else Inr None)"

definition udp_demo_log :: "demo_datagram \<Rightarrow> string" where
  "udp_demo_log m = ''device='' @ show_nat (unat (dd_device_id m)) @ '' msg_type='' @
     show_nat (unat (dd_msg_type m)) @ '' seq='' @ show_nat (unat (dd_seq m))"

definition udp_demo_handle ::
    "byte list \<Rightarrow> recv_buffer \<Rightarrow> (string \<times> recv_buffer) outcome" where
  "udp_demo_handle bs buf0 =
     (let buf = received bs buf0
      in if length bs \<ge> 10
         then obind (udp_demo_fields buf) (\<lambda>r.
                Inr ((case r of None \<Rightarrow> [] | Some m \<Rightarrow> udp_demo_log m) @ [CHR 0x0A], buf))
         else Inr ([CHR 0x0A], buf))"

section \<open>Shifts are big-endian values\<close>

lemma bit_byte: "bit (b :: byte) n \<Longrightarrow> n < 8"
  using bit_imp_le_length [of b n] by simp

lemma or_low:
  fixes hi :: "'a::len word"
  assumes "\<And>n. bit hi n \<Longrightarrow> k \<le> n" and "\<And>n. bit lo n \<Longrightarrow> n < k"
  shows "hi OR lo = hi + lo"
  using assms by (intro disjunctive_add [symmetric]) (metis linorder_not_less)

lemma shift16_be: "shift16 a b = of_nat (be_val [a, b])"
proof -
  have "shift16 a b = push_bit 8 (ucast a) + ucast b"
    unfolding shift16_def by (rule or_low [where k = 8]) (auto simp: bit_simps dest: bit_byte)
  then show ?thesis
    by (simp add: be_val_def push_bit_eq_mult algebra_simps)
qed

lemma shift32_be: "shift32 a b c d = of_nat (be_val [a, b, c, d])"
proof -
  have 1: "push_bit 8 (ucast c :: u32) OR ucast d = push_bit 8 (ucast c) + ucast d"
    by (rule or_low [where k = 8]) (auto simp: bit_simps dest: bit_byte)
  have 2: "push_bit 16 (ucast b :: u32) OR (push_bit 8 (ucast c) OR ucast d) =
      push_bit 16 (ucast b) + (push_bit 8 (ucast c) OR ucast d)"
    by (rule or_low [where k = 16]) (auto simp: bit_simps dest: bit_byte)
  have 3: "push_bit 24 (ucast a :: u32) OR (push_bit 16 (ucast b) OR (push_bit 8 (ucast c) OR ucast d)) =
      push_bit 24 (ucast a) + (push_bit 16 (ucast b) OR (push_bit 8 (ucast c) OR ucast d))"
    by (rule or_low [where k = 24]) (auto simp: bit_simps dest: bit_byte)
  have "shift32 a b c d = push_bit 24 (ucast a) + (push_bit 16 (ucast b) + (push_bit 8 (ucast c) + ucast d))"
    using 1 2 3 by (simp add: shift32_def or.assoc)
  then show ?thesis
    by (simp add: be_val_def push_bit_eq_mult algebra_simps)
qed

section \<open>Servers and decoder agree\<close>

lemma received_at [simp]:
  "i < length bs \<Longrightarrow> buf_at (received bs buf) i = Inr (bs ! i)"
  by (simp add: buf_at_def received_def nth_append)

lemma be_bytes_2: "be_bytes 2 v = [of_nat (v div 256), of_nat v]"
  by (simp add: be_bytes_def numeral_2_eq_2)

lemma be_bytes_4: "be_bytes 4 v =
    [of_nat (v div 256 div 256 div 256), of_nat (v div 256 div 256), of_nat (v div 256), of_nat v]"
proof -
  have 4: "(4 :: nat) = Suc (Suc (Suc (Suc 0)))" by simp
  show ?thesis unfolding be_bytes_def 4 le_bytes.simps by simp
qed

lemma shift16_encoded:
  "shift16 (be_bytes 2 (unat (v :: u16)) ! 0) (be_bytes 2 (unat v) ! 1) = v"
proof -
  have "[be_bytes 2 (unat v) ! 0, be_bytes 2 (unat v) ! 1] = be_bytes 2 (unat v)" by (simp add: be_bytes_2)
  then have "shift16 (be_bytes 2 (unat v) ! 0) (be_bytes 2 (unat v) ! 1) = of_nat (be_val (be_bytes 2 (unat v)))"
    by (simp only: shift16_be)
  then show ?thesis by simp
qed

lemma shift32_encoded:
  "shift32 (be_bytes 4 (unat (v :: u32)) ! 0) (be_bytes 4 (unat v) ! 1) (be_bytes 4 (unat v) ! 2)
    (be_bytes 4 (unat v) ! 3) = v"
proof -
  have "[be_bytes 4 (unat v) ! 0, be_bytes 4 (unat v) ! 1, be_bytes 4 (unat v) ! 2, be_bytes 4 (unat v) ! 3] =
      be_bytes 4 (unat v)" by (simp add: be_bytes_4)
  then have "shift32 (be_bytes 4 (unat v) ! 0) (be_bytes 4 (unat v) ! 1) (be_bytes 4 (unat v) ! 2)
      (be_bytes 4 (unat v) ! 3) = of_nat (be_val (be_bytes 4 (unat v)))"
    by (simp only: shift32_be)
  then show ?thesis by simp
qed

lemma tcp_demo_fields_frame:
  "tcp_demo_fields (received (frame_bytes ([VU16 magic, VU8 ver, VU8 ty, VU32 sq, VU16 n], pl)) buf) =
    Inr \<lparr>dm_version = ver, dm_msg_type = ty, dm_seq = sq, dm_payload_len = n\<rparr>"
proof -
  define bs where "bs = be_bytes 2 (unat magic) @ [ver, ty] @ be_bytes 4 (unat sq) @ be_bytes 2 (unat n) @ pl"
  have bytes: "frame_bytes ([VU16 magic, VU8 ver, VU8 ty, VU32 sq, VU16 n], pl) = bs"
    by (simp add: frame_bytes_def bs_def)
  have at: "bs ! 2 = ver" "bs ! 3 = ty"
    "bs ! 4 = be_bytes 4 (unat sq) ! 0" "bs ! 5 = be_bytes 4 (unat sq) ! 1"
    "bs ! 6 = be_bytes 4 (unat sq) ! 2" "bs ! 7 = be_bytes 4 (unat sq) ! 3"
    "bs ! 8 = be_bytes 2 (unat n) ! 0" "bs ! 9 = be_bytes 2 (unat n) ! 1"
    by (simp_all add: bs_def nth_append nth_Cons')
  have read: "buf_at (received bs buf) i = Inr (bs ! i)" if "i < 10" for i
    using that by (intro received_at) (simp add: bs_def)
  show ?thesis
    unfolding bytes
    by (simp add: tcp_demo_fields_def buf_16_def buf_32_def read at shift16_encoded [simplified]
        shift32_encoded [simplified] del: received_at)
qed

lemma demo_ack_frame: "tcp_demo_ack m =
    frame_bytes ([VU16 0xCAFE, VU8 (dm_version m), VU8 2, VU32 (of_nat (unat (dm_seq m + 1) mod 256)), VU16 0], [])"
proof -
  define k where "k = unat (dm_seq m + 1) mod 256"
  have "k < 256" by (simp add: k_def)
  moreover from this have "unat (of_nat k :: u32) = k" by (intro unat_of_nat_less) simp
  moreover have "(ucast (dm_seq m + 1) :: byte) = of_nat k"
    by (simp add: word_unat_eq_iff unsigned_ucast_eq take_bit_eq_mod k_def unsigned_of_nat)
  ultimately show ?thesis
    unfolding k_def [symmetric]
    by (simp add: tcp_demo_ack_def frame_bytes_def be_bytes_2 be_bytes_4 del: of_nat_add)
qed

text \<open>Ten bytes or more are a header and what follows it.\<close>

definition demo_header :: "u16 \<Rightarrow> demo_message \<Rightarrow> field_value list" where
  "demo_header magic m =
     [VU16 magic, VU8 (dm_version m), VU8 (dm_msg_type m), VU32 (dm_seq m), VU16 (dm_payload_len m)]"

definition demo_fields :: "u16 \<Rightarrow> demo_message \<Rightarrow> fields" where
  "demo_fields magic m = [(''magic'', VU16 magic), (''version'', VU8 (dm_version m)),
     (''msg_type'', VU8 (dm_msg_type m)), (''seq'', VU32 (dm_seq m)), (''payload_len'', VU16 (dm_payload_len m))]"

lemma be_bytes_read:
  "be_bytes 2 (unat (of_nat (be_val [a, b]) :: u16)) = [a, b]"
  "be_bytes 4 (unat (of_nat (be_val [a, b, c, d]) :: u32)) = [a, b, c, d]"
  by (simp_all add: be_word_nat)

lemma demo_split:
  assumes "10 \<le> length bs"
  obtains magic m where "bs = frame_bytes (demo_header magic m, drop 10 bs)"
proof -
  obtain b0 b1 b2 b3 b4 b5 b6 b7 b8 b9 pl where "bs = b0 # b1 # b2 # b3 # b4 # b5 # b6 # b7 # b8 # b9 # pl"
    using assms by (auto simp: Suc_le_length_iff numeral_eq_Suc)
  then have "bs = frame_bytes (demo_header (of_nat (be_val [b0, b1]))
      \<lparr>dm_version = b2, dm_msg_type = b3, dm_seq = of_nat (be_val [b4, b5, b6, b7]),
       dm_payload_len = of_nat (be_val [b8, b9])\<rparr>, drop 10 bs)"
    by (simp add: frame_bytes_def demo_header_def be_bytes_read)
  then show thesis by (rule that)
qed

lemma demo_message_eta [simp]:
  "\<lparr>dm_version = dm_version m, dm_msg_type = dm_msg_type m, dm_seq = dm_seq m, dm_payload_len = dm_payload_len m\<rparr> = m"
  by (cases m) simp

lemma demo_frame_ok:
  "length pl = unat (dm_payload_len m) \<Longrightarrow> frame_ok vehicle_tcp_schema (s_fields vehicle_tcp_schema) (demo_header magic m, pl)"
  by (simp add: frame_ok_def demo_header_def vehicle_tcp_schema_def new_schema_def plain_field_def
      new_field_def_def is_variable_def)

lemma demo_frame_fields:
  "recovered vehicle_tcp_schema (s_fields vehicle_tcp_schema) [] (demo_header magic m, pl) = demo_fields magic m"
  unfolding recovered_stream [OF vehicle_stream]
  by (simp add: frame_fields_def demo_header_def demo_fields_def vehicle_tcp_schema_def plain_field_def new_field_def_def)

lemma demo_header_length [simp]: "length (encode_values (demo_header magic m)) = 10"
  by (simp add: demo_header_def)

lemma demo_frame_length: "length (frame_bytes (demo_header magic m, pl)) = 10 + length pl"
  by (simp add: frame_bytes_def demo_header_def)

lemma demo_handle:
  "tcp_demo_handle (frame_bytes (demo_header magic m, pl)) buf = Inr (Some (tcp_demo_log m (10 + length pl), tcp_demo_ack m),
    received (frame_bytes (demo_header magic m, pl)) buf)"
  using tcp_demo_fields_frame [of magic "dm_version m" "dm_msg_type m" "dm_seq m" "dm_payload_len m" pl buf, folded demo_header_def]
  by (simp add: tcp_demo_handle_def demo_frame_length)

text \<open>What the decoder makes of a buffer that begins with a header.\<close>

lemma demo_decode:
  assumes bs: "bs = frame_bytes (demo_header magic m, pl)" and len: "valid_object bs len"
  shows "\<exists>rest. decode vehicle_tcp_schema (Some bs) len =
    Some (Inr (if unat (dm_payload_len m) \<le> length pl then demo_fields magic m # rest else []))"
proof (cases "unat (dm_payload_len m) \<le> length pl")
  case True
  let ?fr = "(demo_header magic m, take (unat (dm_payload_len m)) pl)" and ?post = "drop (unat (dm_payload_len m)) pl"
  let ?off = "0 + of_nat (length (frame_bytes ?fr)) :: size_t"
  have split: "bs = [] @ frame_bytes ?fr @ ?post" by (simp add: bs frame_bytes_def)
  have ok: "frame_ok vehicle_tcp_schema (s_fields vehicle_tcp_schema) ?fr" using True by (simp add: demo_frame_ok)
  have sane: "sane_header (s_framing vehicle_tcp_schema)" by (simp add: sane_header_def vehicle_tcp_schema_def)
  have step: "frame_step vehicle_tcp_schema bs len 0 = Inr (Some (demo_fields magic m, ?off))"
    using frame_step_complete [OF framed [OF vehicle_stream] ok, of "[]" ?post len 0] len
    unfolding split by (simp add: demo_frame_fields)
  have "length (frame_bytes ?fr) \<le> unat len" using len split by (simp add: valid_object_def)
  then have "unat ?off \<le> unat len" using len by (simp add: valid_object_def unat_of_nat_less)
  then have loop: "frame_loop vehicle_tcp_schema bs len 0 [] =
      map_option (\<lambda>ms. Inr ([demo_fields magic m] @ ms)) (parse_frames vehicle_tcp_schema (drop (unat ?off) bs))"
    using frame_loop_parse [OF len sane, of ?off "[demo_fields magic m]"] frame_loop_next [OF step, of "[]"] by simp
  have "bs \<noteq> []" unfolding bs by (simp add: frame_bytes_def demo_header_def)
  then have "len \<noteq> 0" using len by (auto simp: valid_object_def)
  then have dec: "decode vehicle_tcp_schema (Some bs) len = frame_loop vehicle_tcp_schema bs len 0 []"
    by (simp add: decode_def vehicle_tcp_schema_def)
  obtain ms where "decode vehicle_tcp_schema (Some bs) len = Some (Inr ms)"
    using decode_advances [OF len sane] by (auto simp: vehicle_tcp_schema_def)
  then have "map_option (\<lambda>ms. Inr ([demo_fields magic m] @ ms)) (parse_frames vehicle_tcp_schema (drop (unat ?off) bs)) =
      Some (Inr ms :: fields list outcome)"
    unfolding dec loop .
  then obtain rest where "parse_frames vehicle_tcp_schema (drop (unat ?off) bs) = Some rest" by blast
  with True show ?thesis unfolding dec loop by simp
next
  case False
  let ?l = "(demo_header magic m, pl @ replicate (unat (dm_payload_len m) - length pl) 0)"
  have small: "unat (dm_payload_len m) < 65536" by (rule u16_bound)
  have "decode vehicle_tcp_schema (Some bs) len = Some (Inr (map (recovered vehicle_tcp_schema (s_fields vehicle_tcp_schema) []) []))"
    by (rule decode_framed [OF framed [OF vehicle_stream], where l = ?l and k = "length bs"])
      (use False len small in \<open>simp_all add: demo_frame_ok demo_frame_length bs, simp add: frame_bytes_def\<close>)
  with False show ?thesis by simp
qed

text \<open>C34: The TCP demo server and the decoder under the shipped TCP schema agree on every piece of ten bytes
  or more that a receive call returns, whatever is in it. The line the server prints has the message type, the
  sequence number and the payload length of the first message the decoder finds in those bytes; only where
  the payload is not complete yet does the decoder wait for the rest, and the server answer already. The
  acknowledgement decodes to one message of the schema: same version, type 2, no payload, and the next
  sequence number modulo 256 only.\<close>

theorem tcp_demo_reads_frames:
  assumes "10 \<le> length bs" and "valid_object bs len"
  shows "\<exists>magic (m :: demo_message) ack rest. tcp_demo_handle bs buf =
      Inr (Some (''  msg_type='' @ show_nat (unat (dm_msg_type m)) @ '' seq='' @ show_nat (unat (dm_seq m)) @
        '' payload_len='' @ show_nat (unat (dm_payload_len m)) @ '' total='' @ show_nat (length bs) @ '' bytes'' @ [CHR 0x0A],
        ack), received bs buf) \<and>
    decode vehicle_tcp_schema (Some bs) len = Some (Inr (if 10 + unat (dm_payload_len m) \<le> length bs
      then [(''magic'', VU16 magic), (''version'', VU8 (dm_version m)), (''msg_type'', VU8 (dm_msg_type m)),
        (''seq'', VU32 (dm_seq m)), (''payload_len'', VU16 (dm_payload_len m))] # rest else [])) \<and>
    decode vehicle_tcp_schema (Some ack) 10 = Some (Inr [[(''magic'', VU16 0xCAFE), (''version'', VU8 (dm_version m)),
      (''msg_type'', VU8 2), (''seq'', VU32 (of_nat (unat (dm_seq m + 1) mod 256))), (''payload_len'', VU16 0)]])"
proof -
  obtain magic m where bs: "bs = frame_bytes (demo_header magic m, drop 10 bs)" by (rule demo_split [OF assms(1)])
  define a where "a = \<lparr>dm_version = dm_version m, dm_msg_type = 2, dm_seq = of_nat (unat (dm_seq m + 1) mod 256), dm_payload_len = 0\<rparr>"
  have "length bs = 10 + length (drop 10 bs)" using assms(1) by simp
  then have handle: "tcp_demo_handle bs buf = Inr (Some (tcp_demo_log m (length bs), tcp_demo_ack m), received bs buf)"
    using demo_handle [of magic m "drop 10 bs" buf] bs by simp
  obtain rest where dec: "decode vehicle_tcp_schema (Some bs) len = Some (Inr
      (if unat (dm_payload_len m) \<le> length (drop 10 bs) then demo_fields magic m # rest else []))"
    using demo_decode [OF bs assms(2)] by blast
  have ack: "tcp_demo_ack m = frame_bytes (demo_header 0xCAFE a, [])"
    by (simp add: demo_ack_frame demo_header_def a_def)
  have "length (tcp_demo_ack m) = 10" by (simp add: tcp_demo_ack_def)
  then have "decode vehicle_tcp_schema (Some (tcp_demo_ack m)) 10 = Some (Inr [demo_fields 0xCAFE a])"
    using decode_framed [OF framed [OF vehicle_stream], of "[(demo_header 0xCAFE a, [])]" "(demo_header 0xCAFE a, [])" 0
      "tcp_demo_ack m" 10]
    by (simp add: demo_frame_ok demo_frame_fields demo_frame_length valid_object_def ack a_def)
  then have ack_message: "decode vehicle_tcp_schema (Some (tcp_demo_ack m)) 10 = Some (Inr [[(''magic'', VU16 0xCAFE),
      (''version'', VU8 (dm_version m)), (''msg_type'', VU8 2),
      (''seq'', VU32 (of_nat (unat (dm_seq m + 1) mod 256))), (''payload_len'', VU16 0)]])"
    by (simp add: demo_fields_def a_def)
  have "unat (dm_payload_len m) \<le> length (drop 10 bs) \<longleftrightarrow> 10 + unat (dm_payload_len m) \<le> length bs"
    using assms(1) by auto
  note dec = dec [unfolded this demo_fields_def]
  show ?thesis
  proof (rule exI, rule exI, rule exI, rule exI, intro conjI)
    show "decode vehicle_tcp_schema (Some (tcp_demo_ack m)) 10 = Some (Inr [[(''magic'', VU16 0xCAFE),
      (''version'', VU8 (dm_version m)), (''msg_type'', VU8 2),
      (''seq'', VU32 (of_nat (unat (dm_seq m + 1) mod 256))), (''payload_len'', VU16 0)]])"
      by (rule ack_message)
    show "decode vehicle_tcp_schema (Some bs) len = Some (Inr (if 10 + unat (dm_payload_len m) \<le> length bs
      then [(''magic'', VU16 magic), (''version'', VU8 (dm_version m)), (''msg_type'', VU8 (dm_msg_type m)),
        (''seq'', VU32 (dm_seq m)), (''payload_len'', VU16 (dm_payload_len m))] # rest else []))"
      by (rule dec)
  qed (simp add: handle tcp_demo_log_def)
qed

lemma shift_in: "push_bit 8 (v :: u64) OR ucast (b :: byte) = v * 256 + of_nat (unat b)"
proof -
  have "push_bit 8 v OR ucast b = push_bit 8 v + ucast b"
    by (rule or_low [where k = 8]) (auto simp: bit_simps dest: bit_byte)
  then show ?thesis by (simp add: push_bit_eq_mult)
qed

lemma buf_64_be:
  assumes "\<And>j. j < 8 \<Longrightarrow> buf_at buf (i + j) = Inr (bs ! j)" and "length bs = 8"
  shows "buf_64 buf i = Inr (of_nat (be_val bs))"
proof -
  have "bs = [bs ! 0, bs ! 1, bs ! 2, bs ! 3, bs ! 4, bs ! 5, bs ! 6, bs ! 7]"
    using assms(2) by (intro nth_equalityI) (auto simp: less_Suc_eq numeral_eq_Suc)
  then have "be_val bs = be_val [bs ! 0, bs ! 1, bs ! 2, bs ! 3, bs ! 4, bs ! 5, bs ! 6, bs ! 7]" by simp
  moreover have upt: "[0..<8] = [0, 1, 2, 3, 4, 5, 6, 7 :: nat]" by (simp add: upt_rec)
  have "buf_64 buf i = Inr (of_nat (be_val [bs ! 0, bs ! 1, bs ! 2, bs ! 3, bs ! 4, bs ! 5, bs ! 6, bs ! 7]))"
    unfolding buf_64_def shift_in upt
    using assms(1) [of 0] assms(1) [of 1] assms(1) [of 2] assms(1) [of 3] assms(1) [of 4] assms(1) [of 5]
      assms(1) [of 6] assms(1) [of 7]
    by (simp add: be_val_def algebra_simps)
  ultimately show ?thesis by simp
qed

text \<open>The receive buffer of the first datagram: what it filled, and indeterminate bytes.\<close>

lemma first_datagram_at:
  assumes "i < 4096" and "length bs \<le> 4096"
  shows "buf_at (received bs (replicate 4096 None)) i =
    (if i < length bs then Inr (bs ! i) else Inl Indeterminate_Read)"
  using assms by (auto simp: buf_at_def received_def nth_append)

lemma buf_64_indeterminate:
  assumes "i + 8 \<le> length buf"
  shows "buf_64 buf i = Inl Indeterminate_Read \<or> (\<exists>v. buf_64 buf i = Inr v)"
proof -
  let ?read = "\<lambda>j v :: u64. obind (buf_at buf (i + j)) (\<lambda>b. Inr (push_bit 8 v OR ucast b))"
  have "ofold ?read js v0 = Inl Indeterminate_Read \<or> (\<exists>v. ofold ?read js v0 = Inr v)"
    if "\<forall>j \<in> set js. i + j < length buf" for js v0
    using that by (induction js arbitrary: v0) (auto simp: buf_at_def split: option.split)
  then show ?thesis using assms by (simp add: buf_64_def)
qed

text \<open>The UDP demo server tests for 10 bytes and reads 16: a datagram of 10 to 15 bytes with the
  right magic makes it read receive-buffer bytes that the datagram did not fill (indeterminate
  ones on the first datagram). On longer ones it reads the device id most significant byte first,
  where the decoder takes the same eight bytes in the order of the host.\<close>

lemma udp_demo_reads_datagrams:
  assumes "10 \<le> length bs" "take 2 bs = [0xCA, 0xFE]"
  shows "(length bs < 16 \<longrightarrow>
      udp_demo_fields (received bs (replicate 4096 None)) = Inl Indeterminate_Read) \<and>
    (16 \<le> length bs \<longrightarrow>
      udp_demo_fields (received bs buf) = Inr (Some \<lparr>dd_device_id = of_nat (be_val (take 8 (drop 4 bs))),
        dd_msg_type = bs ! 3, dd_seq = of_nat (be_val (take 4 (drop 12 bs)))\<rparr>) \<and>
      read_field bs 4 n U64 = Inr (VU64 (of_nat (le_val (take 8 (drop 4 bs))))))"
proof -
  obtain tl' where bs: "bs = 0xCA # 0xFE # tl'"
    using assms by (cases bs; cases "List.tl bs") auto
  have magic: "buf_16 (received bs b) 0 = Inr 0xCAFE" for b
    by (simp add: buf_16_def bs shift16_be be_val_def)
  have low: "buf_at (received bs b) 2 = Inr (bs ! 2)" "buf_at (received bs b) 3 = Inr (bs ! 3)" for b
    using assms(1) by simp_all
  show ?thesis
  proof (intro conjI impI)
    assume long: "16 \<le> length bs"
    have "buf_64 (received bs buf) 4 = Inr (of_nat (be_val (take 8 (drop 4 bs))))"
      using long by (intro buf_64_be) auto
    moreover have "take 4 (drop 12 bs) = [bs ! 12, bs ! 13, bs ! 14, bs ! 15]"
      using long by (intro nth_equalityI) (auto simp: less_Suc_eq numeral_eq_Suc)
    then have "buf_32 (received bs buf) 12 = Inr (of_nat (be_val (take 4 (drop 12 bs))))"
      using long by (simp add: buf_32_def shift32_be)
    ultimately show "udp_demo_fields (received bs buf) =
        Inr (Some \<lparr>dd_device_id = of_nat (be_val (take 8 (drop 4 bs))), dd_msg_type = bs ! 3,
          dd_seq = of_nat (be_val (take 4 (drop 12 bs)))\<rparr>)"
      by (simp add: udp_demo_fields_def magic low)
    show "read_field bs 4 n U64 = Inr (VU64 (of_nat (le_val (take 8 (drop 4 bs)))))"
      using long by (simp add: mem_read_def)
  next
    assume short: "length bs < 16"
    let ?buf = "received bs (replicate 4096 None)"
    have at: "i < 4096 \<Longrightarrow> buf_at ?buf i = (if i < length bs then Inr (bs ! i) else Inl Indeterminate_Read)" for i
      using short by (simp add: first_datagram_at)
    have fault: "buf_64 ?buf 4 = Inl Indeterminate_Read \<or> (\<exists>v. buf_64 ?buf 4 = Inr v)"
      using short by (intro buf_64_indeterminate) (simp add: received_def)
    have "buf_32 ?buf 12 = Inl Indeterminate_Read"
      using short by (simp add: buf_32_def at)
    with fault show "udp_demo_fields ?buf = Inl Indeterminate_Read"
      using assms(1) by (auto simp: udp_demo_fields_def magic at)
  qed
qed

lemma udp_demo_reads_datagrams_instance:
  "udp_demo_fields (received [0xCA, 0xFE, 1, 2, 0, 0, 0, 0, 0, 0, 0, 77] (replicate 4096 None)) =
    Inl Indeterminate_Read \<and>
   udp_demo_fields (received [0xCA, 0xFE, 1, 2, 0, 0, 0, 0, 0, 0, 0, 77, 0, 0, 0, 5] []) =
    Inr (Some \<lparr>dd_device_id = 77, dd_msg_type = 2, dd_seq = 5\<rparr>)"
  using udp_demo_reads_datagrams [of "[0xCA, 0xFE, 1, 2, 0, 0, 0, 0, 0, 0, 0, 77]"]
    udp_demo_reads_datagrams [of "[0xCA, 0xFE, 1, 2, 0, 0, 0, 0, 0, 0, 0, 77, 0, 0, 0, 5]" "[]"]
  by (simp add: be_val_def)

theorem tcp_demo_reads_frames_witness:
  "\<exists>ack m. tcp_demo_handle [0xCA, 0xFE, 1, 7, 0, 0, 0, 255, 0, 1, 9] [] =
      Inr (Some (''  msg_type=7 seq=255 payload_len=1 total=11 bytes'' @ [CHR 0x0A], ack),
        map Some [0xCA, 0xFE, 1, 7, 0, 0, 0, 255, 0, 1, 9]) \<and>
    decode vehicle_tcp_schema (Some ack) 10 = Some (Inr [m]) \<and> map_of m ''msg_type'' = Some (VU8 2)"
proof -
  let ?bs = "[0xCA, 0xFE, 1, 7, 0, 0, 0, 255, 0, 1, 9] :: byte list"
  have "?bs = frame_bytes (demo_header 0xCAFE \<lparr>dm_version = 1, dm_msg_type = 7, dm_seq = 255, dm_payload_len = 1\<rparr>, [9])"
    by (simp add: frame_bytes_def demo_header_def be_bytes_2 be_bytes_4)
  then have "tcp_demo_handle ?bs [] = Inr (Some (''  msg_type=7 seq=255 payload_len=1 total=11 bytes'' @ [CHR 0x0A],
      tcp_demo_ack \<lparr>dm_version = 1, dm_msg_type = 7, dm_seq = 255, dm_payload_len = 1\<rparr>), map Some ?bs)"
    by (simp only: demo_handle) (simp add: tcp_demo_log_def received_def show_nat.simps digit_char_def char_of_def bit_simps)
  moreover have "valid_object ?bs 11" by (simp add: valid_object_def)
  ultimately show ?thesis using tcp_demo_reads_frames [of ?bs 11 "[]"] by auto
qed

end
