(* ===== verification/Demo_Server_Loops.thy ===== *)
theory Demo_Server_Loops
  imports Demo_Servers Command_Line
begin

text \<open>
  The \<^verbatim>\<open>main\<close> functions of the demo servers around the handling of one message: the set-up as a
  function of the results of the system calls, and the endless loops as step relations, one step for
  each iteration, labelled with the system calls made and what they returned.
\<close>

section \<open>Set-up\<close>

text \<open>
  The system calls; \<open>so_strerror\<close> is the text for the current \<open>errno\<close>. The first argument
  of \<open>so_socket\<close> tells stream sockets from datagram sockets.
\<close>

record 'w server_os =
  so_socket :: "bool \<Rightarrow> 'w \<Rightarrow> int \<times> 'w"
  so_reuse :: "int \<Rightarrow> 'w \<Rightarrow> 'w"
  so_bind :: "int \<Rightarrow> u16 \<Rightarrow> 'w \<Rightarrow> int \<times> 'w"
  so_listen :: "int \<Rightarrow> 'w \<Rightarrow> int \<times> 'w"
  so_strerror :: "'w \<Rightarrow> string"

text \<open>An exit with code 1 and a message, or the loop, entered with a socket after a line of output.\<close>

datatype server_start = Failed string | Ready int string

definition demo_port :: "int \<Rightarrow> string list \<Rightarrow> int outcome" where
  "demo_port dflt argv = (if length argv > 1 then stoi (argv ! 1) else Inr dflt)"

definition tcp_demo_setup :: "'w server_os \<Rightarrow> string list \<Rightarrow> 'w \<Rightarrow> (server_start \<times> 'w) outcome" where
  "tcp_demo_setup os argv w =
     obind (demo_port 9000 argv) (\<lambda>port.
       let (sock, w1) = so_socket os True w
       in if sock < 0 then Inr (Failed (''Failed to create socket: '' @ so_strerror os w1 @ [CHR 0x0A]), w1)
          else let (bound, w2) = so_bind os sock (of_int port) (so_reuse os sock w1)
               in if bound < 0 then Inr (Failed (''Bind failed: '' @ so_strerror os w2 @ [CHR 0x0A]), w2)
                  else let (listening, w3) = so_listen os sock w2
                       in if listening < 0 then Inr (Failed (''Listen failed: '' @ so_strerror os w3 @ [CHR 0x0A]), w3)
                          else Inr (Ready sock (''GatewayForge TCP Demo Server listening on port '' @
                                 show_int port @ ''...'' @ [CHR 0x0A]), w3))"

definition udp_demo_setup :: "'w server_os \<Rightarrow> string list \<Rightarrow> 'w \<Rightarrow> (server_start \<times> 'w) outcome" where
  "udp_demo_setup os argv w =
     obind (demo_port 9001 argv) (\<lambda>port.
       let (sock, w1) = so_socket os False w
       in if sock < 0 then Inr (Failed (''Failed to create socket: '' @ so_strerror os w1 @ [CHR 0x0A]), w1)
          else let (bound, w2) = so_bind os sock (of_int port) w1
               in if bound < 0 then Inr (Failed (''Bind failed: '' @ so_strerror os w2 @ [CHR 0x0A]), w2)
                  else Inr (Ready sock (''GatewayForge UDP Demo Server listening on port '' @
                         show_int port @ ''...'' @ [CHR 0x0A]), w2))"

text \<open>
  The port that is announced is the number given; the port that is bound is that number modulo 2^16.
\<close>

lemma tcp_demo_announces:
  assumes "n \<le> 2147483647" and "tcp_demo_setup os [prog, show_nat n] w = Inr (Ready sock line, w')"
  shows "line = ''GatewayForge TCP Demo Server listening on port '' @ show_nat n @ ''...'' @ [CHR 0x0A] \<and>
    0 \<le> fst (so_bind os sock (of_nat n) (so_reuse os sock (snd (so_socket os True w))))"
  using assms by (auto simp: tcp_demo_setup_def demo_port_def stoi_show_nat show_int_def Let_def
      split: prod.splits if_splits)

lemma udp_demo_announces:
  assumes "n \<le> 2147483647" and "udp_demo_setup os [prog, show_nat n] w = Inr (Ready sock line, w')"
  shows "line = ''GatewayForge UDP Demo Server listening on port '' @ show_nat n @ ''...'' @ [CHR 0x0A] \<and>
    0 \<le> fst (so_bind os sock (of_nat n) (snd (so_socket os False w)))"
  using assms by (auto simp: udp_demo_setup_def demo_port_def stoi_show_nat show_int_def Let_def
      split: prod.splits if_splits)

section \<open>The loops of the TCP server\<close>

text \<open>
  The calls of the loops. \<open>Accept\<close> carries the descriptor returned and the peer as
  \<open>inet_ntoa\<close> and \<open>ntohs\<close> give it, \<open>Recv\<close> the bytes received, \<open>None\<close> for a result
  that is not positive.
\<close>

datatype server_call =
    Accept int string u16
  | Recv int "byte list option"
  | Write string
  | Send int "byte list"
  | Close int

text \<open>
  The outer loop waits for a client; the inner one serves it with a receive buffer of its own,
  uninitialised at the start.
\<close>

datatype tcp_phase = Accepting | Serving int recv_buffer | Stopped fault

definition connected_line :: "string \<Rightarrow> u16 \<Rightarrow> string" where
  "connected_line ip port = ''[TCP] Client connected from '' @ ip @ '':'' @ show_nat (unat port) @ [CHR 0x0A]"

definition disconnected_line :: string where
  "disconnected_line = ''[TCP] Client disconnected'' @ [CHR 0x0A]"

inductive tcp_step :: "tcp_phase \<Rightarrow> server_call list \<Rightarrow> tcp_phase \<Rightarrow> bool" where
  accept_failed: "fd < 0 \<Longrightarrow> tcp_step Accepting [Accept fd ip port] Accepting"
| accepted: "0 \<le> fd \<Longrightarrow> tcp_step Accepting [Accept fd ip port, Write (connected_line ip port)]
    (Serving fd (replicate 4096 None))"
| handled: "bs \<noteq> [] \<Longrightarrow> length bs \<le> 4096 \<Longrightarrow> tcp_demo_handle bs buf = Inr (r, buf') \<Longrightarrow>
    tcp_step (Serving fd buf)
      (Recv fd (Some bs) # (case r of None \<Rightarrow> [] | Some (line, ack) \<Rightarrow> [Write line, Send fd ack])) (Serving fd buf')"
| faulted: "bs \<noteq> [] \<Longrightarrow> length bs \<le> 4096 \<Longrightarrow> tcp_demo_handle bs buf = Inl e \<Longrightarrow>
    tcp_step (Serving fd buf) [Recv fd (Some bs)] (Stopped e)"
| ended: "tcp_step (Serving fd buf) [Recv fd None, Write disconnected_line, Close fd] Accepting"

code_pred (modes: i \<Rightarrow> i \<Rightarrow> o \<Rightarrow> bool) tcp_step .

inductive_cases accepting_stepE: "tcp_step Accepting tr ph"
inductive_cases serving_stepE: "tcp_step (Serving fd buf) tr ph"
inductive_simps stopped_step [simp]: "tcp_step (Stopped e) tr ph"

inductive tcp_runs :: "tcp_phase \<Rightarrow> server_call list \<Rightarrow> tcp_phase \<Rightarrow> bool" where
  at_start: "tcp_runs ph [] ph"
| one_more: "tcp_runs ph tr ph' \<Longrightarrow> tcp_step ph' tr' ph'' \<Longrightarrow> tcp_runs ph (tr @ tr') ph''"

lemma tcp_runs_append: "tcp_runs ph' tr' ph'' \<Longrightarrow> tcp_runs ph tr ph' \<Longrightarrow> tcp_runs ph (tr @ tr') ph''"
  by (induction rule: tcp_runs.induct) (simp_all add: tcp_runs.one_more flip: append_assoc)

lemma tcp_runs_step: "tcp_step ph tr ph' \<Longrightarrow> tcp_runs ph tr ph'"
  using one_more [OF at_start] by fastforce

section \<open>What the TCP server does for a client\<close>

text \<open>The line and the answer for a message, read off its bytes.\<close>

definition message_line :: "byte list \<Rightarrow> string" where
  "message_line bs = ''  msg_type='' @ show_nat (unat (bs ! 3)) @ '' seq='' @ show_nat (be_val (take 4 (drop 4 bs))) @
     '' payload_len='' @ show_nat (be_val (take 2 (drop 8 bs))) @ '' total='' @ show_nat (length bs) @ '' bytes'' @ [CHR 0x0A]"

definition message_ack :: "byte list \<Rightarrow> byte list" where
  "message_ack bs = [0xCA, 0xFE, bs ! 2, 2, 0, 0, 0, bs ! 7 + 1, 0, 0]"

lemma mod_mod_256 [simp]: "x mod 4294967296 mod 256 = x mod (256 :: nat)"
  by (rule mod_mod_cancel) simp

lemma suc_mod_mod: "Suc (x mod 4294967296) mod 256 = Suc (x mod 256) mod (256 :: nat)"
  by (metis mod_Suc_eq mod_mod_256)

lemma be_val_4:
  "unat (of_nat (be_val [a, b, c, d]) :: u32) = be_val [a, b, c, d]"
  "ucast (of_nat (be_val [a, b, c, d]) + 1 :: u32) = d + 1"
proof -
  show 1: "unat (of_nat (be_val [a, b, c, d]) :: u32) = be_val [a, b, c, d]"
    using be_val_less [of "[a, b, c, d]"] by (intro unat_of_nat_less) simp
  have "(ucast (of_nat (be_val [a, b, c, d]) + 1 :: u32) :: byte) = of_nat (unat (of_nat (be_val [a, b, c, d]) + 1 :: u32))"
    by (simp add: word_unat_eq_iff unsigned_ucast_eq unsigned_of_nat)
  also have "\<dots> = of_nat (be_val [a, b, c, d] + 1)"
    by (simp add: word_unat_eq_iff unsigned_of_nat unat_word_ariths take_bit_eq_mod suc_mod_mod del: of_nat_add)
  also have "\<dots> = d + 1"
  proof -
    have zero: "(256 :: byte) = 0" "(65536 :: byte) = 0" "(16777216 :: byte) = 0" by simp_all
    have "256 * c + (65536 * b + 16777216 * a) = 0" unfolding zero by simp
    then show ?thesis by (simp add: be_val_def)
  qed
  finally show "ucast (of_nat (be_val [a, b, c, d]) + 1 :: u32) = d + 1" .
qed

lemma be_val_2: "unat (of_nat (be_val [a, b]) :: u16) = be_val [a, b]"
  using be_val_less [of "[a, b]"] by (intro unat_of_nat_less) simp

lemma tcp_demo_handle_bytes:
  "tcp_demo_handle bs buf =
    Inr (if 10 \<le> length bs then Some (message_line bs, message_ack bs) else None, received bs buf)"
proof (cases "10 \<le> length bs")
  case True
  have seq: "take 4 (drop 4 bs) = [bs ! 4, bs ! 5, bs ! 6, bs ! 7]" and
    len: "take 2 (drop 8 bs) = [bs ! 8, bs ! 9]"
    using True by (auto intro!: nth_equalityI simp: less_Suc_eq numeral_eq_Suc)
  have "buf_at (received bs buf) i = Inr (bs ! i)" if "i < 10" for i using that True by simp
  then have "tcp_demo_fields (received bs buf) = Inr \<lparr>dm_version = bs ! 2, dm_msg_type = bs ! 3,
      dm_seq = of_nat (be_val [bs ! 4, bs ! 5, bs ! 6, bs ! 7]), dm_payload_len = of_nat (be_val [bs ! 8, bs ! 9])\<rparr>"
    by (simp add: tcp_demo_fields_def buf_16_def buf_32_def shift16_be shift32_be)
  with True show ?thesis
    unfolding tcp_demo_handle_def Let_def tcp_demo_log_def tcp_demo_ack_def message_line_def message_ack_def seq len
    by (simp add: be_val_4 be_val_2 del: unsigned_of_nat of_nat_add)
qed (simp add: tcp_demo_handle_def)

definition replies :: "int \<Rightarrow> byte list \<Rightarrow> server_call list" where
  "replies fd bs = Recv fd (Some bs) #
     (if 10 \<le> length bs then [Write (message_line bs), Send fd (message_ack bs)] else [])"

definition greeting :: "int \<Rightarrow> string \<Rightarrow> u16 \<Rightarrow> byte list list \<Rightarrow> server_call list" where
  "greeting fd ip port cs = Accept fd ip port # Write (connected_line ip port) # concat (map (replies fd) cs)"

text \<open>A visit: a failed \<open>accept\<close>, or a client with what each \<open>recv\<close> delivered.\<close>

datatype visit = Refused int string u16 | Served int string u16 "byte list list"

primrec visit_calls :: "visit \<Rightarrow> server_call list" where
  "visit_calls (Refused fd ip port) = [Accept fd ip port]"
| "visit_calls (Served fd ip port cs) = greeting fd ip port cs @ [Recv fd None, Write disconnected_line, Close fd]"

definition chunks_ok :: "byte list list \<Rightarrow> bool" where
  "chunks_ok cs \<longleftrightarrow> (\<forall>c \<in> set cs. c \<noteq> [] \<and> length c \<le> 4096)"

primrec visit_ok :: "visit \<Rightarrow> bool" where
  "visit_ok (Refused fd ip port) \<longleftrightarrow> fd < 0"
| "visit_ok (Served fd ip port cs) \<longleftrightarrow> 0 \<le> fd \<and> chunks_ok cs"

definition visits_ok :: "visit list \<Rightarrow> bool" where
  "visits_ok vs \<longleftrightarrow> (\<forall>v \<in> set vs. visit_ok v)"

lemma handled_replies:
  assumes "bs \<noteq> []" "length bs \<le> 4096"
  shows "tcp_step (Serving fd buf) (replies fd bs) (Serving fd (received bs buf))"
  using handled [OF assms tcp_demo_handle_bytes, of fd buf] by (simp add: replies_def split: if_splits)

lemma serving_step_iff:
  "tcp_step (Serving fd buf) tr ph \<longleftrightarrow>
    (\<exists>bs. chunks_ok [bs] \<and> tr = replies fd bs \<and> ph = Serving fd (received bs buf)) \<or>
    tr = [Recv fd None, Write disconnected_line, Close fd] \<and> ph = Accepting"
  by (auto simp: chunks_ok_def intro: handled_replies ended elim!: serving_stepE)
    (auto simp: tcp_demo_handle_bytes replies_def split: if_splits)

text \<open>Every possible result of \<open>recv\<close> is taken: the inner loop is never stuck.\<close>

lemma serving_progress:
  "\<exists>tr ph. tcp_step (Serving fd buf) (Recv fd None # tr) ph"
  "bs \<noteq> [] \<Longrightarrow> length bs \<le> 4096 \<Longrightarrow> \<exists>tr ph. tcp_step (Serving fd buf) (Recv fd (Some bs) # tr) ph"
  using ended handled_replies [of bs fd buf] by (auto simp: replies_def)

lemma serve_chunks:
  "chunks_ok cs \<Longrightarrow> \<exists>buf'. tcp_runs (Serving fd buf) (concat (map (replies fd) cs)) (Serving fd buf')"
proof (induction cs arbitrary: buf)
  case Nil
  show ?case using at_start by fastforce
next
  case (Cons c cs)
  then have "tcp_runs (Serving fd buf) (replies fd c) (Serving fd (received c buf))"
    by (auto simp: chunks_ok_def intro: tcp_runs_step handled_replies)
  moreover obtain buf' where "tcp_runs (Serving fd (received c buf)) (concat (map (replies fd) cs)) (Serving fd buf')"
    using Cons by (auto simp: chunks_ok_def)
  ultimately show ?case using tcp_runs_append by fastforce
qed

lemma serve_greeting:
  assumes "0 \<le> fd" "chunks_ok cs"
  shows "\<exists>buf. tcp_runs Accepting (greeting fd ip port cs) (Serving fd buf)"
proof -
  obtain buf where "tcp_runs (Serving fd (replicate 4096 None)) (concat (map (replies fd) cs)) (Serving fd buf)"
    using serve_chunks [OF assms(2)] by blast
  from tcp_runs_append [OF this tcp_runs_step [OF accepted [OF assms(1), of ip port]]] show ?thesis
    by (auto simp: greeting_def)
qed

lemma serve_visit: "visit_ok v \<Longrightarrow> tcp_runs Accepting (visit_calls v) Accepting"
proof (cases v)
  case (Served fd ip port cs)
  moreover assume "visit_ok v"
  ultimately obtain buf where "tcp_runs Accepting (greeting fd ip port cs) (Serving fd buf)"
    using serve_greeting by fastforce
  from one_more [OF this ended] show ?thesis by (simp add: Served)
qed (auto intro: tcp_runs_step accept_failed)

lemma serve_visits: "visits_ok vs \<Longrightarrow> tcp_runs Accepting (concat (map visit_calls vs)) Accepting"
proof (induction vs)
  case (Cons v vs)
  then show ?case using tcp_runs_append serve_visit by (fastforce simp: visits_ok_def)
qed (simp add: at_start)

text \<open>
  Every run is a sequence of visits and, while a client is being served, the start of one more.
\<close>

lemma tcp_runs_visits:
  assumes "tcp_runs p tr ph" and "p = Accepting"
  shows "\<exists>vs. visits_ok vs \<and> (case ph of
      Accepting \<Rightarrow> tr = concat (map visit_calls vs)
    | Serving fd buf \<Rightarrow> 0 \<le> fd \<and> (\<exists>ip port cs. chunks_ok cs \<and> tr = concat (map visit_calls vs) @ greeting fd ip port cs)
    | Stopped e \<Rightarrow> False)"
  using assms
proof (induction rule: tcp_runs.induct)
  case (at_start ph)
  then show ?case by (auto intro!: exI [of _ "[]"] simp: visits_ok_def)
next
  case (one_more ph tr ph' tr' ph'')
  then obtain vs where vs: "visits_ok vs" "case ph' of
      Accepting \<Rightarrow> tr = concat (map visit_calls vs)
    | Serving fd buf \<Rightarrow> 0 \<le> fd \<and> (\<exists>ip port cs. chunks_ok cs \<and> tr = concat (map visit_calls vs) @ greeting fd ip port cs)
    | Stopped e \<Rightarrow> False" by blast
  show ?case
  proof (cases ph')
    case Accepting
    with one_more.hyps(2) have "tcp_step Accepting tr' ph''" by simp
    then consider fd ip port where "fd < 0" "tr' = [Accept fd ip port]" "ph'' = Accepting"
      | fd ip port where "0 \<le> fd" "tr' = [Accept fd ip port, Write (connected_line ip port)]"
        "ph'' = Serving fd (replicate 4096 None)"
      by (auto elim!: accepting_stepE)
    then show ?thesis
    proof cases
      case (1 fd ip port)
      then show ?thesis
        using vs Accepting by (intro exI [of _ "vs @ [Refused fd ip port]"]) (auto simp: visits_ok_def)
    next
      case (2 fd ip port)
      then show ?thesis
        using vs Accepting
        by (intro exI [of _ vs]) (auto simp: greeting_def chunks_ok_def intro!: exI [of _ "[]"])
    qed
  next
    case (Serving fd buf)
    with vs(2) obtain ip port cs where greeted: "0 \<le> fd" "chunks_ok cs"
      "tr = concat (map visit_calls vs) @ greeting fd ip port cs" by auto
    from one_more.hyps(2) Serving consider bs where "chunks_ok [bs]" "tr' = replies fd bs" "ph'' = Serving fd (received bs buf)"
      | "tr' = [Recv fd None, Write disconnected_line, Close fd]" "ph'' = Accepting"
      by (auto simp: serving_step_iff)
    then show ?thesis
    proof cases
      case (1 bs)
      then show ?thesis
        using vs(1) greeted
        by (intro exI [of _ vs]) (auto simp: greeting_def chunks_ok_def intro!: exI [of _ "cs @ [bs]"])
    next
      case 2
      then show ?thesis
        using vs(1) greeted by (intro exI [of _ "vs @ [Served fd ip port cs]"]) (auto simp: visits_ok_def)
    qed
  qed (use vs in simp)
qed

text \<open>C32: The loops of the TCP demo server, for ever so long a run: what the server does, call by call,
  is exactly a sequence of visits. A failed \<open>accept\<close> is passed over; a client is announced,
  each chunk received from it of 10 bytes or more is logged and answered once, on its own connection,
  shorter ones are ignored, and at the end it is announced again and its descriptor closed before the
  next \<open>accept\<close>. Every such sequence is possible, and no run ends in a fault. In particular clients are served strictly
  one after the other, and one that stays connected keeps all others waiting, which contradicts the test plan: case
  ST-SRV-003 expects three concurrent connections to be accepted without blocking.\<close>

theorem tcp_server_visits:
  "(tcp_runs Accepting tr Accepting \<longleftrightarrow> (\<exists>vs. visits_ok vs \<and> tr = concat (map visit_calls vs))) \<and>
   ((\<exists>buf. tcp_runs Accepting tr (Serving fd buf)) \<longleftrightarrow> (\<exists>vs ip port cs. visits_ok vs \<and> 0 \<le> fd \<and> chunks_ok cs \<and>
     tr = concat (map visit_calls vs) @ greeting fd ip port cs)) \<and>
   \<not> tcp_runs Accepting tr (Stopped e)"
proof (intro conjI iffI notI)
  show "\<exists>vs. visits_ok vs \<and> tr = concat (map visit_calls vs)" if "tcp_runs Accepting tr Accepting"
    using tcp_runs_visits [OF that refl] by simp
  show "tcp_runs Accepting tr Accepting" if "\<exists>vs. visits_ok vs \<and> tr = concat (map visit_calls vs)"
    using that serve_visits by blast
  show "\<exists>vs ip port cs. visits_ok vs \<and> 0 \<le> fd \<and> chunks_ok cs \<and> tr = concat (map visit_calls vs) @ greeting fd ip port cs"
    if "\<exists>buf. tcp_runs Accepting tr (Serving fd buf)"
    using that tcp_runs_visits [OF _ refl] by fastforce
  show "\<exists>buf. tcp_runs Accepting tr (Serving fd buf)" if "\<exists>vs ip port cs. visits_ok vs \<and> 0 \<le> fd \<and> chunks_ok cs \<and>
      tr = concat (map visit_calls vs) @ greeting fd ip port cs"
    using that tcp_runs_append [OF _ serve_visits] serve_greeting by metis
  show False if "tcp_runs Accepting tr (Stopped e)"
    using tcp_runs_visits [OF that refl] by simp
qed

theorem tcp_server_visits_witness:
  "tcp_runs Accepting (visit_calls (Served 5 ''10.0.0.1'' 4000 [replicate 9 0, [0xCA, 0xFE, 1, 1, 0, 0, 0, 255, 0, 0]])) Accepting \<and>
   message_ack [0xCA, 0xFE, 1, 1, 0, 0, 0, 255, 0, 0] = [0xCA, 0xFE, 1, 2, 0, 0, 0, 0, 0, 0]"
proof -
  let ?v = "Served 5 ''10.0.0.1'' 4000 [replicate 9 0, [0xCA, 0xFE, 1, 1, 0, 0, 0, 255, 0, 0]]"
  have "visits_ok [?v] \<and> visit_calls ?v = concat (map visit_calls [?v])" by (simp add: visits_ok_def chunks_ok_def)
  then have "tcp_runs Accepting (visit_calls ?v) Accepting"
    using tcp_server_visits [THEN conjunct1, THEN iffD2] by blast
  then show ?thesis by (simp add: message_ack_def)
qed

end
