(* ===== verification/Demo_Udp_Loop.thy ===== *)
theory Demo_Udp_Loop
  imports Demo_Server_Loops
begin

text \<open>
  The loop of the UDP demo server (\<^verbatim>\<open>examples/demo-server/udp_demo_server.cpp\<close>) as a step
  relation. Its receive buffer is declared outside the loop, so what one datagram leaves behind is
  there when the next one is read.
\<close>

section \<open>The loop\<close>

text \<open>A result of \<open>recvfrom\<close>: an error, or a datagram with its sender.\<close>

type_synonym arrival = "(byte list \<times> string \<times> u16) option"

datatype udp_phase = Receiving recv_buffer | Udp_Stopped fault

definition packet_line :: "byte list \<Rightarrow> string \<Rightarrow> u16 \<Rightarrow> string" where
  "packet_line bs ip port = ''[UDP] Packet from '' @ ip @ '':'' @ show_nat (unat port) @
     '' ('' @ show_nat (length bs) @ '' bytes) ''"

text \<open>One iteration, and the text it writes.\<close>

inductive udp_step :: "udp_phase \<Rightarrow> arrival \<Rightarrow> string \<Rightarrow> udp_phase \<Rightarrow> bool" where
  receive_failed: "udp_step (Receiving buf) None [] (Receiving buf)"
| shown: "length bs \<le> 4096 \<Longrightarrow> udp_demo_handle bs buf = Inr (txt, buf') \<Longrightarrow>
    udp_step (Receiving buf) (Some (bs, ip, port)) (packet_line bs ip port @ txt) (Receiving buf')"
| faulted: "length bs \<le> 4096 \<Longrightarrow> udp_demo_handle bs buf = Inl e \<Longrightarrow>
    udp_step (Receiving buf) (Some (bs, ip, port)) (packet_line bs ip port) (Udp_Stopped e)"

code_pred (modes: i \<Rightarrow> i \<Rightarrow> o \<Rightarrow> o \<Rightarrow> bool) udp_step .

inductive_cases udp_stepE: "udp_step (Receiving buf) a txt ph"
inductive_simps udp_step_failed: "udp_step (Receiving buf) None txt ph"
inductive_simps udp_step_datagram: "udp_step (Receiving buf) (Some (bs, ip, port)) txt ph"
inductive_simps udp_step_stopped [simp]: "udp_step (Udp_Stopped e) a txt ph"

inductive udp_runs :: "udp_phase \<Rightarrow> arrival list \<Rightarrow> string \<Rightarrow> udp_phase \<Rightarrow> bool" where
  udp_start: "udp_runs ph [] [] ph"
| udp_next: "udp_runs ph ds out ph' \<Longrightarrow> udp_step ph' a txt ph'' \<Longrightarrow> udp_runs ph (ds @ [a]) (out @ txt) ph''"

definition udp_init :: udp_phase where
  "udp_init = Receiving (replicate 4096 None)"

section \<open>What is in the buffer\<close>

text \<open>The byte that a sequence of arrivals has left at an index: that of the last datagram long enough.\<close>

definition left_over :: "arrival list \<Rightarrow> nat \<Rightarrow> byte option" where
  "left_over ds i = fold (\<lambda>a old. case a of
     None \<Rightarrow> old | Some (bs, _) \<Rightarrow> if i < length bs then Some (bs ! i) else old) ds None"

lemma left_over_simps [simp]:
  "left_over [] i = None" "left_over (ds @ [None]) i = left_over ds i"
  "left_over (ds @ [Some (bs, ip, port)]) i = (if i < length bs then Some (bs ! i) else left_over ds i)"
  by (simp_all add: left_over_def)

text \<open>A datagram that reached an index reached every index below.\<close>

lemma left_over_below: "left_over ds j \<noteq> None \<Longrightarrow> i \<le> j \<Longrightarrow> left_over ds i \<noteq> None"
proof (induction ds rule: rev_induct)
  case (snoc a ds)
  then show ?case by (cases a) (auto split: if_splits)
qed simp

definition holds :: "recv_buffer \<Rightarrow> (nat \<Rightarrow> byte option) \<Rightarrow> bool" where
  "holds buf h \<longleftrightarrow> length buf = 4096 \<and> (\<forall>i < 4096. buf ! i = h i)"

lemma holds_at: "holds buf h \<Longrightarrow> i < 4096 \<Longrightarrow> buf_at buf i = (case h i of None \<Rightarrow> Inl Indeterminate_Read | Some b \<Rightarrow> Inr b)"
  by (simp add: holds_def buf_at_def)

lemma holds_received:
  "holds buf (left_over ds) \<Longrightarrow> length bs \<le> 4096 \<Longrightarrow> holds (received bs buf) (left_over (ds @ [Some (bs, ip, port)]))"
  by (auto simp: holds_def received_def nth_append)

lemma handle_receives: "udp_demo_handle bs buf = Inr (txt, buf') \<Longrightarrow> buf' = received bs buf"
  by (auto simp: udp_demo_handle_def Let_def obind_eq_Inr split: if_splits)

text \<open>The invariant of the loop.\<close>

lemma udp_runs_holds:
  assumes "udp_runs ph0 ds out ph" and "ph0 = udp_init" "ph = Receiving buf"
  shows "holds buf (left_over ds)"
  using assms
proof (induction arbitrary: buf rule: udp_runs.induct)
  case (udp_start ph)
  then show ?case by (simp add: udp_init_def holds_def)
next
  case (udp_next p0 ds before p1 a line p2)
  then obtain buf' where buf': "p1 = Receiving buf'" by (cases p1) auto
  with udp_next have h: "holds buf' (left_over ds)" by simp
  show ?case
  proof (cases a)
    case None
    with udp_next.hyps(2) udp_next.prems buf' h show ?thesis by (simp add: udp_step_failed)
  next
    case (Some d)
    with udp_next.hyps(2) udp_next.prems buf' h show ?thesis
      by (cases d) (auto simp: udp_step_datagram simp del: left_over_simps dest!: handle_receives intro: holds_received)
  qed
qed

section \<open>What is shown of a datagram\<close>

lemma fields_indeterminate:
  assumes "holds buf h" and "h 0 = Some 0xCA" "h 1 = Some 0xFE" "h 2 \<noteq> None" "h 3 \<noteq> None" and "h 15 = None"
  shows "udp_demo_fields buf = Inl Indeterminate_Read"
proof -
  note at = holds_at [OF assms(1)]
  have magic: "buf_16 buf 0 = Inr 0xCAFE" by (simp add: buf_16_def at assms(2,3) assms(3) [simplified] shift16_be be_val_def)
  have "buf_64 buf 4 = Inl Indeterminate_Read \<or> (\<exists>v. buf_64 buf 4 = Inr v)"
    using assms(1) by (intro buf_64_indeterminate) (simp add: holds_def)
  moreover have "buf_32 buf 12 = Inl Indeterminate_Read"
    using assms(6) by (simp add: buf_32_def at split: option.split)
  ultimately show ?thesis using assms(4,5) by (auto simp: udp_demo_fields_def magic at)
qed

definition shown_line :: "(nat \<Rightarrow> byte option) \<Rightarrow> string" where
  "shown_line h = ''device='' @ show_nat (be_val (map (the \<circ> h) [4..<12])) @ '' msg_type='' @ show_nat (unat (the (h 3))) @
     '' seq='' @ show_nat (be_val (map (the \<circ> h) [12..<16])) @ [CHR 0x0A]"

lemma fields_shown:
  assumes "holds buf h" and "h 0 = Some 0xCA" "h 1 = Some 0xFE" and "\<And>i. i < 16 \<Longrightarrow> h i \<noteq> None"
  shows "\<exists>m. udp_demo_fields buf = Inr (Some m) \<and> udp_demo_log m @ [CHR 0x0A] = shown_line h"
proof -
  have at: "i < 16 \<Longrightarrow> buf_at buf i = Inr (the (h i))" for i
    using holds_at [OF assms(1), of i] assms(4) [of i] by (auto split: option.splits)
  have magic: "buf_16 buf 0 = Inr 0xCAFE" by (simp add: buf_16_def at assms(2,3) assms(3) [simplified] shift16_be be_val_def)
  have dev: "buf_64 buf 4 = Inr (of_nat (be_val (map (the \<circ> h) [4..<12])))"
  proof (rule buf_64_be)
    fix j :: nat assume j: "j < 8"
    have "map (the \<circ> h) [4..<12] ! j = (the \<circ> h) ([4..<12] ! j)" by (rule nth_map) (use j in simp)
    also have "[4..<12] ! j = 4 + j" by (rule nth_upt) (use j in simp)
    finally have "map (the \<circ> h) [4..<12] ! j = the (h (4 + j))" by simp
    then show "buf_at buf (4 + j) = Inr (map (the \<circ> h) [4..<12] ! j)" using j at [of "4 + j"] by simp
  qed simp
  have "map (the \<circ> h) [12..<16] = [the (h 12), the (h 13), the (h 14), the (h 15)]" by (simp add: upt_rec)
  then have seq: "buf_32 buf 12 = Inr (of_nat (be_val (map (the \<circ> h) [12..<16])))"
    by (simp add: buf_32_def at shift32_be)
  let ?m = "\<lparr>dd_device_id = of_nat (be_val (map (the \<circ> h) [4..<12])), dd_msg_type = the (h 3),
      dd_seq = of_nat (be_val (map (the \<circ> h) [12..<16]))\<rparr> :: demo_datagram"
  have "unat (of_nat (be_val (map (the \<circ> h) [4..<12])) :: u64) = be_val (map (the \<circ> h) [4..<12])"
    using be_val_less [of "map (the \<circ> h) [4..<12]"] by (intro unat_of_nat_less) simp
  moreover have "unat (of_nat (be_val (map (the \<circ> h) [12..<16])) :: u32) = be_val (map (the \<circ> h) [12..<16])"
    using be_val_less [of "map (the \<circ> h) [12..<16]"] by (intro unat_of_nat_less) simp
  ultimately have "udp_demo_log ?m @ [CHR 0x0A] = shown_line h"
    by (simp only: udp_demo_log_def shown_line_def demo_datagram.simps append_assoc)
  moreover have "udp_demo_fields buf = Inr (Some ?m)"
    by (simp add: udp_demo_fields_def magic dev seq at)
  ultimately show ?thesis by blast
qed

text \<open>C33: The UDP demo server shows bytes of earlier datagrams: after any sequence of arrivals, a
  datagram of 10 to 12 bytes with the right magic is answered, if some earlier datagram reached index 15,
  with a line whose sequence number is made of bytes that earlier datagrams (of any sender) left in the
  buffer, and of none of its own; if none did, the server reads indeterminate bytes.\<close>

theorem udp_server_shows_old_bytes:
  assumes "udp_runs udp_init ds out (Receiving buf)"
    and "10 \<le> length bs" "length bs \<le> 12" "take 2 bs = [0xCA, 0xFE]"
  shows "(left_over ds 15 \<noteq> None \<longrightarrow> (udp_step (Receiving buf) (Some (bs, ip, port)) txt ph \<longleftrightarrow>
      ph = Receiving (received bs buf) \<and>
      txt = packet_line bs ip port @ ''device='' @
        show_nat (be_val (map (the \<circ> left_over (ds @ [Some (bs, ip, port)])) [4..<12])) @
        '' msg_type='' @ show_nat (unat (bs ! 3)) @
        '' seq='' @ show_nat (be_val (map (the \<circ> left_over ds) [12..<16])) @ [CHR 0x0A])) \<and>
    (left_over ds 15 = None \<longrightarrow> (udp_step (Receiving buf) (Some (bs, ip, port)) txt ph \<longleftrightarrow>
      ph = Udp_Stopped Indeterminate_Read \<and> txt = packet_line bs ip port))"
proof (intro conjI impI)
  let ?h = "left_over (ds @ [Some (bs, ip, port)])"
  have h: "holds (received bs buf) ?h"
    using udp_runs_holds [OF assms(1) refl refl] assms(3) by (intro holds_received) simp_all
  obtain tl' where bs: "bs = 0xCA # 0xFE # tl'"
    using assms(2,4) by (cases bs; cases "List.tl bs") auto
  have own: "?h 0 = Some 0xCA" "?h 1 = Some 0xFE" "?h 2 \<noteq> None" "?h 3 = Some (bs ! 3)" "?h 15 = left_over ds 15"
    using assms(2,3) by (auto simp: bs)
  show "udp_step (Receiving buf) (Some (bs, ip, port)) txt ph \<longleftrightarrow>
      ph = Udp_Stopped Indeterminate_Read \<and> txt = packet_line bs ip port" if "left_over ds 15 = None"
  proof -
    have "udp_demo_fields (received bs buf) = Inl Indeterminate_Read"
      using own that by (intro fields_indeterminate [OF h]) simp_all
    with assms(2,3) show ?thesis by (auto simp: udp_step_datagram udp_demo_handle_def)
  qed
  assume "left_over ds 15 \<noteq> None"
  then have "?h i \<noteq> None" if "i < 16" for i
    using left_over_below [of "ds @ [Some (bs, ip, port)]" 15 i] own(5) that by simp
  from fields_shown [OF h own(1,2) this] obtain m where m: "udp_demo_fields (received bs buf) = Inr (Some m)"
    "udp_demo_log m @ [CHR 0x0A] = shown_line ?h" by blast
  then have handle: "udp_demo_handle bs buf = Inr (shown_line ?h, received bs buf)"
    using assms(2) by (simp add: udp_demo_handle_def)
  have "map (the \<circ> ?h) [12..<16] = map (the \<circ> left_over ds) [12..<16]" using assms(3) by auto
  then have line: "shown_line ?h = ''device='' @ show_nat (be_val (map (the \<circ> ?h) [4..<12])) @
      '' msg_type='' @ show_nat (unat (bs ! 3)) @
      '' seq='' @ show_nat (be_val (map (the \<circ> left_over ds) [12..<16])) @ [CHR 0x0A]"
    by (simp only: shown_line_def own(4) option.sel)
  have "udp_step (Receiving buf) (Some (bs, ip, port)) txt ph \<longleftrightarrow>
      ph = Receiving (received bs buf) \<and> txt = packet_line bs ip port @ shown_line ?h"
    using handle assms(3) by (auto simp: udp_step_datagram)
  then show "udp_step (Receiving buf) (Some (bs, ip, port)) txt ph \<longleftrightarrow>
      ph = Receiving (received bs buf) \<and>
      txt = packet_line bs ip port @ ''device='' @ show_nat (be_val (map (the \<circ> ?h) [4..<12])) @
        '' msg_type='' @ show_nat (unat (bs ! 3)) @
        '' seq='' @ show_nat (be_val (map (the \<circ> left_over ds) [12..<16])) @ [CHR 0x0A]"
    by (simp only: line)
qed

text \<open>The second datagram, from another sender, is shown with the first one's sequence number 99.\<close>

definition full_datagram :: "byte list" where
  "full_datagram = [0xCA, 0xFE, 1, 2, 0, 0, 0, 0, 0, 0, 0, 77, 0, 0, 0, 99]"

lemma full_datagram_run:
  "udp_runs udp_init [Some (full_datagram, ''10.0.0.1'', 5000)]
    (packet_line full_datagram ''10.0.0.1'' 5000 @ ''device='' @ show_nat 77 @ '' msg_type='' @ show_nat 2 @
      '' seq='' @ show_nat 99 @ [CHR 0x0A])
    (Receiving (received full_datagram (replicate 4096 None)))"
proof -
  let ?h = "left_over ([] @ [Some (full_datagram, ''10.0.0.1'', 5000)])"
  have "holds (replicate 4096 None) (left_over [])" by (simp add: holds_def)
  from holds_received [OF this, of full_datagram] have h: "holds (received full_datagram (replicate 4096 None)) ?h"
    by (simp add: full_datagram_def)
  have all: "?h i \<noteq> None" if "i < 16" for i using that by (simp add: full_datagram_def left_over_def)
  have "?h 0 = Some 0xCA" "?h 1 = Some 0xFE" by (simp_all add: full_datagram_def left_over_def)
  from fields_shown [OF h this all] have "udp_demo_handle full_datagram (replicate 4096 None) =
      Inr (shown_line ?h, received full_datagram (replicate 4096 None))"
    by (auto simp: udp_demo_handle_def) (simp_all add: full_datagram_def)
  moreover have "shown_line ?h = ''device='' @ show_nat 77 @ '' msg_type='' @ show_nat 2 @ '' seq='' @ show_nat 99 @ [CHR 0x0A]"
    by (simp add: shown_line_def full_datagram_def be_val_def left_over_def)
  ultimately have "udp_step udp_init (Some (full_datagram, ''10.0.0.1'', 5000))
      (packet_line full_datagram ''10.0.0.1'' 5000 @ ''device='' @ show_nat 77 @ '' msg_type='' @ show_nat 2 @
        '' seq='' @ show_nat 99 @ [CHR 0x0A]) (Receiving (received full_datagram (replicate 4096 None)))"
    unfolding udp_init_def by (intro udp_step.shown) (simp_all add: full_datagram_def)
  from udp_next [OF udp_start this] show ?thesis by simp
qed

theorem udp_server_shows_old_bytes_witness:
  "udp_step (Receiving (received full_datagram (replicate 4096 None)))
    (Some ([0xCA, 0xFE, 1, 3, 0, 0, 0, 0, 0, 0], ''10.0.0.2'', 6000))
    (packet_line [0xCA, 0xFE, 1, 3, 0, 0, 0, 0, 0, 0] ''10.0.0.2'' 6000 @ ''device='' @ show_nat 77 @
      '' msg_type='' @ show_nat 3 @ '' seq='' @ show_nat 99 @ [CHR 0x0A])
    (Receiving (received [0xCA, 0xFE, 1, 3, 0, 0, 0, 0, 0, 0] (received full_datagram (replicate 4096 None))))"
proof -
  let ?ds = "[Some (full_datagram, ''10.0.0.1'', 5000)]" and ?bs = "[0xCA, 0xFE, 1, 3, 0, 0, 0, 0, 0, 0] :: byte list"
  let ?h = "left_over (?ds @ [Some (?bs, ''10.0.0.2'', 6000)])"
  have "be_val (map (the \<circ> ?h) [4..<12]) = 77" "be_val (map (the \<circ> left_over ?ds) [12..<16]) = 99"
    by (simp_all add: full_datagram_def be_val_def left_over_def)
  moreover have "left_over ?ds 15 \<noteq> None" by (simp add: full_datagram_def left_over_def)
  ultimately show ?thesis
    using udp_server_shows_old_bytes [OF full_datagram_run, of ?bs "''10.0.0.2''" 6000] by simp
qed

end
