(* ===== verification/Buffer_Heap.thy ===== *)
theory Buffer_Heap
  imports Prelude
begin

text \<open>
  \<^verbatim>\<open>Buffer\<close> (\<^verbatim>\<open>include/gatewayforge/common/Buffer.h\<close>, \<^verbatim>\<open>src/common/Buffer.cpp\<close>) on
  an explicit heap: blocks of possibly indeterminate bytes at addresses. The choice of an
  address, or failure, by \<open>std::malloc\<close> is the parameter \<open>al\<close>.
\<close>

section \<open>The heap\<close>

type_synonym addr = nat
type_synonym heap = "addr \<Rightarrow> byte option list option"
type_synonym allocator = "heap \<Rightarrow> nat \<Rightarrow> addr option"
type_synonym pointer = "(addr \<times> size_t) option"

text \<open>What the C standard promises of \<open>malloc\<close>, and that memory does not run out.\<close>

definition alloc_fresh :: "allocator \<Rightarrow> bool" where
  "alloc_fresh al \<longleftrightarrow> (\<forall>h n a. al h n = Some a \<longrightarrow> h a = None)"

definition alloc_succeeds :: "allocator \<Rightarrow> bool" where
  "alloc_succeeds al \<longleftrightarrow> (\<forall>h n. finite (dom h) \<longrightarrow> al h n \<noteq> None)"

definition malloc :: "allocator \<Rightarrow> size_t \<Rightarrow> heap \<Rightarrow> addr option \<times> heap" where
  "malloc al n h =
     (case al h (unat n) of
        None \<Rightarrow> (None, h)
      | Some a \<Rightarrow> (Some a, h(a \<mapsto> replicate (unat n) None)))"

definition free :: "addr option \<Rightarrow> heap \<Rightarrow> heap outcome" where
  "free p h =
     (case p of
        None \<Rightarrow> Inr h
      | Some a \<Rightarrow> if h a = None then Inl Bad_Free else Inr (h(a := None)))"

text \<open>\<open>memcpy\<close> to the start of block \<open>a\<close>; copying nothing reads nothing.\<close>

definition mem_copy :: "addr \<Rightarrow> pointer \<Rightarrow> nat \<Rightarrow> heap \<Rightarrow> heap outcome" where
  "mem_copy a p n h =
     (if n = 0 then Inr h
      else case p of
        None \<Rightarrow> Inl Null_Deref
      | Some (sa, off) \<Rightarrow>
          (case (h sa, h a) of
             (Some src, Some dst) \<Rightarrow>
               if unat off + n \<le> length src \<and> n \<le> length dst
               then Inr (h(a \<mapsto> take n (drop (unat off) src) @ drop n dst))
               else Inl Out_Of_Bounds
           | _ \<Rightarrow> Inl Out_Of_Bounds))"

definition mem_zero :: "addr \<Rightarrow> nat \<Rightarrow> heap \<Rightarrow> heap outcome" where
  "mem_zero a n h =
     (case h a of
        None \<Rightarrow> Inl Out_Of_Bounds
      | Some dst \<Rightarrow> if n \<le> length dst then Inr (h(a \<mapsto> replicate n (Some 0) @ drop n dst))
                    else Inl Out_Of_Bounds)"

section \<open>Buffer\<close>

record buffer =
  b_data :: "addr option"
  b_size :: size_t

definition new_buffer :: buffer where
  "new_buffer = \<lparr>b_data = None, b_size = 0\<rparr>"

definition buffer_from :: "allocator \<Rightarrow> pointer \<Rightarrow> size_t \<Rightarrow> heap \<Rightarrow> (buffer \<times> heap) outcome" where
  "buffer_from al data sz h =
     (let (p, h1) = malloc al sz h
      in case p of
           None \<Rightarrow> Inr (\<lparr>b_data = None, b_size = sz\<rparr>, h1)
         | Some a \<Rightarrow>
             if data = None then Inr (\<lparr>b_data = Some a, b_size = sz\<rparr>, h1)
             else obind (mem_copy a data (unat sz) h1)
                    (\<lambda>h2. Inr (\<lparr>b_data = Some a, b_size = sz\<rparr>, h2)))"

definition buffer_zero :: "allocator \<Rightarrow> size_t \<Rightarrow> heap \<Rightarrow> (buffer \<times> heap) outcome" where
  "buffer_zero al sz h =
     (let (p, h1) = malloc al sz h
      in case p of
           None \<Rightarrow> Inr (\<lparr>b_data = None, b_size = sz\<rparr>, h1)
         | Some a \<Rightarrow> obind (mem_zero a (unat sz) h1)
                       (\<lambda>h2. Inr (\<lparr>b_data = Some a, b_size = sz\<rparr>, h2)))"

definition buffer_destroy :: "buffer \<Rightarrow> heap \<Rightarrow> heap outcome" where
  "buffer_destroy b h = free (b_data b) h"

definition buffer_size :: "buffer \<Rightarrow> size_t" where
  [simp]: "buffer_size b = b_size b"

definition buffer_empty :: "buffer \<Rightarrow> bool" where
  [simp]: "buffer_empty b \<longleftrightarrow> b_size b = 0"

definition data_ptr :: "buffer \<Rightarrow> pointer" where
  "data_ptr b = (case b_data b of None \<Rightarrow> None | Some a \<Rightarrow> Some (a, 0))"

definition buffer_copy :: "allocator \<Rightarrow> buffer \<Rightarrow> heap \<Rightarrow> (buffer \<times> heap) outcome" where
  "buffer_copy al other h =
     (let (p, h1) = malloc al (b_size other) h
      in case p of
           None \<Rightarrow> Inr (\<lparr>b_data = None, b_size = b_size other\<rparr>, h1)
         | Some a \<Rightarrow> obind (mem_copy a (data_ptr other) (unat (b_size other)) h1)
                       (\<lambda>h2. Inr (\<lparr>b_data = Some a, b_size = b_size other\<rparr>, h2)))"

text \<open>The flag says whether \<open>this == &other\<close>.\<close>

definition buffer_assign ::
    "allocator \<Rightarrow> bool \<Rightarrow> buffer \<Rightarrow> buffer \<Rightarrow> heap \<Rightarrow> (buffer \<times> heap) outcome" where
  "buffer_assign al same this other h =
     (if \<not> same
      then obind (free (b_data this) h) (\<lambda>h0.
             let (p, h1) = malloc al (b_size other) h0
             in case p of
                  None \<Rightarrow> Inr (\<lparr>b_data = None, b_size = b_size other\<rparr>, h1)
                | Some a \<Rightarrow> obind (mem_copy a (data_ptr other) (unat (b_size other)) h1)
                              (\<lambda>h2. Inr (\<lparr>b_data = Some a, b_size = b_size other\<rparr>, h2)))
      else Inr (this, h))"

text \<open>Moves return the new object and what is left of the source.\<close>

definition buffer_move :: "buffer \<Rightarrow> buffer \<times> buffer" where
  "buffer_move other =
     (\<lparr>b_data = b_data other, b_size = b_size other\<rparr>, other\<lparr>b_data := None, b_size := 0\<rparr>)"

definition buffer_move_assign ::
    "bool \<Rightarrow> buffer \<Rightarrow> buffer \<Rightarrow> heap \<Rightarrow> ((buffer \<times> buffer) \<times> heap) outcome" where
  "buffer_move_assign same this other h =
     (if \<not> same
      then obind (free (b_data this) h) (\<lambda>h1.
             Inr ((this\<lparr>b_data := b_data other, b_size := b_size other\<rparr>,
                   other\<lparr>b_data := None, b_size := 0\<rparr>), h1))
      else Inr ((this, other), h))"

text \<open>Reading \<open>n\<close> bytes at \<open>data_ + off\<close>.\<close>

definition read_bytes :: "buffer \<Rightarrow> size_t \<Rightarrow> nat \<Rightarrow> heap \<Rightarrow> byte list outcome" where
  "read_bytes b off n h =
     (case b_data b of
        None \<Rightarrow> Inl Null_Deref
      | Some a \<Rightarrow>
          (case h a of
             None \<Rightarrow> Inl Out_Of_Bounds
           | Some blk \<Rightarrow>
               if unat off + n \<le> length blk
               then let bs = take n (drop (unat off) blk)
                    in if None \<in> set bs then Inl Indeterminate_Read else Inr (map the bs)
               else Inl Out_Of_Bounds))"

definition buffer_at :: "buffer \<Rightarrow> size_t \<Rightarrow> heap \<Rightarrow> byte outcome" where
  "buffer_at b index h =
     (if index \<ge> b_size b then Inl (Throw (Out_Of_Range ''Buffer::operator[] out of range''))
      else obind (read_bytes b index 1 h) (\<lambda>bs. Inr (hd bs)))"

definition buffer_slice ::
    "allocator \<Rightarrow> buffer \<Rightarrow> size_t \<Rightarrow> size_t \<Rightarrow> heap \<Rightarrow> (buffer \<times> heap) outcome" where
  "buffer_slice al b offset len h =
     (if offset + len > b_size b then Inl (Throw (Out_Of_Range ''Buffer::Slice out of range''))
      else case b_data b of
        None \<Rightarrow> if offset = 0 then buffer_from al None len h else Inl Null_Deref
      | Some a \<Rightarrow> buffer_from al (Some (a, offset)) len h)"

text \<open>\<open>Read<T>\<close> for an integer type of \<open>n\<close> bytes, as the value of the object.\<close>

definition buffer_read :: "nat \<Rightarrow> buffer \<Rightarrow> size_t \<Rightarrow> heap \<Rightarrow> nat outcome" where
  "buffer_read n b offset h =
     (if offset + of_nat n > b_size b then Inl (Throw (Out_Of_Range ''Buffer::Read out of range''))
      else obind (read_bytes b offset n h) (\<lambda>bs. Inr (le_val bs)))"

section \<open>Programs over buffers\<close>

text \<open>Objects with a lifetime, and the operations that construct, change and destroy them.\<close>

record store =
  st_vars :: "string \<Rightarrow> buffer option"
  st_heap :: heap

datatype buf_op =
    Default string
  | From string pointer size_t
  | Zero string size_t
  | Copy string string
  | Assign string string
  | Move string string
  | Move_Assign string string
  | Slice string string size_t size_t
  | Destroy string

definition live :: "store \<Rightarrow> string \<Rightarrow> buffer outcome" where
  "live st x = (case st_vars st x of None \<Rightarrow> Inl Dead_Object | Some b \<Rightarrow> Inr b)"

definition set_var :: "string \<Rightarrow> buffer \<Rightarrow> store \<Rightarrow> store" where
  "set_var x b st = st\<lparr>st_vars := (st_vars st)(x \<mapsto> b)\<rparr>"

definition bind_var :: "string \<Rightarrow> store \<Rightarrow> (buffer \<times> heap) outcome \<Rightarrow> store outcome" where
  "bind_var x st r = obind r (\<lambda>bh. Inr (set_var x (fst bh) (st\<lparr>st_heap := snd bh\<rparr>)))"

primrec exec :: "allocator \<Rightarrow> buf_op \<Rightarrow> store \<Rightarrow> store outcome" where
  "exec al (Default x) st = Inr (set_var x new_buffer st)"
| "exec al (From x p n) st = bind_var x st (buffer_from al p n (st_heap st))"
| "exec al (Zero x n) st = bind_var x st (buffer_zero al n (st_heap st))"
| "exec al (Copy x y) st = obind (live st y) (\<lambda>c. bind_var x st (buffer_copy al c (st_heap st)))"
| "exec al (Assign x y) st = obind (live st x) (\<lambda>b. obind (live st y) (\<lambda>c.
     bind_var x st (buffer_assign al (x = y) b c (st_heap st))))"
| "exec al (Move x y) st = obind (live st y) (\<lambda>c.
     let (b, c') = buffer_move c in Inr (set_var x b (set_var y c' st)))"
| "exec al (Move_Assign x y) st = obind (live st x) (\<lambda>b. obind (live st y) (\<lambda>c.
     obind (buffer_move_assign (x = y) b c (st_heap st)) (\<lambda>((b', c'), h).
       Inr (set_var x b' (set_var y c' (st\<lparr>st_heap := h\<rparr>))))))"
| "exec al (Slice x y off n) st = obind (live st y) (\<lambda>c.
     bind_var x st (buffer_slice al c off n (st_heap st)))"
| "exec al (Destroy x) st = obind (live st x) (\<lambda>b. obind (buffer_destroy b (st_heap st)) (\<lambda>h.
     Inr (st\<lparr>st_vars := (st_vars st)(x := None), st_heap := h\<rparr>)))"

section \<open>Ownership\<close>

definition owned :: "(string \<Rightarrow> buffer option) \<Rightarrow> addr set" where
  "owned vs = {a. \<exists>x b. vs x = Some b \<and> b_data b = Some a}"

definition buffer_ok :: "heap \<Rightarrow> buffer \<Rightarrow> bool" where
  "buffer_ok h b \<longleftrightarrow>
     (case b_data b of
        None \<Rightarrow> b_size b = 0
      | Some a \<Rightarrow> (\<exists>blk. h a = Some blk \<and> length blk = unat (b_size b)))"

text \<open>
  \<open>env\<close> are the blocks that belong to the environment, which no operation changes. Every live buffer has a block of its size,
  no two share one, and the heap holds nothing else: no leak, nothing freed twice.
\<close>

definition owner_inv :: "heap \<Rightarrow> store \<Rightarrow> bool" where
  "owner_inv env st \<longleftrightarrow> finite (dom (st_heap st)) \<and>
     (\<forall>x b. st_vars st x = Some b \<longrightarrow> buffer_ok (st_heap st) b) \<and>
     (\<forall>x y b c a. st_vars st x = Some b \<longrightarrow> st_vars st y = Some c \<longrightarrow>
        b_data b = Some a \<longrightarrow> b_data c = Some a \<longrightarrow> x = y) \<and>
     dom (st_heap st) = dom env \<union> owned (st_vars st) \<and> dom env \<inter> owned (st_vars st) = {} \<and>
     (\<forall>a \<in> dom env. st_heap st a = env a)"

text \<open>The bytes of a buffer.\<close>

definition contents :: "heap \<Rightarrow> buffer \<Rightarrow> byte option list" where
  "contents h b = (case b_data b of None \<Rightarrow> [] | Some a \<Rightarrow> the (h a))"

text \<open>
  The specification: a store of byte strings. Each operation of the class is the obvious
  operation on values; only the class's moves are visible, as they empty their source.
\<close>

type_synonym values_store = "string \<Rightarrow> byte option list option"

definition abs_store :: "store \<Rightarrow> values_store" where
  "abs_store st x = map_option (contents (st_heap st)) (st_vars st x)"

primrec spec :: "heap \<Rightarrow> buf_op \<Rightarrow> values_store \<Rightarrow> values_store" where
  "spec env (Default x) A = A(x \<mapsto> [])"
| "spec env (From x p n) A = A(x \<mapsto> (case p of
     None \<Rightarrow> replicate (unat n) None
   | Some (a, off) \<Rightarrow> take (unat n) (drop (unat off) (the (env a)))))"
| "spec env (Zero x n) A = A(x \<mapsto> replicate (unat n) (Some 0))"
| "spec env (Copy x y) A = A(x := A y)"
| "spec env (Assign x y) A = A(x := A y)"
| "spec env (Move x y) A = A(y \<mapsto> [], x := A y)"
| "spec env (Move_Assign x y) A = (if x = y then A else A(y \<mapsto> [], x := A y))"
| "spec env (Slice x y off n) A = A(x \<mapsto> take (unat n) (drop (unat off) (the (A y))))"
| "spec env (Destroy x) A = A(x := None)"

text \<open>
  What the compiler enforces (constructors act on fresh names, the rest on live objects) and
  what the caller of a pointer constructor or of \<open>Slice\<close> must provide, over the values alone.
\<close>

fun well_scoped :: "heap \<Rightarrow> values_store \<Rightarrow> buf_op \<Rightarrow> bool" where
  "well_scoped env A (Default x) \<longleftrightarrow> A x = None"
| "well_scoped env A (From x None n) \<longleftrightarrow> A x = None"
| "well_scoped env A (From x (Some (a, off)) n) \<longleftrightarrow> A x = None \<and>
     (case env a of None \<Rightarrow> False | Some blk \<Rightarrow> unat off + unat n \<le> length blk)"
| "well_scoped env A (Zero x n) \<longleftrightarrow> A x = None"
| "well_scoped env A (Copy x y) \<longleftrightarrow> A x = None \<and> A y \<noteq> None"
| "well_scoped env A (Assign x y) \<longleftrightarrow> A x \<noteq> None \<and> A y \<noteq> None"
| "well_scoped env A (Move x y) \<longleftrightarrow> A x = None \<and> A y \<noteq> None"
| "well_scoped env A (Move_Assign x y) \<longleftrightarrow> A x \<noteq> None \<and> A y \<noteq> None"
| "well_scoped env A (Slice x y off n) \<longleftrightarrow> A x = None \<and>
     (case A y of None \<Rightarrow> False | Some bs \<Rightarrow> unat off + unat n \<le> length bs)"
| "well_scoped env A (Destroy x) \<longleftrightarrow> A x \<noteq> None"

text \<open>A program, scoped operation by operation in the store of values it computes.\<close>

fun scoped_run :: "heap \<Rightarrow> buf_op list \<Rightarrow> values_store \<Rightarrow> bool" where
  "scoped_run env [] A = True"
| "scoped_run env (op # ops) A = (well_scoped env A op \<and> scoped_run env ops (spec env op A))"

lemma abs_store_None [simp]: "abs_store st x = None \<longleftrightarrow> st_vars st x = None"
  by (simp add: abs_store_def)

lemma abs_store_live: "abs_store st x \<noteq> None \<Longrightarrow> \<exists>b. st_vars st x = Some b"
  by (auto simp: abs_store_def)

lemma length_contents: "buffer_ok h b \<Longrightarrow> length (contents h b) = unat (b_size b)"
  by (auto simp: buffer_ok_def contents_def split: option.splits)

lemma owner_invI:
  assumes "finite (dom h)" and "\<And>x b. vs x = Some b \<Longrightarrow> buffer_ok h b"
    and "\<And>x y b c a. vs x = Some b \<Longrightarrow> vs y = Some c \<Longrightarrow> b_data b = Some a \<Longrightarrow> b_data c = Some a \<Longrightarrow> x = y"
    and "dom h = dom env \<union> owned vs" "dom env \<inter> owned vs = {}" "\<forall>a \<in> dom env. h a = env a"
  shows "owner_inv env \<lparr>st_vars = vs, st_heap = h\<rparr>"
  using assms unfolding owner_inv_def by auto

lemma owner_invD:
  assumes "owner_inv env \<lparr>st_vars = vs, st_heap = h\<rparr>"
  shows "finite (dom h)" and "vs x = Some b \<Longrightarrow> buffer_ok h b"
    and "vs x = Some b \<Longrightarrow> vs y = Some c \<Longrightarrow> b_data b = Some a \<Longrightarrow> b_data c = Some a \<Longrightarrow> x = y"
    and "dom h = dom env \<union> owned vs" "dom env \<inter> owned vs = {}" "\<forall>a \<in> dom env. h a = env a"
  using assms unfolding owner_inv_def by auto

lemma owned_memI: "vs x = Some b \<Longrightarrow> b_data b = Some a \<Longrightarrow> a \<in> owned vs"
  by (auto simp: owned_def)

lemma owned_drop: "a \<in> owned (vs(x := None)) \<longleftrightarrow> (\<exists>y b. y \<noteq> x \<and> vs y = Some b \<and> b_data b = Some a)"
  by (auto simp: owned_def split: if_splits)

lemma buffer_ok_frame:
  "buffer_ok h b \<Longrightarrow> (\<And>a. b_data b = Some a \<Longrightarrow> h' a = h a) \<Longrightarrow> buffer_ok h' b"
  by (auto simp: buffer_ok_def split: option.splits)

text \<open>A new variable with a block of its own.\<close>

lemma owner_inv_add:
  assumes inv: "owner_inv env \<lparr>st_vars = vs, st_heap = h\<rparr>" and x: "vs x = None"
    and a: "h a = None" and blk: "length blk = unat n"
  shows "owner_inv env \<lparr>st_vars = vs(x \<mapsto> \<lparr>b_data = Some a, b_size = n\<rparr>), st_heap = h(a \<mapsto> blk)\<rparr>"
proof -
  note D = owner_invD [OF inv]
  have fresh: "b_data b \<noteq> Some a" if "vs y = Some b" for y b
    using that D(4) a by (auto dest: owned_memI)
  have ow: "owned (vs(x \<mapsto> \<lparr>b_data = Some a, b_size = n\<rparr>)) = insert a (owned vs)"
    using x by (auto simp: owned_def) (metis option.distinct(1))+
  show ?thesis
  proof (rule owner_invI)
    fix y b
    assume y: "(vs(x \<mapsto> \<lparr>b_data = Some a, b_size = n\<rparr>)) y = Some b"
    show "buffer_ok (h(a \<mapsto> blk)) b"
    proof (cases "y = x")
      case True
      then show ?thesis using y blk by (auto simp: buffer_ok_def)
    next
      case False
      then have "vs y = Some b" using y by simp
      then show ?thesis using fresh by (intro buffer_ok_frame [OF D(2)]) auto
    qed
  next
    fix y z b c a'
    assume "(vs(x \<mapsto> \<lparr>b_data = Some a, b_size = n\<rparr>)) y = Some b"
      "(vs(x \<mapsto> \<lparr>b_data = Some a, b_size = n\<rparr>)) z = Some c" "b_data b = Some a'" "b_data c = Some a'"
    then show "y = z" using fresh D(3) by (auto split: if_splits)
  next
    have "a \<notin> dom env" using a D(4) by (metis UnI1 domIff)
    then show "\<forall>a' \<in> dom env. (h(a \<mapsto> blk)) a' = env a'" using D(6) by auto
    from \<open>a \<notin> dom env\<close> show "dom env \<inter> owned (vs(x \<mapsto> \<lparr>b_data = Some a, b_size = n\<rparr>)) = {}" using D(5) ow by auto
  qed (use D a ow in auto)
qed

lemma owner_inv_null:
  assumes inv: "owner_inv env \<lparr>st_vars = vs, st_heap = h\<rparr>" and x: "vs x = None"
  shows "owner_inv env \<lparr>st_vars = vs(x \<mapsto> new_buffer), st_heap = h\<rparr>"
proof -
  note D = owner_invD [OF inv]
  have ow: "owned (vs(x \<mapsto> new_buffer)) = owned vs"
    using x by (auto simp: owned_def new_buffer_def) (metis option.distinct(1))
  show ?thesis
    by (rule owner_invI)
      (use D ow in \<open>auto simp: new_buffer_def buffer_ok_def split: if_splits\<close>)
qed

text \<open>Releasing a variable's block.\<close>

lemma owner_inv_drop:
  assumes inv: "owner_inv env \<lparr>st_vars = vs, st_heap = h\<rparr>" and x: "vs x = Some b"
  shows "\<exists>h'. free (b_data b) h = Inr h' \<and> owner_inv env \<lparr>st_vars = vs(x := None), st_heap = h'\<rparr> \<and>
    (\<forall>y c a. y \<noteq> x \<longrightarrow> vs y = Some c \<longrightarrow> b_data c = Some a \<longrightarrow> h' a = h a)"
proof -
  note D = owner_invD [OF inv]
  show ?thesis
  proof (cases "b_data b")
    case None
    have "owned (vs(x := None)) = owned vs"
    proof (intro set_eqI)
      fix a
      have "y \<noteq> x" if "vs y = Some d" "b_data d = Some a" for y d using that x None by auto
      then show "a \<in> owned (vs(x := None)) \<longleftrightarrow> a \<in> owned vs"
        unfolding owned_drop by (auto simp: owned_def)
    qed
    then have "owner_inv env \<lparr>st_vars = vs(x := None), st_heap = h\<rparr>"
      by (intro owner_invI) (use D in \<open>auto split: if_splits\<close>)
    with None show ?thesis by (simp add: free_def)
  next
    case (Some a)
    have others: "b_data c \<noteq> Some a" if "vs y = Some c" "y \<noteq> x" for y c
      using that D(3) [OF x that(1) Some] by auto
    have ow: "owned (vs(x := None)) = owned vs - {a}"
    proof (intro set_eqI)
      fix a'
      have "y \<noteq> x" if "vs y = Some d" "b_data d = Some a'" "a' \<noteq> a" for y d
        using that x Some by auto
      then show "a' \<in> owned (vs(x := None)) \<longleftrightarrow> a' \<in> owned vs - {a}"
        unfolding owned_drop using x Some others by (auto simp: owned_def)
    qed
    have inE: "a \<notin> dom env" using D(5) x Some by (auto simp: owned_def)
    have "owner_inv env \<lparr>st_vars = vs(x := None), st_heap = h(a := None)\<rparr>"
    proof (rule owner_invI)
      fix y c
      assume y: "(vs(x := None)) y = Some c"
      then have "vs y = Some c" "y \<noteq> x" by (auto split: if_splits)
      then show "buffer_ok (h(a := None)) c"
        using others by (intro buffer_ok_frame [OF D(2)]) auto
    next
      fix y z c d a'
      assume "(vs(x := None)) y = Some c" "(vs(x := None)) z = Some d" "b_data c = Some a'" "b_data d = Some a'"
      then show "y = z" using D(3) by (auto split: if_splits)
    qed (use D ow inE in auto)
    moreover have "h a \<noteq> None" using D(2) [OF x] Some by (auto simp: buffer_ok_def)
    ultimately show ?thesis using Some others by (auto simp: free_def)
  qed
qed

text \<open>Handing a block from one variable to another.\<close>

lemma owner_inv_move:
  assumes inv: "owner_inv env \<lparr>st_vars = vs, st_heap = h\<rparr>" and x: "vs x = None" and y: "vs y = Some c"
  shows "owner_inv env \<lparr>st_vars = vs(y \<mapsto> new_buffer, x \<mapsto> c), st_heap = h\<rparr>"
proof -
  note D = owner_invD [OF inv]
  have ne: "x \<noteq> y" using x y by auto
  have ow: "owned (vs(y \<mapsto> new_buffer, x \<mapsto> c)) = owned vs"
  proof
    show "owned (vs(y \<mapsto> new_buffer, x \<mapsto> c)) \<subseteq> owned vs"
      using y by (auto simp: owned_def new_buffer_def split: if_splits)
    show "owned vs \<subseteq> owned (vs(y \<mapsto> new_buffer, x \<mapsto> c))"
    proof
      fix a
      assume "a \<in> owned vs"
      then obtain z b where z: "vs z = Some b" "b_data b = Some a" by (auto simp: owned_def)
      let ?vs = "vs(y \<mapsto> new_buffer, x \<mapsto> c)"
      have "?vs (if z = y then x else z) = Some b" using z(1) x y ne by auto
      then show "a \<in> owned ?vs" using z(2) by (rule owned_memI)
    qed
  qed
  show ?thesis
  proof (rule owner_invI)
    fix z b
    assume "(vs(y \<mapsto> new_buffer, x \<mapsto> c)) z = Some b"
    then show "buffer_ok h b"
      using D(2) y by (auto simp: new_buffer_def buffer_ok_def split: if_splits)
  next
    fix z w b d a
    assume "(vs(y \<mapsto> new_buffer, x \<mapsto> c)) z = Some b" "(vs(y \<mapsto> new_buffer, x \<mapsto> c)) w = Some d"
      "b_data b = Some a" "b_data d = Some a"
    then show "z = w" using D(3) [OF y] D(3) y by (auto simp: new_buffer_def split: if_splits)
  qed (use D ow in auto)
qed

section \<open>Buffers as values\<close>

definition ready :: "allocator \<Rightarrow> heap \<Rightarrow> bool" where
  "ready al h \<longleftrightarrow> alloc_fresh al \<and> alloc_succeeds al \<and> finite (dom h)"

lemma malloc_ok:
  assumes "ready al h"
  obtains a where "malloc al n h = (Some a, h(a \<mapsto> replicate (unat n) None))" "h a = None"
proof -
  obtain a where "al h (unat n) = Some a"
    using assms by (auto simp: ready_def alloc_succeeds_def)
  moreover from this have "h a = None" using assms by (auto simp: ready_def alloc_fresh_def)
  ultimately show ?thesis using that by (simp add: malloc_def)
qed

text \<open>What every constructor establishes: a fresh block with the given contents.\<close>

definition constructs :: "heap \<Rightarrow> byte option list \<Rightarrow> size_t \<Rightarrow> (buffer \<times> heap) outcome \<Rightarrow> bool" where
  "constructs h blk n r \<longleftrightarrow> length blk = unat n \<and>
     (\<exists>a. h a = None \<and> r = Inr (\<lparr>b_data = Some a, b_size = n\<rparr>, h(a \<mapsto> blk)))"

lemma mem_copy_fresh:
  assumes "h a = None" and "h sa = Some src" and "unat off + n \<le> length src"
  shows "mem_copy a (Some (sa, off)) n (h(a \<mapsto> replicate n None)) =
    Inr (h(a \<mapsto> take n (drop (unat off) src)))"
  using assms by (auto simp: mem_copy_def)

lemma zero_constructs:
  assumes r: "ready al h"
  shows "constructs h (replicate (unat n) (Some 0)) n (buffer_zero al n h)"
proof -
  obtain a where "malloc al n h = (Some a, h(a \<mapsto> replicate (unat n) None))" "h a = None"
    using malloc_ok [OF r] by blast
  then show ?thesis by (simp add: constructs_def buffer_zero_def mem_zero_def)
qed

lemma from_null_constructs:
  assumes r: "ready al h"
  shows "constructs h (replicate (unat n) None) n (buffer_from al None n h)"
proof -
  obtain a where "malloc al n h = (Some a, h(a \<mapsto> replicate (unat n) None))" "h a = None"
    using malloc_ok [OF r] by blast
  then show ?thesis by (simp add: constructs_def buffer_from_def)
qed

lemma from_constructs:
  assumes r: "ready al h" and src: "h sa = Some src" and len: "unat off + unat n \<le> length src"
  shows "constructs h (take (unat n) (drop (unat off) src)) n (buffer_from al (Some (sa, off)) n h)"
proof -
  obtain a where "malloc al n h = (Some a, h(a \<mapsto> replicate (unat n) None))" "h a = None"
    using malloc_ok [OF r] by blast
  with mem_copy_fresh [OF this(2) src len] len show ?thesis
    by (simp add: constructs_def buffer_from_def)
qed

lemma copy_constructs:
  assumes r: "ready al h" and ok: "buffer_ok h c"
  shows "constructs h (contents h c) (b_size c) (buffer_copy al c h)"
proof -
  obtain a where a: "malloc al (b_size c) h = (Some a, h(a \<mapsto> replicate (unat (b_size c)) None))" "h a = None"
    using malloc_ok [OF r] by blast
  show ?thesis
  proof (cases "b_data c")
    case None
    with a ok show ?thesis
      by (simp add: constructs_def buffer_copy_def mem_copy_def buffer_ok_def contents_def)
  next
    case (Some sa)
    with ok obtain src where src: "h sa = Some src" "length src = unat (b_size c)"
      by (auto simp: buffer_ok_def)
    with a Some mem_copy_fresh [OF a(2) src(1), of 0 "unat (b_size c)"] show ?thesis
      by (simp add: constructs_def buffer_copy_def data_ptr_def contents_def)
  qed
qed

lemma slice_constructs:
  assumes r: "ready al h" and b: "buffer_ok h c" and bound: "unat off + unat n \<le> unat (b_size c)"
  shows "constructs h (take (unat n) (drop (unat off) (contents h c))) n (buffer_slice al c off n h)"
proof -
  have "unat (b_size c) < 2 ^ LENGTH(64)" by (rule unsigned_less)
  then have "unat (off + n) = unat off + unat n"
    using bound by (intro size_add_nat) simp
  then have ok: "\<not> off + n > b_size c" using bound by (simp add: word_less_nat_alt)
  show ?thesis
  proof (cases "b_data c")
    case None
    with b bound have "unat off = 0" "unat n = 0" by (simp_all add: buffer_ok_def)
    then have "off = 0" "n = 0" by (simp_all add: unat_eq_zero)
    with None ok from_null_constructs [OF r, of 0] show ?thesis
      by (simp add: buffer_slice_def contents_def)
  next
    case (Some sa)
    with b obtain src where src: "h sa = Some src" "length src = unat (b_size c)"
      by (auto simp: buffer_ok_def)
    with Some ok from_constructs [OF r src(1)] bound show ?thesis
      by (simp add: buffer_slice_def contents_def)
  qed
qed

lemma abs_store_add:
  assumes "owner_inv env \<lparr>st_vars = vs, st_heap = h\<rparr>" and "h a = None"
  shows "abs_store \<lparr>st_vars = vs(x \<mapsto> \<lparr>b_data = Some a, b_size = n\<rparr>), st_heap = h(a \<mapsto> blk)\<rparr> =
    (abs_store \<lparr>st_vars = vs, st_heap = h\<rparr>)(x \<mapsto> blk)"
proof
  fix y
  have "b_data b \<noteq> Some a" if "vs y = Some b" for b
    using owner_invD(2) [OF assms(1) that] assms(2) by (auto simp: buffer_ok_def)
  then show "abs_store \<lparr>st_vars = vs(x \<mapsto> \<lparr>b_data = Some a, b_size = n\<rparr>), st_heap = h(a \<mapsto> blk)\<rparr> y =
      ((abs_store \<lparr>st_vars = vs, st_heap = h\<rparr>)(x \<mapsto> blk)) y"
    by (cases "vs y") (auto simp: abs_store_def contents_def split: option.split)
qed

lemma abs_store_drop:
  assumes "\<And>y c a. y \<noteq> x \<Longrightarrow> vs y = Some c \<Longrightarrow> b_data c = Some a \<Longrightarrow> h' a = h a"
  shows "abs_store \<lparr>st_vars = vs(x := None), st_heap = h'\<rparr> =
    (abs_store \<lparr>st_vars = vs, st_heap = h\<rparr>)(x := None)"
proof
  fix y
  show "abs_store \<lparr>st_vars = vs(x := None), st_heap = h'\<rparr> y =
      ((abs_store \<lparr>st_vars = vs, st_heap = h\<rparr>)(x := None)) y"
    using assms by (cases "vs y") (auto simp: abs_store_def contents_def split: option.split)
qed

text \<open>Constructing a variable, in the store and in the specification.\<close>

lemma bind_var_constructs:
  assumes inv: "owner_inv env \<lparr>st_vars = vs, st_heap = h\<rparr>" and x: "vs x = None"
    and c: "constructs h blk n r"
  shows "\<exists>st'. bind_var x \<lparr>st_vars = vs, st_heap = h0\<rparr> r = Inr st' \<and> owner_inv env st' \<and>
    abs_store st' = (abs_store \<lparr>st_vars = vs, st_heap = h\<rparr>)(x \<mapsto> blk)"
proof -
  from c obtain a where a: "h a = None" "length blk = unat n"
    and r: "r = Inr (\<lparr>b_data = Some a, b_size = n\<rparr>, h(a \<mapsto> blk))"
    by (auto simp: constructs_def)
  show ?thesis
    using owner_inv_add [OF inv x a] abs_store_add [OF inv a(1), of x n blk]
    by (simp add: r bind_var_def set_var_def)
qed

lemma buffer_assign_other: "buffer_assign al False this other h = obind (free (b_data this) h) (buffer_copy al other)"
  by (simp add: buffer_assign_def buffer_copy_def [abs_def])

lemma buffer_eta: "\<lparr>b_data = b_data b, b_size = b_size b\<rparr> = b"
  by (cases b) simp

lemma buffer_move_eq: "buffer_move c = (c, new_buffer)"
  by (cases c) (simp add: buffer_move_def new_buffer_def)

lemma buffer_move_assign_other:
  "buffer_move_assign False this other h = obind (free (b_data this) h) (\<lambda>h'. Inr ((other, new_buffer), h'))"
  by (cases this; cases other) (simp add: buffer_move_assign_def new_buffer_def)

lemma abs_store_move:
  assumes "vs y = Some c"
  shows "abs_store \<lparr>st_vars = vs(y \<mapsto> new_buffer, x \<mapsto> c), st_heap = h\<rparr> =
    (abs_store \<lparr>st_vars = vs, st_heap = h\<rparr>)(y \<mapsto> [], x := abs_store \<lparr>st_vars = vs, st_heap = h\<rparr> y)"
  using assms by (auto simp: abs_store_def contents_def new_buffer_def fun_eq_iff)

lemma exec_assign:
  assumes al: "alloc_fresh al" "alloc_succeeds al" and inv: "owner_inv env \<lparr>st_vars = vs, st_heap = h\<rparr>"
    and x: "vs x = Some b" and y: "vs y = Some c" and ne: "x \<noteq> y"
  shows "\<exists>st'. exec al (Assign x y) \<lparr>st_vars = vs, st_heap = h\<rparr> = Inr st' \<and> owner_inv env st' \<and>
    abs_store st' = spec env (Assign x y) (abs_store \<lparr>st_vars = vs, st_heap = h\<rparr>)"
proof -
  obtain h' where h': "free (b_data b) h = Inr h'"
      "owner_inv env \<lparr>st_vars = vs(x := None), st_heap = h'\<rparr>"
      "\<And>y c a. y \<noteq> x \<Longrightarrow> vs y = Some c \<Longrightarrow> b_data c = Some a \<Longrightarrow> h' a = h a"
    using owner_inv_drop [OF inv x] by blast
  have y': "(vs(x := None)) y = Some c" using y ne by simp
  have "ready al h'" using al owner_invD(1) [OF h'(2)] by (simp add: ready_def)
  from copy_constructs [OF this owner_invD(2) [OF h'(2) y']] obtain st' where st':
    "bind_var x \<lparr>st_vars = vs(x := None), st_heap = h\<rparr> (buffer_copy al c h') = Inr st'" "owner_inv env st'"
    "abs_store st' = (abs_store \<lparr>st_vars = vs(x := None), st_heap = h'\<rparr>)(x \<mapsto> contents h' c)"
    using bind_var_constructs [OF h'(2), of x] by (metis fun_upd_same)
  have "contents h' c = contents h c"
    using h'(3) [OF _ y] ne by (auto simp: contents_def split: option.split)
  with st'(3) abs_store_drop [OF h'(3)] y
  have "abs_store st' = spec env (Assign x y) (abs_store \<lparr>st_vars = vs, st_heap = h\<rparr>)"
    by (simp add: abs_store_def [of _ y])
  with st'(1,2) h'(1) show ?thesis
    by (simp add: live_def x y ne buffer_assign_other bind_var_def set_var_def)
qed

lemma exec_move_assign:
  assumes inv: "owner_inv env \<lparr>st_vars = vs, st_heap = h\<rparr>"
    and x: "vs x = Some b" and y: "vs y = Some c" and ne: "x \<noteq> y"
  shows "\<exists>st'. exec al (Move_Assign x y) \<lparr>st_vars = vs, st_heap = h\<rparr> = Inr st' \<and> owner_inv env st' \<and>
    abs_store st' = spec env (Move_Assign x y) (abs_store \<lparr>st_vars = vs, st_heap = h\<rparr>)"
proof -
  obtain h' where h': "free (b_data b) h = Inr h'"
      "owner_inv env \<lparr>st_vars = vs(x := None), st_heap = h'\<rparr>"
      "\<And>y c a. y \<noteq> x \<Longrightarrow> vs y = Some c \<Longrightarrow> b_data c = Some a \<Longrightarrow> h' a = h a"
    using owner_inv_drop [OF inv x] by blast
  have y': "(vs(x := None)) y = Some c" and x': "(vs(x := None)) x = None" using y ne by simp_all
  have upd: "(vs(x := None))(y \<mapsto> new_buffer, x \<mapsto> c) = vs(y \<mapsto> new_buffer, x \<mapsto> c)"
    using ne by auto
  have "abs_store \<lparr>st_vars = vs(y \<mapsto> new_buffer, x \<mapsto> c), st_heap = h'\<rparr> =
      spec env (Move_Assign x y) (abs_store \<lparr>st_vars = vs, st_heap = h\<rparr>)"
    using abs_store_move [where vs = "vs(x := None)" and y = y and c = c and x = x and h = h', OF y'] abs_store_drop [OF h'(3)] ne unfolding upd
    by (auto simp: fun_eq_iff)
  with owner_inv_move [OF h'(2) x' y'] h'(1) show ?thesis
    unfolding upd by (simp add: live_def x y ne buffer_move_assign_other set_var_def)
qed

lemma exec_default:
  assumes inv: "owner_inv env \<lparr>st_vars = vs, st_heap = h\<rparr>" and x: "vs x = None"
  shows "\<exists>st'. exec al (Default x) \<lparr>st_vars = vs, st_heap = h\<rparr> = Inr st' \<and> owner_inv env st' \<and>
    abs_store st' = spec env (Default x) (abs_store \<lparr>st_vars = vs, st_heap = h\<rparr>)"
proof -
  have "abs_store \<lparr>st_vars = vs(x \<mapsto> new_buffer), st_heap = h\<rparr> = (abs_store \<lparr>st_vars = vs, st_heap = h\<rparr>)(x \<mapsto> [])"
    by (auto simp: abs_store_def contents_def new_buffer_def fun_eq_iff)
  with owner_inv_null [OF inv x] show ?thesis by (simp add: set_var_def)
qed

lemma exec_from:
  assumes r: "ready al h" and inv: "owner_inv env \<lparr>st_vars = vs, st_heap = h\<rparr>"
    and w: "well_scoped env (abs_store \<lparr>st_vars = vs, st_heap = h\<rparr>) (From x p n)"
  shows "\<exists>st'. exec al (From x p n) \<lparr>st_vars = vs, st_heap = h\<rparr> = Inr st' \<and> owner_inv env st' \<and>
    abs_store st' = spec env (From x p n) (abs_store \<lparr>st_vars = vs, st_heap = h\<rparr>)"
proof (cases p)
  case None
  with w bind_var_constructs [OF inv _ from_null_constructs [OF r]] show ?thesis by simp
next
  case (Some q)
  then obtain a off where q: "p = Some (a, off)" by (cases q) auto
  with w obtain blk where blk: "env a = Some blk" "unat off + unat n \<le> length blk" and x: "vs x = None"
    by (auto split: option.splits)
  then have "a \<in> dom env" by auto
  then have "h a = env a" using owner_invD(6) [OF inv] by simp
  then have "h a = Some blk" using blk(1) by simp
  from bind_var_constructs [OF inv x from_constructs [OF r this blk(2)]] q blk(1) show ?thesis by simp
qed

lemma exec_slice:
  assumes r: "ready al h" and inv: "owner_inv env \<lparr>st_vars = vs, st_heap = h\<rparr>"
    and w: "well_scoped env (abs_store \<lparr>st_vars = vs, st_heap = h\<rparr>) (Slice x y off n)"
  shows "\<exists>st'. exec al (Slice x y off n) \<lparr>st_vars = vs, st_heap = h\<rparr> = Inr st' \<and> owner_inv env st' \<and>
    abs_store st' = spec env (Slice x y off n) (abs_store \<lparr>st_vars = vs, st_heap = h\<rparr>)"
proof -
  from w obtain c where c: "vs x = None" "vs y = Some c" "unat off + unat n \<le> length (contents h c)"
    by (auto simp: abs_store_def split: option.splits)
  note ok = owner_invD(2) [OF inv c(2)]
  have "unat off + unat n \<le> unat (b_size c)" using c(3) length_contents [OF ok] by simp
  from bind_var_constructs [OF inv c(1) slice_constructs [OF r ok this]] c show ?thesis
    by (simp add: live_def abs_store_def [of _ y])
qed

lemma exec_move:
  assumes inv: "owner_inv env \<lparr>st_vars = vs, st_heap = h\<rparr>" and x: "vs x = None" and y: "vs y = Some c"
  shows "\<exists>st'. exec al (Move x y) \<lparr>st_vars = vs, st_heap = h\<rparr> = Inr st' \<and> owner_inv env st' \<and>
    abs_store st' = spec env (Move x y) (abs_store \<lparr>st_vars = vs, st_heap = h\<rparr>)"
  using owner_inv_move [OF inv x y] abs_store_move [where vs = vs and y = y and c = c, OF y] y
  by (simp add: live_def buffer_move_eq set_var_def)

lemma exec_destroy:
  assumes inv: "owner_inv env \<lparr>st_vars = vs, st_heap = h\<rparr>" and x: "vs x = Some b"
  shows "\<exists>st'. exec al (Destroy x) \<lparr>st_vars = vs, st_heap = h\<rparr> = Inr st' \<and> owner_inv env st' \<and>
    abs_store st' = spec env (Destroy x) (abs_store \<lparr>st_vars = vs, st_heap = h\<rparr>)"
proof -
  obtain h' where h': "free (b_data b) h = Inr h'"
      "owner_inv env \<lparr>st_vars = vs(x := None), st_heap = h'\<rparr>"
      "\<And>y c a. y \<noteq> x \<Longrightarrow> vs y = Some c \<Longrightarrow> b_data c = Some a \<Longrightarrow> h' a = h a"
    using owner_inv_drop [OF inv x] by blast
  with abs_store_drop [OF h'(3)] x show ?thesis by (simp add: live_def buffer_destroy_def)
qed

text \<open>One operation: it runs, keeps the invariant and does what the specification says.\<close>

lemma exec_refines:
  assumes al: "alloc_fresh al" "alloc_succeeds al" and inv: "owner_inv env st"
    and w: "well_scoped env (abs_store st) op"
  shows "\<exists>st'. exec al op st = Inr st' \<and> owner_inv env st' \<and> abs_store st' = spec env op (abs_store st)"
proof -
  obtain vs h where st: "st = \<lparr>st_vars = vs, st_heap = h\<rparr>" by (cases st)
  note inv = inv [unfolded st] and w = w [unfolded st]
  have r: "ready al h" using al owner_invD(1) [OF inv] by (simp add: ready_def)
  note bind = bind_var_constructs [OF inv]
  let ?refined = "\<exists>st'. exec al op \<lparr>st_vars = vs, st_heap = h\<rparr> = Inr st' \<and> owner_inv env st' \<and>
    abs_store st' = spec env op (abs_store \<lparr>st_vars = vs, st_heap = h\<rparr>)"
  have ?refined
  proof (cases op)
    case (Default x)
    then show ?refined using exec_default [OF inv, of x] w by simp
  next
    case (From x p n)
    then show ?refined using exec_from [OF r inv] w by blast
  next
    case (Zero x n)
    then show ?refined using bind [OF _ zero_constructs [OF r]] w by simp
  next
    case (Copy x y)
    with w obtain c where c: "vs x = None" "vs y = Some c" by auto
    from bind [OF c(1) copy_constructs [OF r owner_invD(2) [OF inv c(2)]]] Copy c show ?refined
      by (simp add: live_def abs_store_def [of _ y])
  next
    case (Assign x y)
    with w obtain b c where bc: "vs x = Some b" "vs y = Some c" by auto
    then have ?refined if "x = y"
      using that Assign inv by (simp add: live_def buffer_assign_def bind_var_def set_var_def fun_upd_idem)
    then show ?refined using exec_assign [OF al inv bc] Assign by blast
  next
    case (Move x y)
    with w obtain c where "vs x = None" "vs y = Some c" by auto
    from exec_move [OF inv this] Move show ?refined by simp
  next
    case (Move_Assign x y)
    with w obtain b c where bc: "vs x = Some b" "vs y = Some c" by auto
    then have ?refined if "x = y"
      using that Move_Assign inv by (simp add: live_def buffer_move_assign_def set_var_def fun_upd_idem)
    then show ?refined using exec_move_assign [OF inv bc] Move_Assign by blast
  next
    case (Slice x y off n)
    then show ?refined using exec_slice [OF r inv] w by blast
  next
    case (Destroy x)
    with w obtain b where "vs x = Some b" by auto
    from exec_destroy [OF inv this] Destroy show ?refined by simp
  qed
  then show ?thesis by (simp only: st)
qed

section \<open>Programs\<close>

definition run_ops :: "allocator \<Rightarrow> buf_op list \<Rightarrow> store \<Rightarrow> store outcome" where
  "run_ops al ops st = ofold (exec al) ops st"

lemma run_refines:
  assumes al: "alloc_fresh al" "alloc_succeeds al" and "owner_inv env st" "scoped_run env ops (abs_store st)"
  shows "\<exists>st'. run_ops al ops st = Inr st' \<and> owner_inv env st' \<and>
    abs_store st' = fold (spec env) ops (abs_store st)"
  using assms(3,4)
proof (induction ops arbitrary: st)
  case (Cons op ops)
  obtain st1 where st1: "exec al op st = Inr st1" "owner_inv env st1"
      "abs_store st1 = spec env op (abs_store st)"
    using exec_refines [OF al Cons.prems(1)] Cons.prems(2) by auto
  with Cons.IH [OF st1(2)] Cons.prems(2) show ?case by (auto simp: run_ops_def)
qed (simp add: run_ops_def)

text \<open>C19: Buffers behave as values: while memory lasts, every well-scoped program of constructions,
  copies, assignments (self-assignment included), moves, slices and destructions runs without a
  fault and computes what the specification on byte strings computes; in particular an operation
  on one buffer never changes the bytes of another.\<close>

theorem buffers_are_values:
  assumes "alloc_fresh al" "alloc_succeeds al" and "owner_inv env st" "scoped_run env ops (abs_store st)"
  shows "\<exists>st'. run_ops al ops st = Inr st' \<and> abs_store st' = fold (spec env) ops (abs_store st)"
  using run_refines [OF assms] by blast

definition first_fit :: allocator where
  "first_fit h n = (if finite (dom h) then Some (Suc (Max (insert 0 (dom h)))) else None)"

lemma first_fit_ok: "alloc_fresh first_fit" "alloc_succeeds first_fit"
proof -
  have "h (Suc (Max (insert 0 (dom h)))) = None" if "finite (dom h)" for h :: heap
  proof (rule ccontr)
    assume "h (Suc (Max (insert 0 (dom h)))) \<noteq> None"
    then have "Suc (Max (insert 0 (dom h))) \<in> insert 0 (dom h)" by auto
    then have "Suc (Max (insert 0 (dom h))) \<le> Max (insert 0 (dom h))" using that by (intro Max_ge) auto
    then show False by simp
  qed
  then show "alloc_fresh first_fit" by (auto simp: alloc_fresh_def first_fit_def)
  show "alloc_succeeds first_fit" by (simp add: alloc_succeeds_def first_fit_def)
qed

text \<open>A heap with one block of the environment.\<close>

definition packet_block :: heap where
  "packet_block = [0 \<mapsto> [Some 7, Some 8, Some 9]]"

definition start_store :: store where
  "start_store = \<lparr>st_vars = \<lambda>_. None, st_heap = packet_block\<rparr>"

lemma start_store_inv: "owner_inv packet_block start_store"
  by (simp add: owner_inv_def start_store_def packet_block_def owned_def)

definition demo_ops :: "buf_op list" where
  "demo_ops = [From ''a'' (Some (0, 0)) 3, Copy ''b'' ''a'', Slice ''c'' ''b'' 1 2, Assign ''a'' ''a'',
     Move_Assign ''b'' ''c'', Destroy ''a'']"

lemma demo_start: "abs_store start_store = (\<lambda>_. None)"
  by (simp add: abs_store_def start_store_def fun_eq_iff)

lemma demo_scoped: "scoped_run packet_block demo_ops (abs_store start_store)"
  by (simp add: demo_start demo_ops_def packet_block_def)

theorem buffers_are_values_witness:
  "\<exists>st'. run_ops first_fit demo_ops start_store = Inr st' \<and>
    abs_store st' = (\<lambda>_. None)(''b'' \<mapsto> [Some 8, Some 9], ''c'' \<mapsto> [])"
proof -
  have "fold (spec packet_block) demo_ops (\<lambda>_. None) = (\<lambda>_. None)(''b'' \<mapsto> [Some 8, Some 9], ''c'' \<mapsto> [])"
    by (simp add: demo_ops_def packet_block_def fun_eq_iff)
  with buffers_are_values [OF first_fit_ok start_store_inv demo_scoped] show ?thesis by (simp add: demo_start)
qed

text \<open>C20: No leak, no double free, no sharing: after any well-scoped program the allocated blocks are
  those of the environment, unchanged, and one block for each live buffer that has data, owned by it
  alone; once every buffer is destroyed the heap is the environment's again.\<close>

theorem buffers_own_their_blocks:
  assumes "alloc_fresh al" "alloc_succeeds al" and "owner_inv env st" "scoped_run env ops (abs_store st)"
  shows "\<exists>st'. run_ops al ops st = Inr st' \<and> dom (st_heap st') = dom env \<union> owned (st_vars st') \<and> (\<forall>a \<in> dom env. st_heap st' a = env a) \<and>
    (\<forall>x y b c a. st_vars st' x = Some b \<and> st_vars st' y = Some c \<and> b_data b = Some a \<and>
      b_data c = Some a \<longrightarrow> x = y) \<and>
    ((\<forall>x. st_vars st' x = None) \<longrightarrow> st_heap st' = env)"
proof -
  obtain st' where run: "run_ops al ops st = Inr st'" and inv: "owner_inv env st'"
    using run_refines [OF assms] by blast
  then have d: "dom (st_heap st') = dom env \<union> owned (st_vars st')" "\<forall>a \<in> dom env. st_heap st' a = env a"
    by (auto simp: owner_inv_def)
  have "st_heap st' = env" if "\<forall>x. st_vars st' x = None"
  proof
    fix a
    have "dom (st_heap st') = dom env" using d(1) that by (simp add: owned_def)
    then show "st_heap st' a = env a" using d(2) by (cases "a \<in> dom env") (auto simp: domIff)
  qed
  moreover have "x = y" if "st_vars st' x = Some b" "st_vars st' y = Some c" "b_data b = Some a"
    "b_data c = Some a" for x y b c a
    using inv that unfolding owner_inv_def by blast
  ultimately show ?thesis using d run by blast
qed

theorem buffers_own_their_blocks_witness:
  "\<exists>st'. run_ops first_fit (demo_ops @ [Destroy ''b'', Destroy ''c'']) start_store = Inr st' \<and>
    st_heap st' = packet_block"
proof -
  let ?ops = "demo_ops @ [Destroy ''b'', Destroy ''c'']"
  have scoped: "scoped_run packet_block ?ops (abs_store start_store)"
    by (simp add: demo_start demo_ops_def packet_block_def)
  have "fold (spec packet_block) ?ops (\<lambda>_. None) = (\<lambda>_. None)"
    by (simp add: demo_ops_def packet_block_def fun_eq_iff)
  with run_refines [OF first_fit_ok start_store_inv scoped] obtain st' where st':
    "run_ops first_fit ?ops start_store = Inr st'" "abs_store st' = (\<lambda>_. None)"
    by (auto simp: demo_start)
  then have "\<forall>x. st_vars st' x = None" by (metis abs_store_None)
  with buffers_own_their_blocks [OF first_fit_ok start_store_inv scoped] st'(1) show ?thesis by auto
qed

section \<open>Bounds checks\<close>

lemma check_no_wrap:
  fixes off n lim :: size_t
  assumes "unat off + unat n < 2 ^ 64"
  shows "off + n > lim \<longleftrightarrow> unat off + unat n > unat lim"
  using size_add_nat [OF assms] by (simp add: word_less_nat_alt)

lemma unat_size_minus_one: "unat (- 1 :: size_t) = 2 ^ 64 - 1"
  using size_sub_wrap [of 0 1] by simp

lemma size_bound: "unat (w :: size_t) < 2 ^ 64"
  using unsigned_less [of w] by simp

text \<open>C21: \<open>Read\<close>, exactly: inside the buffer it returns the little-endian value of the bytes; past the
  end it throws, unless \<open>offset + sizeof(T)\<close> wraps around to a value the test accepts: then it
  reads outside the block.\<close>

theorem read_exactly:
  assumes "buffer_ok h b" "b_data b = Some a" "None \<notin> set (contents h b)" and "n \<le> 8"
  shows "buffer_read n b off h =
    (if unat off + n \<le> unat (b_size b) then Inr (le_val (map the (take n (drop (unat off) (contents h b)))))
     else if unat off + n < 2 ^ 64 \<or> off + of_nat n > b_size b
     then Inl (Throw (Out_Of_Range ''Buffer::Read out of range''))
     else Inl Out_Of_Bounds)"
proof -
  obtain blk where blk: "h a = Some blk" "length blk = unat (b_size b)" "contents h b = blk"
    using assms(1,2) by (auto simp: buffer_ok_def contents_def)
  have n: "unat (of_nat n :: size_t) = n" using assms(4) by (intro unat_of_nat_less) simp
  have "None \<notin> set (take n (drop (unat off) blk))"
    using assms(3) blk(3) by (auto dest: in_set_takeD in_set_dropD)
  then have bytes: "read_bytes b off n h =
      (if unat off + n \<le> unat (b_size b) then Inr (map the (take n (drop (unat off) blk)))
       else Inl Out_Of_Bounds)"
    using assms(2) blk by (simp add: read_bytes_def Let_def)
  have check: "off + of_nat n > b_size b \<longleftrightarrow> unat off + n > unat (b_size b)" if "unat off + n < 2 ^ 64"
    using check_no_wrap [of off "of_nat n" "b_size b"] that by (simp add: n)
  show ?thesis
  proof (cases "unat off + n < 2 ^ 64")
    case True
    with check bytes blk(3) show ?thesis by (auto simp: buffer_read_def)
  next
    case False
    then have "\<not> unat off + n \<le> unat (b_size b)" using size_bound [of "b_size b"] by simp
    with False bytes show ?thesis by (simp add: buffer_read_def)
  qed
qed

definition small_heap :: heap where
  "small_heap = [0 \<mapsto> [Some 1, Some 2, Some 3]]"

theorem read_exactly_witness:
  "buffer_read 2 \<lparr>b_data = Some 0, b_size = 3\<rparr> 1 small_heap = Inr 770 \<and>
   buffer_read 2 \<lparr>b_data = Some 0, b_size = 3\<rparr> (- 1) small_heap = Inl Out_Of_Bounds"
proof -
  let ?b = "\<lparr>b_data = Some 0, b_size = 3\<rparr> :: buffer"
  have ok: "buffer_ok small_heap ?b" "b_data ?b = Some 0" "None \<notin> set (contents small_heap ?b)"
    by (simp_all add: buffer_ok_def contents_def small_heap_def)
  have "(2 :: nat) \<le> 8" by simp
  from read_exactly [OF ok this, of 1] read_exactly [OF ok this, of "- 1"] show ?thesis
    by (simp add: contents_def small_heap_def unat_size_minus_one)
qed

text \<open>C22: \<open>Slice\<close>, exactly: inside the buffer it returns a new buffer with a copy of the range; past
  the end it throws, unless \<open>offset + length\<close> wraps around to a value the test accepts: then
  the copy reads outside the block.\<close>

theorem slice_exactly:
  assumes "ready al h" "buffer_ok h b" "b_data b = Some a"
  shows "if unat off + unat n \<le> unat (b_size b)
    then \<exists>a'. h a' = None \<and> buffer_slice al b off n h = Inr (\<lparr>b_data = Some a', b_size = n\<rparr>,
      h(a' \<mapsto> take (unat n) (drop (unat off) (contents h b))))
    else if unat off + unat n < 2 ^ 64 \<or> off + n > b_size b
    then buffer_slice al b off n h = Inl (Throw (Out_Of_Range ''Buffer::Slice out of range''))
    else buffer_slice al b off n h = Inl Out_Of_Bounds"
proof -
  obtain blk where blk: "h a = Some blk" "length blk = unat (b_size b)"
    using assms(2,3) by (auto simp: buffer_ok_def)
  consider (inside) "unat off + unat n \<le> unat (b_size b)"
    | (past) "unat off + unat n > unat (b_size b)" "unat off + unat n < 2 ^ 64"
    | (wrap) "unat off + unat n \<ge> 2 ^ 64" by linarith
  then show ?thesis
  proof cases
    case inside
    with slice_constructs [OF assms(1,2) inside] show ?thesis by (auto simp: constructs_def)
  next
    case past
    then have "off + n > b_size b" using check_no_wrap by blast
    with past show ?thesis by (simp add: buffer_slice_def)
  next
    case wrap
    obtain a' where a': "malloc al n h = (Some a', h(a' \<mapsto> replicate (unat n) None))" "h a' = None"
      using malloc_ok [OF assms(1)] by blast
    have "a' \<noteq> a" using a'(2) blk(1) by auto
    moreover have "unat n \<noteq> 0" "\<not> unat off + unat n \<le> length blk"
      using wrap size_bound [of off] size_bound [of "b_size b"] blk(2) by auto
    ultimately have "buffer_from al (Some (a, off)) n h = Inl Out_Of_Bounds"
      using a' blk(1) by (simp add: buffer_from_def mem_copy_def)
    with assms(3) wrap size_bound [of "b_size b"] show ?thesis by (auto simp: buffer_slice_def)
  qed
qed

theorem slice_exactly_witness:
  "buffer_slice first_fit \<lparr>b_data = Some 0, b_size = 3\<rparr> (- 1) 2 small_heap = Inl Out_Of_Bounds"
proof -
  have "ready first_fit small_heap" "buffer_ok small_heap \<lparr>b_data = Some 0, b_size = 3\<rparr>"
    using first_fit_ok by (simp_all add: ready_def small_heap_def buffer_ok_def)
  from slice_exactly [OF this, of 0 "- 1" 2] show ?thesis by (simp add: unat_size_minus_one)
qed

text \<open>Out of memory goes unnoticed: when the allocation fails, a constructor still returns a buffer
  of the requested size, and every access that passes the bounds check follows a null pointer.\<close>

lemma failed_allocation_is_followed:
  assumes "al h (unat n) = None" and "i < n"
  shows "\<exists>b. buffer_zero al n h = Inr (b, h) \<and> b_size b = n \<and> buffer_at b i h = Inl Null_Deref"
  using assms
  by (auto simp: buffer_zero_def malloc_def buffer_at_def read_bytes_def)

end
