(* ===== verification/Packet_Heap.thy ===== *)
theory Packet_Heap
  imports Buffer_Heap Packets
begin

text \<open>
  \<^verbatim>\<open>Packet\<close> (\<^verbatim>\<open>src/pcap/Packet.cpp\<close>) on the heap of \<open>Buffer_Heap\<close>: the payload is a
  \<open>std::unique_ptr<Buffer>\<close>, so a packet holds the name of a buffer object or null. The value model of
  \<open>Packets\<close>, which the rest of the development works with, is the specification: the theory shows
  that objects with pointers behave as those values.
\<close>

section \<open>Objects\<close>

text \<open>\<open>o_head\<close> holds the members other than \<open>payload_\<close>, as a packet without payload.\<close>

record packet_object =
  o_head :: packet
  o_payload :: "string option"

record packet_store =
  ps_packets :: "string \<Rightarrow> packet_object option"
  ps_buffers :: store

text \<open>Where \<open>operator new\<close> puts the next buffer object: at no living one.\<close>

type_synonym namer = "store \<Rightarrow> string"

definition namer_fresh :: "namer \<Rightarrow> bool" where
  "namer_fresh nm \<longleftrightarrow> (\<forall>st. finite (dom (st_vars st)) \<longrightarrow> st_vars st (nm st) = None)"

text \<open>\<open>std::make_unique<Buffer>(data, n)\<close>, \<open>std::make_unique<Buffer>(0)\<close>, and what a
  \<open>unique_ptr\<close> does with its old object when it is assigned to, reset or destroyed.\<close>

definition make_buffer ::
    "allocator \<Rightarrow> namer \<Rightarrow> pointer \<Rightarrow> size_t \<Rightarrow> store \<Rightarrow> (string \<times> store) outcome" where
  "make_buffer al nm data n st = obind (exec al (From (nm st) data n) st) (\<lambda>st'. Inr (nm st, st'))"

definition make_zeroed :: "allocator \<Rightarrow> namer \<Rightarrow> size_t \<Rightarrow> store \<Rightarrow> (string \<times> store) outcome" where
  "make_zeroed al nm n st = obind (exec al (Zero (nm st) n) st) (\<lambda>st'. Inr (nm st, st'))"

definition release :: "allocator \<Rightarrow> string option \<Rightarrow> store \<Rightarrow> store outcome" where
  "release al old st = (case old of None \<Rightarrow> Inr st | Some n \<Rightarrow> exec al (Destroy n) st)"

section \<open>Operations\<close>

definition object_new :: packet_object where
  "object_new = \<lparr>o_head = new_packet, o_payload = None\<rparr>"

text \<open>\<open>make_unique<Buffer>(other.payload_->Data(), other.payload_->Size())\<close>, if there is one.\<close>

definition clone_payload ::
    "allocator \<Rightarrow> namer \<Rightarrow> packet_object \<Rightarrow> store \<Rightarrow> (string option \<times> store) outcome" where
  "clone_payload al nm other st =
     (case o_payload other of
        None \<Rightarrow> Inr (None, st)
      | Some m \<Rightarrow> obind (live st m) (\<lambda>c.
          obind (make_buffer al nm (data_ptr c) (buffer_size c) st) (\<lambda>(n, st'). Inr (Some n, st'))))"

definition object_copy ::
    "allocator \<Rightarrow> namer \<Rightarrow> packet_object \<Rightarrow> store \<Rightarrow> (packet_object \<times> store) outcome" where
  "object_copy al nm other st =
     obind (clone_payload al nm other st) (\<lambda>(q, st').
       Inr (\<lparr>o_head = copy_packet (o_head other), o_payload = q\<rparr>, st'))"

text \<open>The new buffer is made before the old one is released.\<close>

definition object_assign ::
    "allocator \<Rightarrow> namer \<Rightarrow> bool \<Rightarrow> packet_object \<Rightarrow> packet_object \<Rightarrow> store \<Rightarrow>
     (packet_object \<times> store) outcome" where
  "object_assign al nm same this other st =
     (if same then Inr (this, st)
      else obind (clone_payload al nm other st) (\<lambda>(q, st1).
             obind (release al (o_payload this) st1) (\<lambda>st2.
               Inr (\<lparr>o_head = assign_packet False (o_head this) (o_head other), o_payload = q\<rparr>, st2))))"

text \<open>The defaulted moves, member by member: \<open>gone\<close> is what a \<open>std::string\<close> holds after it was moved
  from, which C++ leaves open. Both return the new object and what is left of the source.\<close>

definition hollow :: "(string \<Rightarrow> string) \<Rightarrow> packet \<Rightarrow> packet" where
  "hollow gone p = p\<lparr>p_src_ip := gone (p_src_ip p), p_dst_ip := gone (p_dst_ip p), p_payload := None\<rparr>"

definition object_move :: "(string \<Rightarrow> string) \<Rightarrow> packet_object \<Rightarrow> packet_object \<times> packet_object" where
  "object_move gone other = (other, \<lparr>o_head = hollow gone (o_head other), o_payload = None\<rparr>)"

text \<open>Moved into itself, a \<open>unique_ptr\<close> keeps its object (\<open>reset(release())\<close>), and the strings are left open.\<close>

definition self_moved :: "(string \<Rightarrow> string) \<Rightarrow> packet \<Rightarrow> packet" where
  "self_moved gone p = p\<lparr>p_src_ip := gone (p_src_ip p), p_dst_ip := gone (p_dst_ip p)\<rparr>"

definition object_move_assign ::
    "allocator \<Rightarrow> (string \<Rightarrow> string) \<Rightarrow> bool \<Rightarrow> packet_object \<Rightarrow> packet_object \<Rightarrow> store \<Rightarrow>
     ((packet_object \<times> packet_object) \<times> store) outcome" where
  "object_move_assign al gone same this other st =
     (if same
      then let p = this\<lparr>o_head := self_moved gone (o_head this)\<rparr> in Inr ((p, p), st)
      else obind (release al (o_payload this) st) (\<lambda>st'.
             Inr ((other, \<lparr>o_head = hollow gone (o_head other), o_payload = None\<rparr>), st')))"

definition object_set_payload ::
    "allocator \<Rightarrow> namer \<Rightarrow> pointer \<Rightarrow> size_t \<Rightarrow> packet_object \<Rightarrow> store \<Rightarrow>
     (packet_object \<times> store) outcome" where
  "object_set_payload al nm data n this st =
     obind (if data \<noteq> None \<and> n > 0 then make_buffer al nm data n st else make_zeroed al nm 0 st) (\<lambda>(q, st1).
       obind (release al (o_payload this) st1) (\<lambda>st2. Inr (this\<lparr>o_payload := Some q\<rparr>, st2)))"

section \<open>Programs over packets\<close>

text \<open>\<open>P_Set_Payload x d n\<close> copies memory of the environment; \<open>P_Set_Payload_Of x y off n\<close> is
  \<^verbatim>\<open>x.SetPayload(y.Payload().Data() + off, n)\<close>, where \<open>y\<close> may be \<open>x\<close> itself.\<close>

datatype packet_op =
    P_New string
  | P_Copy string string
  | P_Assign string string
  | P_Move string string
  | P_Move_Assign string string
  | P_Set_Payload string pointer size_t
  | P_Set_Payload_Of string string size_t size_t
  | P_Set string "packet \<Rightarrow> packet"
  | P_Destroy string

definition live_packet :: "packet_store \<Rightarrow> string \<Rightarrow> packet_object outcome" where
  "live_packet ps x = (case ps_packets ps x of None \<Rightarrow> Inl Dead_Object | Some o' \<Rightarrow> Inr o')"

definition put_packet :: "string \<Rightarrow> packet_store \<Rightarrow> (packet_object \<times> store) outcome \<Rightarrow> packet_store outcome" where
  "put_packet x ps r = obind r (\<lambda>(p, st). Inr \<lparr>ps_packets = (ps_packets ps)(x \<mapsto> p), ps_buffers = st\<rparr>)"

primrec exec_packet ::
    "allocator \<Rightarrow> namer \<Rightarrow> (string \<Rightarrow> string) \<Rightarrow> packet_op \<Rightarrow> packet_store \<Rightarrow> packet_store outcome" where
  "exec_packet al nm gone (P_New x) ps = put_packet x ps (Inr (object_new, ps_buffers ps))"
| "exec_packet al nm gone (P_Copy x y) ps = obind (live_packet ps y) (\<lambda>q.
     put_packet x ps (object_copy al nm q (ps_buffers ps)))"
| "exec_packet al nm gone (P_Assign x y) ps = obind (live_packet ps x) (\<lambda>p. obind (live_packet ps y) (\<lambda>q.
     put_packet x ps (object_assign al nm (x = y) p q (ps_buffers ps))))"
| "exec_packet al nm gone (P_Move x y) ps = obind (live_packet ps y) (\<lambda>q.
     let (p, q') = object_move gone q
     in put_packet x (ps\<lparr>ps_packets := (ps_packets ps)(y \<mapsto> q')\<rparr>) (Inr (p, ps_buffers ps)))"
| "exec_packet al nm gone (P_Move_Assign x y) ps = obind (live_packet ps x) (\<lambda>p. obind (live_packet ps y) (\<lambda>q.
     obind (object_move_assign al gone (x = y) p q (ps_buffers ps)) (\<lambda>((p', q'), st).
       put_packet x (ps\<lparr>ps_packets := (ps_packets ps)(y \<mapsto> q')\<rparr>) (Inr (p', st)))))"
| "exec_packet al nm gone (P_Set_Payload x d n) ps = obind (live_packet ps x) (\<lambda>p.
     put_packet x ps (object_set_payload al nm d n p (ps_buffers ps)))"
| "exec_packet al nm gone (P_Set_Payload_Of x y off n) ps = obind (live_packet ps x) (\<lambda>p. obind (live_packet ps y) (\<lambda>q.
     case o_payload q of
       None \<Rightarrow> Inl Null_Deref
     | Some m \<Rightarrow> obind (live (ps_buffers ps) m) (\<lambda>c.
         put_packet x ps (object_set_payload al nm (map_option (\<lambda>(a, _). (a, off)) (data_ptr c)) n p (ps_buffers ps)))))"
| "exec_packet al nm gone (P_Set x f) ps = obind (live_packet ps x) (\<lambda>p.
     put_packet x ps (Inr (p\<lparr>o_head := f (o_head p)\<rparr>, ps_buffers ps)))"
| "exec_packet al nm gone (P_Destroy x) ps = obind (live_packet ps x) (\<lambda>p.
     obind (release al (o_payload p) (ps_buffers ps)) (\<lambda>st.
       Inr \<lparr>ps_packets = (ps_packets ps)(x := None), ps_buffers = st\<rparr>))"

section \<open>The specification: packets as values\<close>

type_synonym packet_values = "string \<Rightarrow> packet option"

text \<open>The bytes behind a pointer into the environment.\<close>

definition pointed :: "heap \<Rightarrow> pointer \<Rightarrow> byte list option" where
  "pointed env d = (case d of None \<Rightarrow> None | Some (a, off) \<Rightarrow> Some (map the (drop (unat off) (the (env a)))))"

primrec packet_spec :: "heap \<Rightarrow> (string \<Rightarrow> string) \<Rightarrow> packet_op \<Rightarrow> packet_values \<Rightarrow> packet_values outcome" where
  "packet_spec env gone (P_New x) P = Inr (P(x \<mapsto> new_packet))"
| "packet_spec env gone (P_Copy x y) P = Inr (P(x \<mapsto> copy_packet (the (P y))))"
| "packet_spec env gone (P_Assign x y) P = Inr (P(x \<mapsto> assign_packet (x = y) (the (P x)) (the (P y))))"
| "packet_spec env gone (P_Move x y) P = Inr (P(y \<mapsto> hollow gone (the (P y)), x := P y))"
| "packet_spec env gone (P_Move_Assign x y) P =
     Inr (if x = y then P(x \<mapsto> self_moved gone (the (P x))) else P(y \<mapsto> hollow gone (the (P y)), x := P y))"
| "packet_spec env gone (P_Set_Payload x d n) P =
     obind (set_payload (pointed env d) n (the (P x))) (\<lambda>p. Inr (P(x \<mapsto> p)))"
| "packet_spec env gone (P_Set_Payload_Of x y off n) P = obind (payload (the (P y))) (\<lambda>bs.
     obind (set_payload (Some (drop (unat off) bs)) n (the (P x))) (\<lambda>p. Inr (P(x \<mapsto> p))))"
| "packet_spec env gone (P_Set x f) P = Inr (P(x \<mapsto> f (the (P x))))"
| "packet_spec env gone (P_Destroy x) P = Inr (P(x := None))"

text \<open>What the language enforces, and what a caller of \<open>SetPayload\<close> provides: a pointer to at least
  \<open>n\<close> bytes that have values, be it to memory outside or into a packet's payload. Setters do not touch the payload.\<close>

definition plain_setter :: "(packet \<Rightarrow> packet) \<Rightarrow> bool" where
  "plain_setter f \<longleftrightarrow> (\<forall>p b. f (p\<lparr>p_payload := b\<rparr>) = (f p)\<lparr>p_payload := b\<rparr>)"

fun scoped_packet_op :: "heap \<Rightarrow> packet_values \<Rightarrow> packet_op \<Rightarrow> bool" where
  "scoped_packet_op env P (P_New x) \<longleftrightarrow> P x = None"
| "scoped_packet_op env P (P_Copy x y) \<longleftrightarrow> P x = None \<and> P y \<noteq> None"
| "scoped_packet_op env P (P_Assign x y) \<longleftrightarrow> P x \<noteq> None \<and> P y \<noteq> None"
| "scoped_packet_op env P (P_Move x y) \<longleftrightarrow> P x = None \<and> P y \<noteq> None"
| "scoped_packet_op env P (P_Move_Assign x y) \<longleftrightarrow> P x \<noteq> None \<and> P y \<noteq> None"
| "scoped_packet_op env P (P_Set_Payload x None n) \<longleftrightarrow> P x \<noteq> None"
| "scoped_packet_op env P (P_Set_Payload x (Some (a, off)) n) \<longleftrightarrow> P x \<noteq> None \<and>
     (case env a of None \<Rightarrow> False
      | Some blk \<Rightarrow> unat off + unat n \<le> length blk \<and> None \<notin> set (take (unat n) (drop (unat off) blk)))"
| "scoped_packet_op env P (P_Set_Payload_Of x y off n) \<longleftrightarrow> P x \<noteq> None \<and>
     (case P y of None \<Rightarrow> False | Some q \<Rightarrow>
        (case p_payload q of None \<Rightarrow> False | Some bs \<Rightarrow> unat off + unat n \<le> length bs))"
| "scoped_packet_op env P (P_Set x f) \<longleftrightarrow> P x \<noteq> None \<and> plain_setter f"
| "scoped_packet_op env P (P_Destroy x) \<longleftrightarrow> P x \<noteq> None"

section \<open>Ownership\<close>

text \<open>Each payload pointer owns a buffer object whose bytes all have values, no two packets share one,
  and every buffer object belongs to a packet.\<close>

definition linked :: "(string \<Rightarrow> packet_object option) \<Rightarrow> values_store \<Rightarrow> bool" where
  "linked V A \<longleftrightarrow> finite (dom A) \<and>
     (\<forall>x p. V x = Some p \<longrightarrow> p_payload (o_head p) = None \<and>
        (\<forall>n. o_payload p = Some n \<longrightarrow> (\<exists>bs. A n = Some (map Some bs)))) \<and>
     (\<forall>x y p q n. V x = Some p \<longrightarrow> V y = Some q \<longrightarrow> o_payload p = Some n \<longrightarrow> o_payload q = Some n \<longrightarrow> x = y) \<and>
     (\<forall>n. A n \<noteq> None \<longrightarrow> (\<exists>x p. V x = Some p \<and> o_payload p = Some n))"

definition packet_inv :: "heap \<Rightarrow> packet_store \<Rightarrow> bool" where
  "packet_inv env ps \<longleftrightarrow> owner_inv env (ps_buffers ps) \<and> linked (ps_packets ps) (abs_store (ps_buffers ps))"

definition object_value :: "values_store \<Rightarrow> packet_object \<Rightarrow> packet" where
  "object_value A p = (o_head p)\<lparr>p_payload := (case o_payload p of
     None \<Rightarrow> None | Some n \<Rightarrow> map_option (map the) (A n))\<rparr>"

definition values_of :: "(string \<Rightarrow> packet_object option) \<Rightarrow> values_store \<Rightarrow> packet_values" where
  "values_of V A x = map_option (object_value A) (V x)"

definition abs_packets :: "packet_store \<Rightarrow> packet_values" where
  "abs_packets ps = values_of (ps_packets ps) (abs_store (ps_buffers ps))"

text \<open>What is left of the buffers when a pointer lets go of its object.\<close>

definition without :: "string option \<Rightarrow> values_store \<Rightarrow> values_store" where
  "without old A = (case old of None \<Rightarrow> A | Some n \<Rightarrow> A(n := None))"

lemma linkedD:
  assumes "linked V A"
  shows "finite (dom A)" "V x = Some p \<Longrightarrow> p_payload (o_head p) = None"
    "V x = Some p \<Longrightarrow> o_payload p = Some n \<Longrightarrow> \<exists>bs. A n = Some (map Some bs)"
    "V x = Some p \<Longrightarrow> V y = Some q \<Longrightarrow> o_payload p = Some n \<Longrightarrow> o_payload q = Some n \<Longrightarrow> x = y"
    "A n \<noteq> None \<Longrightarrow> \<exists>x p. V x = Some p \<and> o_payload p = Some n"
  using assms unfolding linked_def by blast+

lemma linkedI:
  assumes "finite (dom A)" "\<And>x p. V x = Some p \<Longrightarrow> p_payload (o_head p) = None"
    "\<And>x p n. V x = Some p \<Longrightarrow> o_payload p = Some n \<Longrightarrow> \<exists>bs. A n = Some (map Some bs)"
    "\<And>x y p q n. V x = Some p \<Longrightarrow> V y = Some q \<Longrightarrow> o_payload p = Some n \<Longrightarrow> o_payload q = Some n \<Longrightarrow> x = y"
    "\<And>n. A n \<noteq> None \<Longrightarrow> \<exists>x p. V x = Some p \<and> o_payload p = Some n"
  shows "linked V A"
  using assms unfolding linked_def by blast

lemma linked_bare:
  assumes "linked V A" "V x = None" "p_payload h = None"
  shows "linked (V(x \<mapsto> \<lparr>o_head = h, o_payload = None\<rparr>)) A"
    "values_of (V(x \<mapsto> \<lparr>o_head = h, o_payload = None\<rparr>)) A = (values_of V A)(x \<mapsto> h)"
proof -
  show "linked (V(x \<mapsto> \<lparr>o_head = h, o_payload = None\<rparr>)) A"
    unfolding linked_def
  proof (intro conjI allI impI)
    fix n assume "A n \<noteq> None"
    then obtain y p where "V y = Some p" "o_payload p = Some n" using linkedD(5) [OF assms(1)] by blast
    then show "\<exists>y p. (V(x \<mapsto> \<lparr>o_head = h, o_payload = None\<rparr>)) y = Some p \<and> o_payload p = Some n"
      using assms(2) by (intro exI [of _ y] exI [of _ p]) auto
  qed (use assms linkedD [OF assms(1)] in \<open>auto split: if_splits\<close>)
  show "values_of (V(x \<mapsto> \<lparr>o_head = h, o_payload = None\<rparr>)) A = (values_of V A)(x \<mapsto> h)"
    using assms(3) by (auto simp: values_of_def object_value_def)
qed

lemma linked_put:
  assumes "linked V A" "V x = None" "p_payload h = None" "A n = None"
  shows "linked (V(x \<mapsto> \<lparr>o_head = h, o_payload = Some n\<rparr>)) (A(n \<mapsto> map Some bs))"
    "values_of (V(x \<mapsto> \<lparr>o_head = h, o_payload = Some n\<rparr>)) (A(n \<mapsto> map Some bs)) =
      (values_of V A)(x \<mapsto> h\<lparr>p_payload := Some bs\<rparr>)"
proof -
  have fresh: "o_payload p \<noteq> Some n" if "V y = Some p" for y p
    using linkedD(3) [OF assms(1) that] assms(4) by fastforce
  show "linked (V(x \<mapsto> \<lparr>o_head = h, o_payload = Some n\<rparr>)) (A(n \<mapsto> map Some bs))"
    unfolding linked_def
  proof (intro conjI allI impI)
    fix m assume "(A(n \<mapsto> map Some bs)) m \<noteq> None"
    then consider "m = n" | "A m \<noteq> None" by (auto split: if_splits)
    then show "\<exists>y p. (V(x \<mapsto> \<lparr>o_head = h, o_payload = Some n\<rparr>)) y = Some p \<and> o_payload p = Some m"
    proof cases
      case 1
      then show ?thesis by (intro exI [of _ x]) simp
    next
      case 2
      then obtain y p where "V y = Some p" "o_payload p = Some m" using linkedD(5) [OF assms(1)] by blast
      then show ?thesis using assms(2) by (intro exI [of _ y] exI [of _ p]) auto
    qed
  qed (use assms linkedD [OF assms(1)] fresh in \<open>auto split: if_splits\<close>)
  show "values_of (V(x \<mapsto> \<lparr>o_head = h, o_payload = Some n\<rparr>)) (A(n \<mapsto> map Some bs)) =
      (values_of V A)(x \<mapsto> h\<lparr>p_payload := Some bs\<rparr>)"
  proof
    fix y
    show "values_of (V(x \<mapsto> \<lparr>o_head = h, o_payload = Some n\<rparr>)) (A(n \<mapsto> map Some bs)) y =
      ((values_of V A)(x \<mapsto> h\<lparr>p_payload := Some bs\<rparr>)) y"
      using fresh by (cases "V y") (auto simp: values_of_def object_value_def o_def split: option.split)
  qed
qed

lemma linked_drop:
  assumes "linked V A" "V x = Some p"
  shows "linked (V(x := None)) (without (o_payload p) A)"
    "values_of (V(x := None)) (without (o_payload p) A) = (values_of V A)(x := None)"
proof -
  have other: "o_payload q \<noteq> Some n" if "V y = Some q" "y \<noteq> x" "o_payload p = Some n" for y q n
    using linkedD(4) [OF assms(1) that(1) assms(2)] that(2,3) by blast
  note D = linkedD [OF assms(1)]
  have keeps: "without (o_payload p) A n = A n" if "V y = Some q" "y \<noteq> x" "o_payload q = Some n" for y q n
    using other [OF that(1,2)] that(3) by (auto simp: without_def split: option.split)
  show "linked (V(x := None)) (without (o_payload p) A)"
  proof (rule linkedI)
    show "finite (dom (without (o_payload p) A))" using D(1) by (simp add: without_def split: option.split)
    fix n assume "without (o_payload p) A n \<noteq> None"
    then have n: "o_payload p \<noteq> Some n" "A n \<noteq> None" by (auto simp: without_def split: option.splits if_splits)
    then obtain y q where y: "V y = Some q" "o_payload q = Some n" using D(5) by blast
    with n(1) assms(2) have "y \<noteq> x" by auto
    with y show "\<exists>y q. (V(x := None)) y = Some q \<and> o_payload q = Some n" by auto
  next
    fix y q n assume "(V(x := None)) y = Some q" "o_payload q = Some n"
    then show "\<exists>bs. without (o_payload p) A n = Some (map Some bs)"
      using D(3) keeps by (auto split: if_splits)
  next
    fix y z q r n
    assume "(V(x := None)) y = Some q" "(V(x := None)) z = Some r" "o_payload q = Some n" "o_payload r = Some n"
    then show "y = z" using D(4) by (auto split: if_splits)
  qed (use D(2) in \<open>auto split: if_splits\<close>)
  show "values_of (V(x := None)) (without (o_payload p) A) = (values_of V A)(x := None)"
  proof
    fix y
    show "values_of (V(x := None)) (without (o_payload p) A) y = ((values_of V A)(x := None)) y"
      using other by (cases "V y"; cases "o_payload p") (auto simp: values_of_def object_value_def without_def split: option.split)
  qed
qed

lemma without_other: "old \<noteq> Some n \<Longrightarrow> without old (A(n \<mapsto> v)) = (without old A)(n \<mapsto> v)"
  by (cases old) (auto simp: without_def fun_upd_twist)

lemma linked_replace:
  assumes "linked V A" "V x = Some p" "p_payload h = None"
  shows "linked (V(x \<mapsto> \<lparr>o_head = h, o_payload = None\<rparr>)) (without (o_payload p) A)"
    "values_of (V(x \<mapsto> \<lparr>o_head = h, o_payload = None\<rparr>)) (without (o_payload p) A) = (values_of V A)(x \<mapsto> h)"
    "A n = None \<Longrightarrow> linked (V(x \<mapsto> \<lparr>o_head = h, o_payload = Some n\<rparr>)) (without (o_payload p) (A(n \<mapsto> map Some bs)))"
    "A n = None \<Longrightarrow> values_of (V(x \<mapsto> \<lparr>o_head = h, o_payload = Some n\<rparr>)) (without (o_payload p) (A(n \<mapsto> map Some bs))) =
      (values_of V A)(x \<mapsto> h\<lparr>p_payload := Some bs\<rparr>)"
proof -
  note drop = linked_drop [OF assms(1,2)]
  have x: "(V(x := None)) x = None" by simp
  note bare = linked_bare [OF drop(1) x assms(3)]
  show "linked (V(x \<mapsto> \<lparr>o_head = h, o_payload = None\<rparr>)) (without (o_payload p) A)"
    "values_of (V(x \<mapsto> \<lparr>o_head = h, o_payload = None\<rparr>)) (without (o_payload p) A) = (values_of V A)(x \<mapsto> h)"
    using bare [unfolded drop(2) fun_upd_upd] by (simp_all only:)
  assume n: "A n = None"
  then have old: "o_payload p \<noteq> Some n" using linkedD(3) [OF assms(1,2)] by fastforce
  then have "without (o_payload p) A n = None" using n by (auto simp: without_def split: option.split)
  note put = linked_put [OF drop(1) x assms(3) this, of bs, unfolded drop(2) fun_upd_upd, folded without_other [OF old]]
  show "linked (V(x \<mapsto> \<lparr>o_head = h, o_payload = Some n\<rparr>)) (without (o_payload p) (A(n \<mapsto> map Some bs)))"
    "values_of (V(x \<mapsto> \<lparr>o_head = h, o_payload = Some n\<rparr>)) (without (o_payload p) (A(n \<mapsto> map Some bs))) =
      (values_of V A)(x \<mapsto> h\<lparr>p_payload := Some bs\<rparr>)"
    by (rule put)+
qed

lemma linked_move:
  assumes l: "linked V A" and x: "V x = None" and y: "V y = Some q"
  shows "linked (V(y \<mapsto> \<lparr>o_head = hollow gone (o_head q), o_payload = None\<rparr>, x \<mapsto> q)) A"
    "values_of (V(y \<mapsto> \<lparr>o_head = hollow gone (o_head q), o_payload = None\<rparr>, x \<mapsto> q)) A =
      (values_of V A)(y \<mapsto> hollow gone (object_value A q), x := values_of V A y)"
proof -
  let ?V = "V(y \<mapsto> \<lparr>o_head = hollow gone (o_head q), o_payload = None\<rparr>, x \<mapsto> q)"
  have ne: "x \<noteq> y" using x y by auto
  note D = linkedD [OF l]
  show "linked ?V A"
  proof (rule linkedI)
    show "finite (dom A)" by (rule D(1))
    show "p_payload (o_head p) = None" if "?V z = Some p" for z p
      using that D(2) y by (auto simp: hollow_def split: if_splits)
    show "\<exists>bs. A n = Some (map Some bs)" if "?V z = Some p" "o_payload p = Some n" for z p n
      using that D(3) y by (auto split: if_splits)
    show "z = z'" if "?V z = Some p" "?V z' = Some p'" "o_payload p = Some n" "o_payload p' = Some n" for z z' p p' n
      using that D(4) y by (auto split: if_splits)
    fix n assume "A n \<noteq> None"
    then obtain z p where z: "V z = Some p" "o_payload p = Some n" using D(5) by blast
    show "\<exists>z p. ?V z = Some p \<and> o_payload p = Some n"
    proof (cases "z = y")
      case True
      with z y show ?thesis by (intro exI [of _ x] exI [of _ q]) auto
    next
      case False
      with z x show ?thesis by (intro exI [of _ z] exI [of _ p]) auto
    qed
  qed
  show "values_of ?V A = (values_of V A)(y \<mapsto> hollow gone (object_value A q), x := values_of V A y)"
    using y ne by (auto simp: fun_eq_iff values_of_def object_value_def hollow_def)
qed

section \<open>Buffers of packets\<close>

text \<open>A pointer behind which there are \<open>n\<close> bytes with values.\<close>

definition reads_bytes :: "heap \<Rightarrow> pointer \<Rightarrow> size_t \<Rightarrow> byte list \<Rightarrow> bool" where
  "reads_bytes h d n bs \<longleftrightarrow>
     (case d of
        None \<Rightarrow> n = 0 \<and> bs = []
      | Some (a, off) \<Rightarrow> (\<exists>blk. h a = Some blk \<and> unat off + unat n \<le> length blk \<and>
          take (unat n) (drop (unat off) blk) = map Some bs))"

definition runs :: "heap \<Rightarrow> values_store \<Rightarrow> store outcome \<Rightarrow> bool" where
  "runs env A r \<longleftrightarrow> (\<exists>st'. r = Inr st' \<and> owner_inv env st' \<and> abs_store st' = A)"

lemma namer_name:
  assumes "namer_fresh nm" "finite (dom (abs_store st))"
  shows "st_vars st (nm st) = None" "abs_store st (nm st) = None"
proof -
  have "dom (st_vars st) = dom (abs_store st)" by (simp add: dom_def)
  with assms show "st_vars st (nm st) = None" by (simp add: namer_fresh_def)
  then show "abs_store st (nm st) = None" by simp
qed

lemma from_runs:
  assumes al: "alloc_fresh al" "alloc_succeeds al" and inv: "owner_inv env st"
    and x: "st_vars st x = None" and src: "reads_bytes (st_heap st) d n bs"
  shows "runs env ((abs_store st)(x \<mapsto> map Some bs)) (exec al (From x d n) st)"
proof -
  obtain vs h where st: "st = \<lparr>st_vars = vs, st_heap = h\<rparr>" by (cases st)
  note inv = inv [unfolded st]
  have r: "ready al h" using al owner_invD(1) [OF inv] by (simp add: ready_def)
  have "constructs h (map Some bs) n (buffer_from al d n h)"
  proof (cases d)
    case None
    with src from_null_constructs [OF r, of 0] show ?thesis by (simp add: reads_bytes_def)
  next
    case (Some q)
    then obtain a off where "d = Some (a, off)" by (cases q) auto
    with src st show ?thesis using from_constructs [OF r] by (fastforce simp: reads_bytes_def)
  qed
  from bind_var_constructs [OF inv _ this, of x] x show ?thesis by (simp add: runs_def st)
qed

lemma release_runs:
  assumes al: "alloc_fresh al" "alloc_succeeds al" and inv: "owner_inv env st"
    and old: "\<And>n. old = Some n \<Longrightarrow> abs_store st n \<noteq> None"
  shows "runs env (without old (abs_store st)) (release al old st)"
proof (cases old)
  case (Some n)
  with exec_refines [OF al inv, of "Destroy n"] old [OF Some] show ?thesis
    by (simp add: runs_def release_def without_def)
qed (simp add: runs_def release_def without_def inv)

text \<open>The bytes of a live packet's payload can be read through its buffer.\<close>

lemma live_payload:
  assumes inv: "owner_inv env st" and m: "abs_store st m = Some (map Some bs)"
  obtains c where "live st m = Inr c" "reads_bytes (st_heap st) (data_ptr c) (b_size c) bs"
proof -
  obtain vs h where st: "st = \<lparr>st_vars = vs, st_heap = h\<rparr>" by (cases st)
  from m obtain c where c: "vs m = Some c" "contents h c = map Some bs" by (auto simp: abs_store_def st)
  have ok: "buffer_ok h c" by (rule owner_invD(2) [OF inv [unfolded st] c(1)])
  have "reads_bytes h (data_ptr c) (b_size c) bs"
  proof (cases "b_data c")
    case None
    with ok c(2) show ?thesis by (simp add: reads_bytes_def data_ptr_def buffer_ok_def contents_def)
  next
    case (Some a)
    with ok obtain blk where blk: "h a = Some blk" "length blk = unat (b_size c)" by (auto simp: buffer_ok_def)
    with Some c(2) have "blk = map Some bs" by (simp add: contents_def)
    with Some blk show ?thesis by (simp add: reads_bytes_def data_ptr_def)
  qed
  with c(1) show thesis by (intro that [of c]) (simp_all add: live_def st)
qed

section \<open>Each operation\<close>

lemma head_value: "p_payload (o_head p) = None \<Longrightarrow> o_payload p = None \<Longrightarrow> object_value A p = o_head p"
  by (cases "o_head p") (simp add: object_value_def)

text \<open>Cloning a packet's payload: nothing, or a new buffer with the same bytes.\<close>

lemma clone_runs:
  assumes al: "alloc_fresh al" "alloc_succeeds al" "namer_fresh nm" and inv: "packet_inv env \<lparr>ps_packets = V, ps_buffers = st\<rparr>"
    and q: "V y = Some q"
  obtains "clone_payload al nm q st = Inr (None, st)" "object_value (abs_store st) q = o_head q"
  | st' bs where "clone_payload al nm q st = Inr (Some (nm st), st')" "owner_inv env st'"
      "abs_store st' = (abs_store st)(nm st \<mapsto> map Some bs)" "abs_store st (nm st) = None"
      "object_value (abs_store st) q = (o_head q)\<lparr>p_payload := Some bs\<rparr>"
proof -
  have own: "owner_inv env st" and l: "linked V (abs_store st)" using inv by (simp_all add: packet_inv_def)
  note D = linkedD [OF l]
  show thesis
  proof (cases "o_payload q")
    case None
    with that(1) head_value [OF D(2) [OF q]] show thesis by (simp add: clone_payload_def)
  next
    case (Some m)
    then obtain bs where bs: "abs_store st m = Some (map Some bs)" using D(3) [OF q] by blast
    then obtain c where c: "live st m = Inr c" "reads_bytes (st_heap st) (data_ptr c) (b_size c) bs"
      using live_payload [OF own] by blast
    note name = namer_name [OF al(3) D(1)]
    obtain st' where st': "exec al (From (nm st) (data_ptr c) (b_size c)) st = Inr st'" "owner_inv env st'"
      "abs_store st' = (abs_store st)(nm st \<mapsto> map Some bs)"
      using from_runs [OF al(1,2) own name(1) c(2)] unfolding runs_def by blast
    have "clone_payload al nm q st = Inr (Some (nm st), st')"
      unfolding clone_payload_def make_buffer_def Some option.case c(1) obind_Inr buffer_size_def st'(1) by simp
    moreover have "object_value (abs_store st) q = (o_head q)\<lparr>p_payload := Some bs\<rparr>"
      by (simp add: object_value_def Some bs o_def)
    ultimately show thesis using that(2) st'(2,3) name(2) by blast
  qed
qed

definition refines :: "heap \<Rightarrow> packet_store outcome \<Rightarrow> packet_values \<Rightarrow> bool" where
  "refines env r P \<longleftrightarrow> (\<exists>ps'. r = Inr ps' \<and> packet_inv env ps' \<and> abs_packets ps' = P)"

lemma refinesI:
  "owner_inv env st \<Longrightarrow> linked V (abs_store st) \<Longrightarrow> values_of V (abs_store st) = P \<Longrightarrow>
    refines env (Inr \<lparr>ps_packets = V, ps_buffers = st\<rparr>) P"
  by (simp add: refines_def packet_inv_def abs_packets_def)

lemma copy_refines:
  assumes al: "alloc_fresh al" "alloc_succeeds al" "namer_fresh nm" and inv: "packet_inv env \<lparr>ps_packets = V, ps_buffers = st\<rparr>"
    and x: "V x = None" and q: "V y = Some q"
  shows "refines env (put_packet x \<lparr>ps_packets = V, ps_buffers = st\<rparr> (object_copy al nm q st))
    ((values_of V (abs_store st))(x \<mapsto> object_value (abs_store st) q))"
proof -
  have own: "owner_inv env st" and l: "linked V (abs_store st)" using inv by (simp_all add: packet_inv_def)
  have h: "p_payload (o_head q) = None" by (rule linkedD(2) [OF l q])
  show ?thesis
  proof (rule clone_runs [OF al inv q])
    assume "clone_payload al nm q st = Inr (None, st)" "object_value (abs_store st) q = o_head q"
    then show ?thesis
      using linked_bare [OF l x h] own by (simp add: object_copy_def put_packet_def refinesI)
  next
    fix st' bs
    assume c: "clone_payload al nm q st = Inr (Some (nm st), st')" "owner_inv env st'"
      "abs_store st' = (abs_store st)(nm st \<mapsto> map Some bs)" "abs_store st (nm st) = None"
      "object_value (abs_store st) q = (o_head q)\<lparr>p_payload := Some bs\<rparr>"
    show ?thesis
      using linked_put [OF l x h c(4), of bs] c(1,2,5)
      by (simp add: object_copy_def put_packet_def refinesI c(3) [symmetric])
  qed
qed

lemma linked_head:
  assumes "linked V A" "V x = Some p" "p_payload h = None"
  shows "linked (V(x \<mapsto> p\<lparr>o_head := h\<rparr>)) A"
    "values_of (V(x \<mapsto> p\<lparr>o_head := h\<rparr>)) A = (values_of V A)(x \<mapsto> object_value A (p\<lparr>o_head := h\<rparr>))"
proof -
  note D = linkedD [OF assms(1)]
  show "linked (V(x \<mapsto> p\<lparr>o_head := h\<rparr>)) A"
  proof (rule linkedI)
    fix n assume "A n \<noteq> None"
    then obtain y q where y: "V y = Some q" "o_payload q = Some n" using D(5) by blast
    then show "\<exists>y q. (V(x \<mapsto> p\<lparr>o_head := h\<rparr>)) y = Some q \<and> o_payload q = Some n"
      using assms(2) by (cases "y = x") (auto intro: exI [of _ y])
  next
    fix y z q r n
    assume "(V(x \<mapsto> p\<lparr>o_head := h\<rparr>)) y = Some q" "(V(x \<mapsto> p\<lparr>o_head := h\<rparr>)) z = Some r"
      "o_payload q = Some n" "o_payload r = Some n"
    then show "y = z" using D(4) assms(2) by (auto split: if_splits)
  qed (use D(1-3) assms(2,3) in \<open>auto split: if_splits\<close>)
  show "values_of (V(x \<mapsto> p\<lparr>o_head := h\<rparr>)) A = (values_of V A)(x \<mapsto> object_value A (p\<lparr>o_head := h\<rparr>))"
    by (auto simp: values_of_def)
qed

text \<open>Giving an object a new payload, made before the old one is released.\<close>

lemma replace_refines:
  assumes al: "alloc_fresh al" "alloc_succeeds al" and l: "linked V (abs_store st)" and x: "V x = Some p"
    and st': "owner_inv env st'" "abs_store st' = (abs_store st)(n \<mapsto> map Some bs)" "abs_store st n = None"
    and h: "p_payload h = None"
  shows "refines env (put_packet x \<lparr>ps_packets = V, ps_buffers = st\<rparr>
      (obind (release al (o_payload p) st') (\<lambda>st2. Inr (\<lparr>o_head = h, o_payload = Some n\<rparr>, st2))))
    ((values_of V (abs_store st))(x \<mapsto> h\<lparr>p_payload := Some bs\<rparr>))"
proof -
  have "abs_store st' m \<noteq> None" if "o_payload p = Some m" for m
    using linkedD(3) [OF l x that] st'(2,3) by auto
  then obtain st2 where st2: "release al (o_payload p) st' = Inr st2" "owner_inv env st2"
    "abs_store st2 = without (o_payload p) ((abs_store st)(n \<mapsto> map Some bs))"
    using release_runs [OF al st'(1), of "o_payload p"] unfolding runs_def st'(2) by blast
  note put = linked_replace(3,4) [OF l x h st'(3), of bs, folded st2(3)]
  show ?thesis using refinesI [OF st2(2) put] by (simp add: st2(1) put_packet_def)
qed

lemma assign_refines:
  assumes al: "alloc_fresh al" "alloc_succeeds al" "namer_fresh nm" and inv: "packet_inv env \<lparr>ps_packets = V, ps_buffers = st\<rparr>"
    and x: "V x = Some p" and q: "V y = Some q"
  shows "refines env (put_packet x \<lparr>ps_packets = V, ps_buffers = st\<rparr> (object_assign al nm False p q st))
    ((values_of V (abs_store st))(x \<mapsto> object_value (abs_store st) q))"
proof -
  have own: "owner_inv env st" and l: "linked V (abs_store st)" using inv by (simp_all add: packet_inv_def)
  have h: "p_payload (o_head q) = None" by (rule linkedD(2) [OF l q])
  show ?thesis
  proof (rule clone_runs [OF al inv q])
    assume c: "clone_payload al nm q st = Inr (None, st)" "object_value (abs_store st) q = o_head q"
    have "abs_store st m \<noteq> None" if "o_payload p = Some m" for m
      using linkedD(3) [OF l x that] by (metis option.distinct(1))
    then obtain st2 where st2: "release al (o_payload p) st = Inr st2" "owner_inv env st2"
      "abs_store st2 = without (o_payload p) (abs_store st)"
      using release_runs [OF al(1,2) own, of "o_payload p"] unfolding runs_def by blast
    then show ?thesis
      using linked_replace(1,2) [OF l x h] c
      by (simp add: object_assign_def put_packet_def refinesI st2(3) [symmetric])
  next
    fix st' bs
    assume c: "clone_payload al nm q st = Inr (Some (nm st), st')" "owner_inv env st'"
      "abs_store st' = (abs_store st)(nm st \<mapsto> map Some bs)" "abs_store st (nm st) = None"
      "object_value (abs_store st) q = (o_head q)\<lparr>p_payload := Some bs\<rparr>"
    from replace_refines [OF al(1,2) l x c(2-4) h] c(1,5) show ?thesis
      by (simp add: object_assign_def)
  qed
qed

lemma move_assign_refines:
  assumes al: "alloc_fresh al" "alloc_succeeds al" and inv: "packet_inv env \<lparr>ps_packets = V, ps_buffers = st\<rparr>"
    and x: "V x = Some p" and y: "V y = Some q" and ne: "x \<noteq> y"
  shows "refines env (exec_packet al nm gone (P_Move_Assign x y) \<lparr>ps_packets = V, ps_buffers = st\<rparr>)
    ((values_of V (abs_store st))(y \<mapsto> hollow gone (object_value (abs_store st) q), x \<mapsto> object_value (abs_store st) q))"
proof -
  have own: "owner_inv env st" and l: "linked V (abs_store st)" using inv by (simp_all add: packet_inv_def)
  have "abs_store st m \<noteq> None" if "o_payload p = Some m" for m
    using linkedD(3) [OF l x that] by (metis option.distinct(1))
  then obtain st2 where st2: "release al (o_payload p) st = Inr st2" "owner_inv env st2"
    "abs_store st2 = without (o_payload p) (abs_store st)"
    using release_runs [OF al own, of "o_payload p"] unfolding runs_def by blast
  have y': "(V(x := None)) y = Some q" and x': "(V(x := None)) x = None" using y ne by simp_all
  note drop = linked_drop [OF l x]
  have "values_of V (abs_store st) y = Some (object_value (abs_store st) q)" using y by (simp add: values_of_def)
  moreover have "values_of (V(x := None)) (without (o_payload p) (abs_store st)) y =
      Some (object_value (without (o_payload p) (abs_store st)) q)" using y' by (simp add: values_of_def)
  ultimately have val: "object_value (without (o_payload p) (abs_store st)) q = object_value (abs_store st) q"
    using ne unfolding drop(2) by simp
  have upd: "(V(x := None))(y \<mapsto> o1, x \<mapsto> q) = V(y \<mapsto> o1, x \<mapsto> q)"
    "((values_of V (abs_store st))(x := None))(y \<mapsto> v, x \<mapsto> w) = (values_of V (abs_store st))(y \<mapsto> v, x \<mapsto> w)" for o1 v w
    by auto
  have vy: "((values_of V (abs_store st))(x := None)) y = Some (object_value (abs_store st) q)"
    using y ne by (simp add: values_of_def)
  note mv = linked_move [OF drop(1) x' y', where gone = gone, unfolded drop(2) val vy upd]
  show ?thesis
    using refinesI [OF st2(2), of "V(y \<mapsto> \<lparr>o_head = hollow gone (o_head q), o_payload = None\<rparr>, x \<mapsto> q)", unfolded st2(3), OF mv]
    by (simp add: live_packet_def x y ne object_move_assign_def st2(1) put_packet_def)
qed

lemma fill_refines:
  assumes al: "alloc_fresh al" "alloc_succeeds al" "namer_fresh nm" and inv: "packet_inv env \<lparr>ps_packets = V, ps_buffers = st\<rparr>"
    and x: "V x = Some p" and src: "d \<noteq> None \<and> n > 0 \<Longrightarrow> reads_bytes (st_heap st) d n bs"
  shows "refines env (put_packet x \<lparr>ps_packets = V, ps_buffers = st\<rparr> (object_set_payload al nm d n p st))
    ((values_of V (abs_store st))(x \<mapsto> (object_value (abs_store st) p)\<lparr>p_payload := Some (if d \<noteq> None \<and> n > 0 then bs else [])\<rparr>))"
proof -
  have own: "owner_inv env st" and l: "linked V (abs_store st)" using inv by (simp_all add: packet_inv_def)
  note name = namer_name [OF al(3) linkedD(1) [OF l]]
  have h: "p_payload (o_head p) = None" by (rule linkedD(2) [OF l x])
  let ?made = "if d \<noteq> None \<and> n > 0 then make_buffer al nm d n st else make_zeroed al nm 0 st"
  let ?bs = "if d \<noteq> None \<and> n > 0 then bs else []"
  obtain st' where made: "?made = Inr (nm st, st')" "owner_inv env st'"
      "abs_store st' = (abs_store st)(nm st \<mapsto> map Some ?bs)"
  proof (cases "d \<noteq> None \<and> n > 0")
    case True
    from from_runs [OF al(1,2) own name(1) src [OF this]] obtain st' where
      "exec al (From (nm st) d n) st = Inr st'" "owner_inv env st'" "abs_store st' = (abs_store st)(nm st \<mapsto> map Some bs)"
      unfolding runs_def by blast
    then show thesis using True by (intro that [of st']) (simp_all add: make_buffer_def)
  next
    case False
    obtain st' where "exec al (Zero (nm st) 0) st = Inr st'" "owner_inv env st'" "abs_store st' = (abs_store st)(nm st \<mapsto> [])"
      using exec_refines [OF al(1,2) own, of "Zero (nm st) 0"] name by auto
    then show thesis using False by (intro that [of st']) (auto simp: make_zeroed_def)
  qed
  have "object_set_payload al nm d n p st = obind (release al (o_payload p) st') (\<lambda>st2.
      Inr (\<lparr>o_head = o_head p, o_payload = Some (nm st)\<rparr>, st2))"
    unfolding object_set_payload_def made(1) by (cases p) simp
  moreover have "(object_value (abs_store st) p)\<lparr>p_payload := v\<rparr> = (o_head p)\<lparr>p_payload := v\<rparr>" for v
    by (simp add: object_value_def)
  ultimately show ?thesis
    using replace_refines [OF al(1,2) l x made(2,3) name(2) h] by simp
qed

lemma set_payload_refines:
  assumes al: "alloc_fresh al" "alloc_succeeds al" "namer_fresh nm" and inv: "packet_inv env \<lparr>ps_packets = V, ps_buffers = st\<rparr>"
    and x: "V x = Some p" and w: "scoped_packet_op env (values_of V (abs_store st)) (P_Set_Payload x d n)"
  shows "\<exists>P. packet_spec env gone (P_Set_Payload x d n) (values_of V (abs_store st)) = Inr P \<and>
    refines env (put_packet x \<lparr>ps_packets = V, ps_buffers = st\<rparr> (object_set_payload al nm d n p st)) P"
proof -
  have own: "owner_inv env st" using inv by (simp add: packet_inv_def)
  define bs where "bs = take (unat n) (the (pointed env d))"
  have src: "reads_bytes (st_heap st) d n bs" and val: "set_payload (pointed env d) n v = Inr (v\<lparr>p_payload := Some bs\<rparr>)"
    if copied: "d \<noteq> None \<and> n > 0" for v
  proof -
    obtain a off where d: "d = Some (a, off)" using copied by auto
    with w obtain blk where blk: "env a = Some blk" "unat off + unat n \<le> length blk"
        "None \<notin> set (take (unat n) (drop (unat off) blk))"
      by (auto split: option.splits)
    have bs: "bs = map the (take (unat n) (drop (unat off) blk))"
      by (simp add: bs_def pointed_def d blk(1) take_map drop_map)
    have "st_heap st a = Some blk" using own blk(1) unfolding owner_inv_def by (metis domI)
    moreover have "take (unat n) (drop (unat off) blk) = map Some bs"
      unfolding bs using blk(3) by (intro nth_equalityI) (auto simp: in_set_conv_nth)
    ultimately show "reads_bytes (st_heap st) d n bs" using d blk(2) by (simp add: reads_bytes_def)
    show "set_payload (pointed env d) n v = Inr (v\<lparr>p_payload := Some bs\<rparr>)"
      using copied blk(1,2) by (simp add: set_payload_def pointed_def d mem_read_def bs take_map drop_map)
  qed
  have "set_payload (pointed env d) n v = Inr (v\<lparr>p_payload := Some (if d \<noteq> None \<and> n > 0 then bs else [])\<rparr>)" for v
    using val by (auto simp: set_payload_def pointed_def split: option.split prod.split)
  with fill_refines [OF al inv x src] show ?thesis using x by (simp add: values_of_def)
qed

lemma set_payload_of_refines:
  assumes al: "alloc_fresh al" "alloc_succeeds al" "namer_fresh nm" and inv: "packet_inv env \<lparr>ps_packets = V, ps_buffers = st\<rparr>"
    and x: "V x = Some p" and y: "V y = Some q"
    and w: "scoped_packet_op env (values_of V (abs_store st)) (P_Set_Payload_Of x y off n)"
  shows "\<exists>P. packet_spec env gone (P_Set_Payload_Of x y off n) (values_of V (abs_store st)) = Inr P \<and>
    refines env (exec_packet al nm gone (P_Set_Payload_Of x y off n) \<lparr>ps_packets = V, ps_buffers = st\<rparr>) P"
proof -
  have own: "owner_inv env st" and l: "linked V (abs_store st)" using inv by (simp_all add: packet_inv_def)
  obtain m where m: "o_payload q = Some m"
    using w y by (auto simp: values_of_def object_value_def split: option.splits)
  then obtain bs where bs: "abs_store st m = Some (map Some bs)" using linkedD(3) [OF l y] by blast
  have len: "unat off + unat n \<le> length bs"
    using w y by (simp add: values_of_def object_value_def m bs o_def)
  obtain c where c: "live st m = Inr c" "reads_bytes (st_heap st) (data_ptr c) (b_size c) bs"
    using live_payload [OF own bs] by blast
  let ?d = "map_option (\<lambda>(a, _). (a, off)) (data_ptr c)" and ?bs = "take (unat n) (drop (unat off) bs)"
  have src: "reads_bytes (st_heap st) ?d n ?bs" if copied: "?d \<noteq> None \<and> n > 0"
  proof -
    obtain a where a: "data_ptr c = Some (a, 0)"
      using copied by (auto simp: data_ptr_def split: option.splits)
    with c(2) obtain blk where blk: "st_heap st a = Some blk" "unat (b_size c) \<le> length blk" "take (unat (b_size c)) blk = map Some bs"
      by (auto simp: reads_bytes_def)
    then have size: "unat (b_size c) = length bs" by (metis length_map length_take min.absorb2)
    have "take (unat n) (drop (unat off) blk) = take (unat n) (drop (unat off) (take (unat (b_size c)) blk))"
      using len by (simp add: size drop_take min_def)
    then have "take (unat n) (drop (unat off) blk) = map Some ?bs" by (simp add: blk(3) take_map drop_map)
    with blk(1,2) len size a show ?thesis by (simp add: reads_bytes_def)
  qed
  have none: "bs = []" if "data_ptr c = None" using c(2) that by (simp add: reads_bytes_def)
  have "set_payload (Some (drop (unat off) bs)) n v =
      Inr (v\<lparr>p_payload := Some (if ?d \<noteq> None \<and> n > 0 then ?bs else [])\<rparr>)" for v
    using len none by (cases "data_ptr c"; cases "n > 0") (auto simp: set_payload_def mem_read_def word_less_nat_alt)
  with fill_refines [OF al inv x src] show ?thesis
    using x y by (simp add: values_of_def object_value_def m bs o_def live_packet_def c(1) payload_def)
qed

text \<open>One operation: it runs, keeps ownership and does to the values what the value model does.\<close>

lemma exec_packet_refines:
  assumes al: "alloc_fresh al" "alloc_succeeds al" "namer_fresh nm" and inv: "packet_inv env ps"
    and w: "scoped_packet_op env (abs_packets ps) op"
  shows "\<exists>P. packet_spec env gone op (abs_packets ps) = Inr P \<and> refines env (exec_packet al nm gone op ps) P"
proof -
  obtain V st where ps: "ps = \<lparr>ps_packets = V, ps_buffers = st\<rparr>" by (cases ps)
  note inv = inv [unfolded ps] and w = w [unfolded ps abs_packets_def packet_store.simps]
  have own: "owner_inv env st" and l: "linked V (abs_store st)" using inv by (simp_all add: packet_inv_def)
  let ?A = "abs_store st"
  have live: "live_packet \<lparr>ps_packets = V, ps_buffers = st\<rparr> x = Inr p" if "V x = Some p" for x p
    using that by (simp add: live_packet_def)
  have val: "values_of V ?A x = Some (object_value ?A p)" if "V x = Some p" for x p
    using that by (simp add: values_of_def)
  have dead: "V x = None" if "values_of V ?A x = None" for x using that by (simp add: values_of_def)
  have some: "\<exists>p. V x = Some p" if "values_of V ?A x \<noteq> None" for x using that by (auto simp: values_of_def)
  show ?thesis
    unfolding ps abs_packets_def packet_store.simps
  proof (cases op)
    case (P_New x)
    with w have x: "V x = None" by (simp add: dead)
    have "p_payload new_packet = None" by (simp add: new_packet_def)
    from refinesI [OF own linked_bare [OF l x this]] P_New
    show "\<exists>P. packet_spec env gone op (values_of V ?A) = Inr P \<and>
        refines env (exec_packet al nm gone op \<lparr>ps_packets = V, ps_buffers = st\<rparr>) P"
      by (simp add: put_packet_def object_new_def)
  next
    case (P_Copy x y)
    with w obtain q where "V x = None" "V y = Some q" using dead some by fastforce
    with copy_refines [OF al inv this] P_Copy
    show "\<exists>P. packet_spec env gone op (values_of V ?A) = Inr P \<and>
        refines env (exec_packet al nm gone op \<lparr>ps_packets = V, ps_buffers = st\<rparr>) P"
      by (simp add: live val)
  next
    case (P_Assign x y)
    with w obtain p q where pq: "V x = Some p" "V y = Some q" using some by fastforce
    have "refines env (put_packet x \<lparr>ps_packets = V, ps_buffers = st\<rparr> (object_assign al nm True p q st)) (values_of V ?A)"
      using refinesI [OF own l refl] pq(1) by (simp add: object_assign_def put_packet_def fun_upd_idem)
    with assign_refines [OF al inv pq] pq P_Assign
    show "\<exists>P. packet_spec env gone op (values_of V ?A) = Inr P \<and>
        refines env (exec_packet al nm gone op \<lparr>ps_packets = V, ps_buffers = st\<rparr>) P"
      by (cases "x = y") (simp_all add: live val fun_upd_idem)
  next
    case (P_Move x y)
    with w obtain q where xq: "V x = None" "V y = Some q" using dead some by fastforce
    from refinesI [OF own linked_move [OF l xq, of gone]] xq P_Move
    show "\<exists>P. packet_spec env gone op (values_of V ?A) = Inr P \<and>
        refines env (exec_packet al nm gone op \<lparr>ps_packets = V, ps_buffers = st\<rparr>) P"
      by (simp add: live val object_move_def put_packet_def)
  next
    case (P_Move_Assign x y)
    with w obtain p q where pq: "V x = Some p" "V y = Some q" using some by fastforce
    show "\<exists>P. packet_spec env gone op (values_of V ?A) = Inr P \<and>
        refines env (exec_packet al nm gone op \<lparr>ps_packets = V, ps_buffers = st\<rparr>) P"
    proof (cases "x = y")
      case True
      have h: "p_payload (self_moved gone (o_head p)) = None" using linkedD(2) [OF l pq(1)] by (simp add: self_moved_def)
      have "object_value ?A (p\<lparr>o_head := self_moved gone (o_head p)\<rparr>) = self_moved gone (object_value ?A p)"
        by (simp add: object_value_def self_moved_def)
      with refinesI [OF own linked_head [OF l pq(1) h]] True P_Move_Assign show ?thesis
        by (simp add: live [OF pq(1) [unfolded True]] val [OF pq(1) [unfolded True]] object_move_assign_def Let_def put_packet_def)
    next
      case False
      with move_assign_refines [OF al(1,2) inv pq this, of nm gone] P_Move_Assign pq show ?thesis
        by (simp add: val)
    qed
  next
    case (P_Set_Payload_Of x y off n)
    have "values_of V ?A x \<noteq> None" "values_of V ?A y \<noteq> None" using w P_Set_Payload_Of by (auto split: option.splits)
    then obtain p q where "V x = Some p" "V y = Some q" using some by blast
    from set_payload_of_refines [OF al inv this w [unfolded P_Set_Payload_Of], of gone]
    show "\<exists>P. packet_spec env gone op (values_of V ?A) = Inr P \<and>
        refines env (exec_packet al nm gone op \<lparr>ps_packets = V, ps_buffers = st\<rparr>) P"
      unfolding P_Set_Payload_Of .
  next
    case (P_Set_Payload x d n)
    have "values_of V ?A x \<noteq> None" using w P_Set_Payload by (cases d) auto
    then obtain p where p: "V x = Some p" using some by blast
    from set_payload_refines [OF al inv p w [unfolded P_Set_Payload], of gone] P_Set_Payload
    show "\<exists>P. packet_spec env gone op (values_of V ?A) = Inr P \<and>
        refines env (exec_packet al nm gone op \<lparr>ps_packets = V, ps_buffers = st\<rparr>) P"
      by (simp only: exec_packet.simps live [OF p] obind_Inr packet_store.simps)
  next
    case (P_Set x f)
    with w obtain p where p: "V x = Some p" and f: "plain_setter f" using some by fastforce
    have set: "f (q\<lparr>p_payload := b\<rparr>) = (f q)\<lparr>p_payload := b\<rparr>" for q b using f by (simp add: plain_setter_def)
    have "(o_head p)\<lparr>p_payload := None\<rparr> = o_head p" using linkedD(2) [OF l p] by (cases "o_head p") simp
    then have "f (o_head p) = (f (o_head p))\<lparr>p_payload := None\<rparr>" using set [where q = "o_head p" and b = None] by simp
    then have "p_payload (f (o_head p)) = p_payload ((f (o_head p))\<lparr>p_payload := None\<rparr>)" by (rule arg_cong)
    then have h: "p_payload (f (o_head p)) = None" by simp
    have "object_value ?A (p\<lparr>o_head := f (o_head p)\<rparr>) = f (object_value ?A p)"
      by (simp add: object_value_def set)
    with refinesI [OF own linked_head [OF l p h]] P_Set
    show "\<exists>P. packet_spec env gone op (values_of V ?A) = Inr P \<and>
        refines env (exec_packet al nm gone op \<lparr>ps_packets = V, ps_buffers = st\<rparr>) P"
      by (simp add: live [OF p] val [OF p] put_packet_def)
  next
    case (P_Destroy x)
    with w obtain p where p: "V x = Some p" using some by fastforce
    have "abs_store st m \<noteq> None" if "o_payload p = Some m" for m
      using linkedD(3) [OF l p that] by (metis option.distinct(1))
    then obtain st2 where st2: "release al (o_payload p) st = Inr st2" "owner_inv env st2"
      "abs_store st2 = without (o_payload p) ?A"
      using release_runs [OF al(1,2) own, of "o_payload p"] unfolding runs_def by blast
    from refinesI [OF st2(2) linked_drop [OF l p, folded st2(3)]] P_Destroy
    show "\<exists>P. packet_spec env gone op (values_of V ?A) = Inr P \<and>
        refines env (exec_packet al nm gone op \<lparr>ps_packets = V, ps_buffers = st\<rparr>) P"
      by (simp add: live [OF p] st2(1))
  qed
qed

section \<open>Whole programs\<close>

definition run_packets ::
    "allocator \<Rightarrow> namer \<Rightarrow> (string \<Rightarrow> string) \<Rightarrow> packet_op list \<Rightarrow> packet_store \<Rightarrow> packet_store outcome" where
  "run_packets al nm gone ops ps = ofold (exec_packet al nm gone) ops ps"

definition run_values ::
    "heap \<Rightarrow> (string \<Rightarrow> string) \<Rightarrow> packet_op list \<Rightarrow> packet_values \<Rightarrow> packet_values outcome" where
  "run_values env gone ops P = ofold (packet_spec env gone) ops P"

fun scoped_packets :: "heap \<Rightarrow> (string \<Rightarrow> string) \<Rightarrow> packet_op list \<Rightarrow> packet_values \<Rightarrow> bool" where
  "scoped_packets env gone [] P = True"
| "scoped_packets env gone (op # ops) P = (scoped_packet_op env P op \<and>
     (case packet_spec env gone op P of Inl e \<Rightarrow> True | Inr P' \<Rightarrow> scoped_packets env gone ops P'))"

lemma run_packets_refines:
  assumes al: "alloc_fresh al" "alloc_succeeds al" "namer_fresh nm"
    and "packet_inv env ps" "scoped_packets env gone ops (abs_packets ps)"
  shows "\<exists>ps'. run_packets al nm gone ops ps = Inr ps' \<and> packet_inv env ps' \<and>
    run_values env gone ops (abs_packets ps) = Inr (abs_packets ps')"
  using assms(4,5)
proof (induction ops arbitrary: ps)
  case (Cons op ops)
  obtain P where P: "packet_spec env gone op (abs_packets ps) = Inr P"
      "refines env (exec_packet al nm gone op ps) P"
    using exec_packet_refines [OF al Cons.prems(1)] Cons.prems(2) by (metis scoped_packets.simps(2))
  then obtain ps1 where ps1: "exec_packet al nm gone op ps = Inr ps1" "packet_inv env ps1" "abs_packets ps1 = P"
    unfolding refines_def by blast
  with Cons.IH [OF ps1(2)] Cons.prems(2) P(1) show ?case by (auto simp: run_packets_def run_values_def)
qed (simp add: run_packets_def run_values_def)

lemma no_packets_no_blocks:
  assumes "packet_inv env ps" and "\<forall>x. ps_packets ps x = None"
  shows "st_heap (ps_buffers ps) = env"
proof -
  have own: "owner_inv env (ps_buffers ps)" and l: "linked (ps_packets ps) (abs_store (ps_buffers ps))"
    using assms(1) by (simp_all add: packet_inv_def)
  have none: "st_vars (ps_buffers ps) n = None" for n
    using linkedD(5) [OF l, of n] assms(2) by (cases "st_vars (ps_buffers ps) n") auto
  have d: "dom (st_heap (ps_buffers ps)) = dom env" and eq: "\<forall>a \<in> dom env. st_heap (ps_buffers ps) a = env a"
    using own none by (auto simp: owner_inv_def owned_def)
  show ?thesis
  proof
    fix a
    show "st_heap (ps_buffers ps) a = env a" using d eq by (cases "a \<in> dom env") (auto simp: domIff)
  qed
qed

text \<open>C23: Packets own their payloads: on a heap with explicit allocation, and while memory lasts, every program of packet
  constructions, copies, assignments and moves (to itself included), setters, calls of \<open>SetPayload\<close> (on bytes of
  its own payload included) and destructions that uses objects only in their lifetime, and
  \<open>SetPayload\<close> only on bytes that are there, runs without a fault and yields the packets that the value model yields, which is the
  model of the rest of the development; no payload is shared, and once the last packet is
  destroyed every block has been released.\<close>

theorem packets_are_values:
  assumes "alloc_fresh al" "alloc_succeeds al" "namer_fresh nm"
    and "packet_inv env ps" "scoped_packets env gone ops (abs_packets ps)"
  shows "\<exists>ps'. run_packets al nm gone ops ps = Inr ps' \<and>
    run_values env gone ops (abs_packets ps) = Inr (abs_packets ps') \<and>
    (\<forall>x y p q n. ps_packets ps' x = Some p \<longrightarrow> ps_packets ps' y = Some q \<longrightarrow>
      o_payload p = Some n \<longrightarrow> o_payload q = Some n \<longrightarrow> x = y) \<and>
    ((\<forall>x. ps_packets ps' x = None) \<longrightarrow> st_heap (ps_buffers ps') = env)"
proof -
  obtain ps' where ps': "run_packets al nm gone ops ps = Inr ps'" "packet_inv env ps'"
    "run_values env gone ops (abs_packets ps) = Inr (abs_packets ps')"
    using run_packets_refines [OF assms] by blast
  then have "linked (ps_packets ps') (abs_store (ps_buffers ps'))" by (simp add: packet_inv_def)
  from linkedD(4) [OF this] ps' no_packets_no_blocks [OF ps'(2)] show ?thesis by blast
qed

definition fresh_name :: namer where
  "fresh_name st = replicate (Suc (Max (insert 0 (length ` dom (st_vars st))))) CHR ''p''"

lemma fresh_name_ok: "namer_fresh fresh_name"
  unfolding namer_fresh_def
proof (intro allI impI)
  fix st :: store
  assume fin: "finite (dom (st_vars st))"
  show "st_vars st (fresh_name st) = None"
  proof (rule ccontr)
    assume "st_vars st (fresh_name st) \<noteq> None"
    then have "length (fresh_name st) \<in> length ` dom (st_vars st)" by blast
    then have "length (fresh_name st) \<le> Max (insert 0 (length ` dom (st_vars st)))"
      using fin by (intro Max_ge) auto
    then show False by (simp add: fresh_name_def)
  qed
qed

definition start_packets :: packet_store where
  "start_packets = \<lparr>ps_packets = \<lambda>_. None, ps_buffers = start_store\<rparr>"

lemma start_packets_inv: "packet_inv packet_block start_packets"
  by (simp add: packet_inv_def start_packets_def start_store_inv linked_def demo_start)

lemma start_packets_abs: "abs_packets start_packets = (\<lambda>_. None)"
  by (simp add: abs_packets_def start_packets_def values_of_def fun_eq_iff)

definition demo_packet_ops :: "packet_op list" where
  "demo_packet_ops = [P_New ''a'', P_Set_Payload ''a'' (Some (0, 1)) 2, P_Set ''a'' (p_src_port_update (\<lambda>_. 5)),
     P_Copy ''b'' ''a'', P_Set_Payload ''a'' None 0, P_New ''c'', P_Assign ''c'' ''b'', P_Assign ''c'' ''c'',
     P_Move ''d'' ''b'', P_Move_Assign ''b'' ''a'', P_Move_Assign ''c'' ''c'', P_Set_Payload_Of ''c'' ''c'' 1 1]"

lemma demo_packets_run:
  "run_values packet_block (\<lambda>_. []) demo_packet_ops (\<lambda>_. None) = Inr ((\<lambda>_. None)(
     ''a'' \<mapsto> new_packet\<lparr>p_src_port := 5\<rparr>,
     ''b'' \<mapsto> new_packet\<lparr>p_src_port := 5, p_payload := Some []\<rparr>,
     ''c'' \<mapsto> new_packet\<lparr>p_src_port := 5, p_payload := Some [9]\<rparr>,
     ''d'' \<mapsto> new_packet\<lparr>p_src_port := 5, p_payload := Some [8, 9]\<rparr>))"
  "scoped_packets packet_block (\<lambda>_. []) demo_packet_ops (\<lambda>_. None)"
  by (simp_all add: run_values_def demo_packet_ops_def set_payload_def pointed_def mem_read_def packet_block_def
      plain_setter_def hollow_def self_moved_def payload_def new_packet_def fun_eq_iff)

theorem packets_are_values_witness:
  "\<exists>ps'. run_packets first_fit fresh_name (\<lambda>_. []) demo_packet_ops start_packets = Inr ps' \<and>
    abs_packets ps' ''d'' = Some (new_packet\<lparr>p_src_port := 5, p_payload := Some [8, 9]\<rparr>) \<and>
    abs_packets ps' ''c'' = Some (new_packet\<lparr>p_src_port := 5, p_payload := Some [9]\<rparr>)"
proof -
  obtain ps' where "run_packets first_fit fresh_name (\<lambda>_. []) demo_packet_ops start_packets = Inr ps'"
    "run_values packet_block (\<lambda>_. []) demo_packet_ops (\<lambda>_. None) = Inr (abs_packets ps')"
    using packets_are_values [OF first_fit_ok fresh_name_ok start_packets_inv, of "\<lambda>_. []" demo_packet_ops]
      demo_packets_run(2) by (auto simp: start_packets_abs)
  moreover from this(2) have "abs_packets ps' = (\<lambda>_. None)(
     ''a'' \<mapsto> new_packet\<lparr>p_src_port := 5\<rparr>,
     ''b'' \<mapsto> new_packet\<lparr>p_src_port := 5, p_payload := Some []\<rparr>,
     ''c'' \<mapsto> new_packet\<lparr>p_src_port := 5, p_payload := Some [9]\<rparr>,
     ''d'' \<mapsto> new_packet\<lparr>p_src_port := 5, p_payload := Some [8, 9]\<rparr>)"
    unfolding demo_packets_run(1) by (simp only: sum.inject)
  ultimately show ?thesis by simp
qed

end
