(* ===== verification/Decode_Semantics.thy ===== *)
theory Decode_Semantics
  imports Decode_Totality Decoder_Reference
begin

text \<open>
  The meaning of the command \<^verbatim>\<open>decode\<close>: which events a capture has, stated on the packets alone,
  with the reference parser and without tables, reassemblers, buffers or loops; and the proof that the program prints
  exactly these, for every mix of protocols and every schema whose header length does not wrap
  around.
\<close>

section \<open>The events of a capture\<close>

text \<open>The bytes a direction keeps: those of each segment that starts where the last one ended.\<close>

fun in_order :: "u32 \<Rightarrow> packet list \<Rightarrow> byte list" where
  "in_order n [] = []"
| "in_order n (p # ps) =
     (if p_tcp_seq p = n then payload_bytes p @ in_order (n + of_nat (length (payload_bytes p))) ps
      else in_order n ps)"

definition stream_of :: "packet list \<Rightarrow> byte list" where
  "stream_of ps = (case ps of [] \<Rightarrow> [] | p # _ \<Rightarrow> in_order (p_tcp_seq p) ps)"

definition udp_event :: "field_order \<Rightarrow> packet \<Rightarrow> fields \<Rightarrow> timeline_event" where
  "udp_event ford p m = \<lparr>te_timestamp_us = p_timestamp_us p, te_transport = ''UDP'',
     te_src = endpoint (p_src_ip p) (p_src_port p), te_dst = endpoint (p_dst_ip p) (p_dst_port p),
     te_message_type = message_type m, te_details = message_summary ford m\<rparr>"

definition packet_events :: "field_order \<Rightarrow> protocol_schema \<Rightarrow> packet \<Rightarrow> timeline_event list option" where
  "packet_events ford s p = map_option (map (udp_event ford p)) (parse_stream s (payload_bytes p))"

definition conversation_events ::
    "field_order \<Rightarrow> protocol_schema \<Rightarrow> packet list \<Rightarrow> flow_key \<Rightarrow> timeline_event list option" where
  "conversation_events ford s ps k =
     (if k_protocol k = TCP
      then Option.bind (parse_stream s (stream_of (client_packets k ps))) (\<lambda>cs.
           map_option (connection_events ford k (p_timestamp_us (hd (packets_of k ps))) cs)
             (parse_stream s (stream_of (server_packets k ps))))
      else map_option concat (those (map (packet_events ford s) (packets_of k ps))))"

section \<open>Streams\<close>

lemma in_order_length: "length (in_order n ps) \<le> length (concat (map payload_bytes ps))"
  by (induction ps arbitrary: n) (auto intro: trans_le_add2)

lemma stream_of_length: "length (stream_of ps) \<le> length (concat (map payload_bytes ps))"
  using in_order_length [of _ ps] by (auto simp: stream_of_def simp del: in_order.simps split: list.split)

lemma feed_in_order:
  assumes "\<And>p. p \<in> set ps \<Longrightarrow> has_payload p" and "r_initialized r" "feed ps dir r = Inr r'"
  shows "r_stream r' = r_stream r @ in_order (r_next_seq r) ps"
  using assms
proof (induction ps arbitrary: r)
  case (Cons p ps)
  then have p: "has_payload p" by simp
  from Cons.prems obtain r1 where r1: "add_segment p dir r = Inr r1" "feed ps dir r1 = Inr r'"
    by (auto simp: obind_eq_Inr)
  have "r_initialized r1" using r1(1) p Cons.prems(2) by (auto simp: add_segment_eq Let_def)
  from Cons.IH [OF _ this r1(2)] Cons.prems(1)
  have "r_stream r' = r_stream r1 @ in_order (r_next_seq r1) ps" by simp
  then show ?case using r1(1) p Cons.prems(2) by (auto simp: add_segment_eq Let_def split: if_splits)
qed simp

lemma feed_stream_of:
  assumes "\<And>p. p \<in> set ps \<Longrightarrow> has_payload p" and "feed ps dir new_reassembler = Inr r"
  shows "r_stream r = stream_of ps"
proof (cases ps)
  case Nil
  with assms(2) show ?thesis by (auto simp: stream_of_def new_reassembler_def)
next
  case (Cons p qs)
  have p: "has_payload p" using assms(1) Cons by simp
  let ?r = "new_reassembler\<lparr>r_next_seq := p_tcp_seq p, r_initialized := True\<rparr>"
  have "add_segment p dir ?r = add_segment p dir new_reassembler"
    using p by (simp add: add_segment_eq new_reassembler_def Let_def)
  then have "feed ps dir ?r = Inr r" using assms(2) Cons by simp
  from feed_in_order [OF assms(1) _ this] show ?thesis by (simp add: stream_of_def Cons new_reassembler_def)
qed

section \<open>What each piece contributes\<close>

lemma byte_object: "length d < 2 ^ 63 \<Longrightarrow> valid_object d (of_nat (length d))"
  by (simp add: valid_object_def unat_of_nat_less)

lemma stream_events_parse:
  assumes "sane_header (s_framing s)" and "length d < 2 ^ 63"
  shows "stream_events ford s ts dir d src dst =
    map_option (\<lambda>ms. Inr (map (tcp_event ford ts dir src dst) ms)) (parse_stream s d)"
proof (cases "d = []")
  case False
  then show ?thesis
    using decode_parses [OF byte_object [OF assms(2)] assms(1)]
    by (cases "parse_stream s d") (simp_all add: stream_events_def decode_to_messages_def to_message_def
        new_message_def from_message_def tcp_event_def)
qed (simp add: stream_events_def parse_stream_def)

lemma datagram_events_parse:
  assumes "sane_header (s_framing s)" and "small_payload p"
  shows "datagram_events ford s p = map_option Inr (packet_events ford s p)"
  using decode_parses [OF small_payload_object [OF assms(2)] assms(1)] assms(2)
  by (cases "parse_stream s (payload_bytes p)") (simp_all add: datagram_events_def decode_to_messages_def
      small_payload_def packet_events_def to_message_def new_message_def from_message_def udp_event_def)

text \<open>A loop none of whose steps fails: it returns if all steps do.\<close>

lemma collect_those:
  assumes "\<forall>x \<in> set xs. g x = map_option Inr (h x)"
  shows "collect g xs out = map_option (\<lambda>ess. Inr (out @ concat ess)) (those (map h xs))"
  using assms
proof (induction xs arbitrary: out)
  case (Cons x xs)
  then show ?case by (cases "h x") (simp_all add: option.map_comp o_def)
qed simp

lemma those_eq_None: "those xs = None \<longleftrightarrow> None \<in> set xs"
  by (induction xs) (auto split: option.splits)

section \<open>Conversations\<close>

lemma tcp_conversation:
  assumes s: "sane_header (s_framing s)" and ps: "small_capture ps" "length ps < 2 ^ 64"
    and k: "k \<in> make_key ` set ps" "k_protocol k = TCP" and hp: "\<forall>p \<in> set ps. has_payload p"
    and run: "run_flow (packets_of k ps) (new_flow k) = Inr f"
  shows "flow_events ford s f = map_option Inr (conversation_events ford s ps k)"
proof -
  let ?qs = "packets_of k ps"
  from run k(2) obtain g where g: "f = Tcp_Flow g" "ofold tcp_on_packet ?qs (new_tcp_flow k) = Inr g"
    by (auto simp: new_flow_def run_flow_def tcp_dispatch obind_eq_Inr)
  have qs: "?qs \<noteq> []" "length ?qs < 2 ^ 64"
    using k ps(2) le_less_trans [OF length_filter_le, of ps "2 ^ 64" "\<lambda>p. make_key p = k"]
    by (auto simp: packets_of_def filter_empty_conv)
  have new: "tf_key (new_tcp_flow k) = k" "tf_packet_count (new_tcp_flow k) = 0"
    "tf_client_to_server (new_tcp_flow k) = new_reassembler"
    "tf_server_to_client (new_tcp_flow k) = new_reassembler"
    by (simp_all add: new_tcp_flow_def)
  note run = tcp.run_key [OF g(2), unfolded new] tcp.run_seen [OF g(2) new(2) qs]
    tcp_run_sides [OF g(2), unfolded new, folded client_packets_def server_packets_def]
  have "\<And>p. p \<in> set (client_packets k ps) \<Longrightarrow> has_payload p" "\<And>p. p \<in> set (server_packets k ps) \<Longrightarrow> has_payload p"
    using hp by (auto simp: client_packets_def server_packets_def packets_of_def)
  then have streams: "r_stream (tf_client_to_server g) = stream_of (client_packets k ps)"
    "r_stream (tf_server_to_client g) = stream_of (server_packets k ps)"
    using run(3) feed_stream_of by blast+
  have "small_capture (client_packets k ps)" "small_capture (server_packets k ps)"
    using ps(1) by (simp_all add: client_packets_def server_packets_def small_capture_filter small_capture_packets_of)
  then have "length (stream_of (client_packets k ps)) < 2 ^ 63" "length (stream_of (server_packets k ps)) < 2 ^ 63"
    using stream_of_length by (auto simp: small_capture_def intro: le_less_trans)
  note stream_events_parse [OF s this(1)] stream_events_parse [OF s this(2)]
  then show ?thesis
    using run(1,2) k(2)
    by (cases "parse_stream s (stream_of (client_packets k ps))"; cases "parse_stream s (stream_of (server_packets k ps))")
      (simp_all add: g(1) Let_def streams conversation_events_def connection_events_def)
qed

lemma udp_conversation:
  assumes s: "sane_header (s_framing s)" and ps: "\<forall>p \<in> set ps. small_payload p" and k: "k_protocol k \<noteq> TCP"
    and run: "run_flow (packets_of k ps) (new_flow k) = Inr f"
  shows "flow_events ford s f = map_option Inr (conversation_events ford s ps k)"
proof -
  obtain g where g: "f = Udp_Flow g" "u_datagrams (uf_tracker g) = packets_of k ps"
    using run k udp_flow_of_packets [of "packets_of k ps" k f] by (auto simp: new_flow_def)
  have "\<forall>p \<in> set (packets_of k ps). datagram_events ford s p = map_option Inr (packet_events ford s p)"
    using ps datagram_events_parse [OF s] by (auto simp: packets_of_def)
  from collect_those [OF this, of "[]"] k show ?thesis
    by (simp add: g conversation_events_def option.map_comp o_def)
qed

section \<open>The timeline and the program\<close>

lemma build_exactly:
  assumes ps: "\<forall>p \<in> set ps. trackable p" and orders: "iteration_order ord" "event_sorter srt"
    and ev: "\<And>k f. k \<in> make_key ` set ps \<Longrightarrow> run_flow (packets_of k ps) (new_flow k) = Inr f \<Longrightarrow>
      flow_events ford s f = map_option Inr (ev k)"
  obtains t where "track ps = Inr t" "\<exists>k \<in> make_key ` set ps. ev k = None" "build ord ford srt s t = None"
  | t es where "track ps = Inr t" "\<forall>k \<in> make_key ` set ps. ev k \<noteq> None" "build ord ford srt s t = Some (Inr es)"
      "sorted (map te_timestamp_us es)" "mset es = (\<Sum>k \<in> make_key ` set ps. mset (the (ev k)))"
proof (cases "\<exists>k \<in> make_key ` set ps. ev k = None")
  case True
  obtain t where t: "track ps = Inr t" "set (map fst t) = make_key ` set ps"
    "\<forall>(k, f) \<in> set t. run_flow (packets_of k ps) (new_flow k) = Inr f"
    using track_table [OF ps] by blast
  have key: "flow_key_of f = k" if "(k, f) \<in> set t" for k f
    using t(3) that fl.run_key new_flow_facts(1) by (fastforce simp: run_flow_def)
  have flow: "flow_events ford s f = map_option Inr (ev k)" if "(k, f) \<in> set t" for k f
    using ev [of k f] t(2,3) that by force
  have flows: "set (get_flows ord t) = snd ` set t" by (rule get_flows_set [OF orders(1)])
  have "\<forall>f \<in> set (get_flows ord t). flow_events ford s f = map_option Inr (ev (flow_key_of f))"
    using flow key by (auto simp: flows)
  note loop = collect_those [OF this, of "[]"]
  from True obtain k where k: "k \<in> make_key ` set ps" "ev k = None" by blast
  then obtain f where "(k, f) \<in> set t" using t(2) by force
  then have "f \<in> set (get_flows ord t)" "ev (flow_key_of f) = None" using k(2) key by (force simp: flows)+
  then have "None \<in> set (map (\<lambda>f. ev (flow_key_of f)) (get_flows ord t))" by (force simp: image_iff)
  then have "those (map (\<lambda>f. ev (flow_key_of f)) (get_flows ord t)) = None" by (simp only: those_eq_None)
  then have "build ord ford srt s t = None" using loop by (simp add: build_def)
  with t(1) True that(1) show thesis by blast
next
  case False
  then have all: "\<forall>k \<in> make_key ` set ps. ev k \<noteq> None" by simp
  have "\<exists>t es. track ps = Inr t \<and> build ord ford srt s t = Some (Inr es) \<and>
      sorted (map te_timestamp_us es) \<and> mset es = (\<Sum>k \<in> make_key ` set ps. mset (the (ev k)))"
    by (rule build_tracked [OF ps orders]) (use ev all in fastforce)
  then show thesis by (elim exE conjE) (rule that(2) [OF _ all])
qed

lemma decode_meaning:
  assumes inp: "decode_input env f sp s ps" and s: "sane_header (s_framing s)"
    and ps: "small_capture ps" "length ps < 2 ^ 64" "\<forall>p \<in> set ps. p_payload p \<noteq> None"
  shows "if \<exists>k \<in> make_key ` set ps. conversation_events (e_field_order env) s ps k = None
    then main env (decode_argv prog f sp) w = None
    else \<exists>es. main env (decode_argv prog f sp) w = Some (Inr ((0, [loaded_line s, opened_line f,
        Out (summary_text (card (make_key ` set ps)) (conversations TCP ps) (conversations UDP ps)),
        Out (print_timeline es)]), None, w)) \<and>
      sorted (map te_timestamp_us es) \<and>
      mset es = (\<Sum>k \<in> make_key ` set ps. mset (the (conversation_events (e_field_order env) s ps k)))"
proof -
  let ?ev = "conversation_events (e_field_order env) s ps"
  obtain rs where rs: "capture_packets rs = Inr ps"
    and orders: "iteration_order (e_iteration env)" "event_sorter (e_sorter env)"
    using inp by (auto simp: decode_input_def)
  have known: "\<forall>p \<in> set ps. p_protocol p \<noteq> UNKNOWN" using captured_protocol [OF rs] by blast
  have small: "\<forall>p \<in> set ps. small_payload p" "\<forall>p \<in> set ps. has_payload p"
    using small_capture_payload [OF ps(1)] ps(3) by blast+
  have tr: "\<forall>p \<in> set ps. trackable p"
  proof
    fix p assume "p \<in> set ps"
    then show "trackable p" using known small(2) by (cases "p_protocol p") (auto simp: trackable_def)
  qed
  show ?thesis
  proof (rule build_exactly [OF tr orders, where ford = "e_field_order env" and s = s and ev = ?ev])
    fix k g
    assume "k \<in> make_key ` set ps" "run_flow (packets_of k ps) (new_flow k) = Inr g"
    then show "flow_events (e_field_order env) s g = map_option Inr (?ev k)"
      using tcp_conversation [OF s ps(1,2) _ _ small(2)] udp_conversation [OF s small(1)] by blast
  next
    fix t
    assume t: "track ps = Inr t" "\<exists>k \<in> make_key ` set ps. ?ev k = None"
      "build (e_iteration env) (e_field_order env) (e_sorter env) s t = None"
    have "ofold decode_callback ps [] = Inr t"
      using decode_callback_track [of ps "[]"] known t(1) by (simp add: track_def)
    then have "main env (decode_argv prog f sp) w = None" by (simp add: decode_run [OF inp] t(3))
    with t(2) show ?thesis by simp
  next
    fix t es
    assume t: "track ps = Inr t" "\<forall>k \<in> make_key ` set ps. ?ev k \<noteq> None"
      "build (e_iteration env) (e_field_order env) (e_sorter env) s t = Some (Inr es)"
      "sorted (map te_timestamp_us es)" "mset es = (\<Sum>k \<in> make_key ` set ps. mset (the (?ev k)))"
    have "flow_report (e_iteration env) t =
        summary_text (card (make_key ` set ps)) (conversations TCP ps) (conversations UDP ps)"
      by (rule flow_report_track [OF tr ps(2) orders(1) t(1)])
    with decode_output [OF inp t(1,3), of prog w] t(2,4,5) show ?thesis by auto
  qed
qed

text \<open>C1: The command \<^verbatim>\<open>decode\<close>, exactly: for every capture whose packets have payload buffers, of any
  protocols in any order, and every schema whose header length does not wrap around, the
  program writes two log lines, the number of conversations and one timeline, sorted by time, that consists of exactly the
  events of the conversations (for TCP the messages the reference parser finds in the bytes each direction kept,
  for UDP those it finds in each datagram), and it exits with 0; unless in some conversation the parser
  meets a message of size zero: then the program never ends.\<close>

theorem decode_prints_exactly:
  assumes "decode_input env f sp s ps" and "sane_header (s_framing s)"
    and "small_capture ps" "length ps < 2 ^ 64" "\<forall>p \<in> set ps. p_payload p \<noteq> None"
  shows "if \<exists>k \<in> make_key ` set ps. conversation_events (e_field_order env) s ps k = None
    then main env (decode_argv prog f sp) w = None
    else \<exists>es. main env (decode_argv prog f sp) w = Some (Inr ((0, [loaded_line s, opened_line f,
        Out (summary_text (card (make_key ` set ps)) (conversations TCP ps) (conversations UDP ps)),
        Out (print_timeline es)]), None, w)) \<and>
      sorted (map te_timestamp_us es) \<and>
      mset es = (\<Sum>k \<in> make_key ` set ps. mset (the (conversation_events (e_field_order env) s ps k)))"
  by (rule decode_meaning [OF assms])

text \<open>Two captures: a datagram, a frame that is no packet and a connection, under the schema of the
  vehicle protocol; and one segment, under a schema whose length counts the header, that
  announces a message of size zero.\<close>

definition looping_tree :: ytree where
  "looping_tree = YMap [(''name'', YStr []), (''transport'', YStr ''tcp''), (''endian'', YStr []),
     (''framing'', YMap [(''type'', YStr ''length_field''), (''length_field'', YStr ''n''),
        (''header_len'', YNum 2), (''length_includes_header'', YBool True)]),
     (''message'', YSeq [YMap [(''name'', YStr ''n''), (''type'', YStr ''u16'')]]),
     (''payload'', YMap []), (''analysis'', YMap [])]"

lemma looping_loads: "load_from_yaml (tree_yaml looping_tree) sp = Inr (ok total_length_schema)"
proof -
  have "describes (tree_yaml looping_tree) looping_tree total_length_schema"
    by (simp add: describes_def tree_yaml_def looping_tree_def total_length_schema_def new_schema_def
        new_framing_def has_string_def has_u64_def has_bool_def lacks_def opt_string_def describes_framing_def
        describes_field_def new_field_def_def)
  then show ?thesis
    using load_described [of "tree_yaml looping_tree" sp looping_tree]
    by (simp add: load_from_yaml_def) (simp add: tree_yaml_def)
qed

lemma cut_record_captured:
  "length pl < 1000 \<Longrightarrow> pl \<noteq> [] \<Longrightarrow> capture_packets [cut_record n pl] = Inr [cut_packet n pl]"
  using cut_record_parses [of pl n]
  by simp (simp add: cut_packet_def cut_record_def header_timestamp_def)

lemma looping_conversation: "conversation_events ford total_length_schema [cut_packet 1 [0, 0]] cut_key = None"
proof -
  have "parse_stream total_length_schema [0, 0] = None"
    by (simp add: parse_stream_def total_length_schema_def new_schema_def new_field_def_def new_framing_def
      parse_frames.simps incomplete_def front_size_def front_length_def field_width_def be_val_def)
  then show ?thesis
    by (simp add: conversation_events_def cut_keys client_packets_def packets_of_def stream_of_def cut_payload)
qed

lemma mixed_captured:
  "capture_packets ([runt_record, beacon_record] @ cut_capture) = Inr ([beacon_packet] @ cut_packets)"
  by (rule capture_packets_append [OF beacon_captured cut_captured])

lemma mixed_keys: "make_key beacon_packet \<noteq> cut_key" "k_protocol (make_key beacon_packet) = UDP"
proof -
  show u: "k_protocol (make_key beacon_packet) = UDP" by (simp add: beacon_facts)
  show "make_key beacon_packet \<noteq> cut_key"
  proof
    assume "make_key beacon_packet = cut_key"
    with u cut_keys(6) show False by simp
  qed
qed

lemma mixed_sides:
  "client_packets cut_key ([beacon_packet] @ cut_packets) = cut_packets"
  "server_packets cut_key ([beacon_packet] @ cut_packets) = []"
  "packets_of cut_key ([beacon_packet] @ cut_packets) = cut_packets"
  "packets_of (make_key beacon_packet) ([beacon_packet] @ cut_packets) = [beacon_packet]"
  using mixed_keys(1) mixed_keys(1) [symmetric]
  by (simp_all add: client_packets_def server_packets_def packets_of_def cut_packets_def cut_keys)

lemma mixed_conversations:
  "conversation_events ford vehicle_tcp_schema ([beacon_packet] @ cut_packets) cut_key =
    Some (connection_events ford cut_key 3000000
      (map (frame_fields (s_fields vehicle_tcp_schema) []) [vehicle_frame 1 [7, 8], vehicle_frame 2 []]) [])"
  "conversation_events ford vehicle_tcp_schema ([beacon_packet] @ cut_packets) (make_key beacon_packet) = Some []"
proof -
  have sane: "sane_header (s_framing vehicle_tcp_schema)" by (simp add: sane_header_def vehicle_tcp_schema_def)
  have obj: "valid_object cut_bytes (of_nat (length cut_bytes))" by (rule byte_object) (simp add: cut_length)
  have "decode vehicle_tcp_schema (Some cut_bytes) (of_nat (length cut_bytes)) =
      Some (Inr (map (frame_fields (s_fields vehicle_tcp_schema) []) [vehicle_frame 1 [7, 8], vehicle_frame 2 []]))"
    by (rule decode_frames [OF vehicle_stream, of _ "vehicle_frame 3 []" 0])
      (use obj in \<open>auto simp: vehicle_frame_ok cut_bytes_def\<close>)
  then have cut: "parse_stream vehicle_tcp_schema cut_bytes =
      Some (map (frame_fields (s_fields vehicle_tcp_schema) []) [vehicle_frame 1 [7, 8], vehicle_frame 2 []])"
    using decode_parses [OF obj sane] by simp
  have "stream_of cut_packets = cut_bytes" "p_timestamp_us (hd cut_packets) = 3000000"
    by (simp_all add: stream_of_def cut_packets_def cut_piece_facts)
  then show "conversation_events ford vehicle_tcp_schema ([beacon_packet] @ cut_packets) cut_key =
    Some (connection_events ford cut_key 3000000
      (map (frame_fields (s_fields vehicle_tcp_schema) []) [vehicle_frame 1 [7, 8], vehicle_frame 2 []]) [])"
    unfolding conversation_events_def mixed_sides using cut
    by (simp add: cut_keys stream_of_def parse_stream_def [of _ "[]"])
  have "incomplete vehicle_tcp_schema [0xCA, 0xFE]" by (simp add: incomplete_def vehicle_tcp_schema_def)
  then have "parse_stream vehicle_tcp_schema [0xCA, 0xFE] = Some []"
    by (simp add: parse_stream_def parse_frames.simps) (simp add: vehicle_tcp_schema_def new_schema_def)
  then show "conversation_events ford vehicle_tcp_schema ([beacon_packet] @ cut_packets) (make_key beacon_packet) = Some []"
    unfolding conversation_events_def mixed_sides by (simp add: mixed_keys packet_events_def beacon_facts)
qed

theorem decode_prints_exactly_witness:
  "main (demo_env looping_tree [cut_record 1 [0, 0]]) (decode_argv ''gatewayforge'' ''b.pcap'' ''s.yaml'') (0, []) = None \<and>
   (\<exists>es. main (demo_env vehicle_tree ([runt_record, beacon_record] @ cut_capture))
      (decode_argv ''gatewayforge'' ''b.pcap'' ''s.yaml'') (0, []) =
      Some (Inr ((0, [loaded_line vehicle_tcp_schema, opened_line ''b.pcap'',
        Out (summary_text 2 1 1), Out (print_timeline es)]), None, (0, []))) \<and>
    mset es = mset (connection_events (\<lambda>m. m) cut_key 3000000
      (map (frame_fields (s_fields vehicle_tcp_schema) []) [vehicle_frame 1 [7, 8], vehicle_frame 2 []]) []))"
proof -
  let ?ps = "[beacon_packet] @ cut_packets"
  have one: "main (demo_env looping_tree [cut_record 1 [0, 0]]) (decode_argv ''gatewayforge'' ''b.pcap'' ''s.yaml'') (0, []) = None"
    using decode_prints_exactly [OF demo_input [OF looping_loads cut_record_captured] total_length_sane, of "[0, 0]" 1
        "''gatewayforge''" "(0, [])"]
    by (simp add: looping_conversation cut_keys cut_payload small_capture_def)
  have keys: "make_key ` set ?ps = {make_key beacon_packet, cut_key}" using cut_sides(2) by simp
  have some: "\<not> (\<exists>k \<in> make_key ` set ?ps. conversation_events (\<lambda>m. m) vehicle_tcp_schema ?ps k = None)"
    unfolding keys using mixed_conversations by auto
  have sane: "sane_header (s_framing vehicle_tcp_schema)" by (simp add: sane_header_def vehicle_tcp_schema_def)
  have cap: "small_capture ?ps" "length ?ps < 2 ^ 64" "\<forall>p \<in> set ?ps. p_payload p \<noteq> None"
    by (simp_all add: small_capture_def cut_packets_def cut_piece_facts beacon_facts)
      (simp add: beacon_packet_def udp_packet_def)
  have counts: "card {make_key beacon_packet, cut_key} = 2" "conversations TCP ?ps = 1" "conversations UDP ?ps = 1"
    using mixed_keys cut_keys(6) unfolding conversations_def keys
    by (simp_all add: card_insert_if Collect_conv_if conj_disj_distribR Collect_disj_eq)
  show ?thesis
    using decode_prints_exactly [OF demo_input [OF vehicle_tcp_loads mixed_captured] sane cap,
        of "''gatewayforge''" "(0, [])"] some mixed_keys(1)
    by (simp only: demo_env_simps if_False keys counts) (simp add: one mixed_conversations [simplified], blast)
qed

end
