(* ===== verification/Packet_Dissector.thy ===== *)
theory Packet_Dissector
  imports Packet_Parser
begin

text \<open>
  A reference dissector for captured frames, on lists of bytes and numbers, and the proof that
  \<open>Parse\<close> computes it on every completely captured frame. What the dissector does not mention the
  parser does not look at.
\<close>

section \<open>The dissector\<close>

text \<open>The big-endian number in the \<open>n\<close> bytes at \<open>off\<close>.\<close>

definition net :: "nat \<Rightarrow> nat \<Rightarrow> byte list \<Rightarrow> 'a::len word" where
  "net off n bs = of_nat (be_val (sub_bytes off n bs))"

definition dissect_segment :: "byte list \<Rightarrow> byte list \<Rightarrow> byte list \<Rightarrow> packet option" where
  "dissect_segment src dst seg =
     (if length seg < 20 then None
      else Some (tcp_packet src dst (net 0 2 seg) (net 2 2 seg) (net 4 4 seg) (net 8 4 seg) (seg ! 13)
             (drop (4 * (unat (seg ! 12) div 16)) seg)))"

definition dissect_datagram :: "byte list \<Rightarrow> byte list \<Rightarrow> byte list \<Rightarrow> packet option" where
  "dissect_datagram src dst seg =
     (if length seg < 8 then None
      else Some (udp_packet src dst (net 0 2 seg) (net 2 2 seg) (drop 8 seg)))"

text \<open>After 14 bytes, an IPv4 header of at least 20 bytes whose first byte gives its length.\<close>

definition dissect :: "byte list \<Rightarrow> packet option outcome" where
  "dissect d =
     (let ip = drop 14 d; header = 4 * (unat (ip ! 0) mod 16); proto = ip ! 9;
          src = sub_bytes 12 4 ip; dst = sub_bytes 16 4 ip
      in if length d < 34 \<or> unat (ip ! 0) div 16 \<noteq> 4 \<or> proto \<notin> {PROTO_TCP, PROTO_UDP} then Inr None
         else if length ip < header then Inl Out_Of_Bounds
         else Inr ((if proto = PROTO_TCP then dissect_segment else dissect_datagram) src dst (drop header ip)))"

section \<open>The parser computes it\<close>

lemma nibble_of_byte: "unat (b :: byte) div 16 mod 16 = unat b div 16"
proof -
  have "unat b div 16 < 16" using unat_byte_less [of b] by (simp add: less_mult_imp_div_less)
  then show ?thesis by simp
qed

lemma sub_bytes_take: "off + n \<le> k \<Longrightarrow> sub_bytes off n (take k bs) = sub_bytes off n bs"
  by (simp add: sub_bytes_def drop_take min_def)

lemma length_sub_bytes: "off + n \<le> length bs \<Longrightarrow> length (sub_bytes off n bs) = n"
  by (simp add: sub_bytes_def)

lemma net_host16: "off + 2 \<le> length bs \<Longrightarrow> ntohs (host16 off bs) = net off 2 bs"
  by (simp add: host16_def net_def length_sub_bytes)

lemma net_host32: "off + 4 \<le> length bs \<Longrightarrow> ntohl (host32 off bs) = net off 4 bs"
  by (simp add: host32_def net_def length_sub_bytes)

lemma tcp_of_net:
  assumes "20 \<le> length seg"
  shows "ntohs (tcp_src_port (tcp_of (take 20 seg))) = net 0 2 seg"
    "ntohs (tcp_dst_port (tcp_of (take 20 seg))) = net 2 2 seg"
    "ntohl (tcp_seq (tcp_of (take 20 seg))) = net 4 4 seg"
    "ntohl (tcp_ack (tcp_of (take 20 seg))) = net 8 4 seg"
    "tcp_flags (tcp_of (take 20 seg)) = seg ! 13"
    "tcp_data_offset_reserved (tcp_of (take 20 seg)) = seg ! 12"
  using assms by (simp_all add: tcp_of_def net_host16 net_host32) (simp_all add: net_def sub_bytes_take)

lemma udp_of_net:
  assumes "8 \<le> length seg"
  shows "ntohs (udp_src_port (udp_of (take 8 seg))) = net 0 2 seg"
    "ntohs (udp_dst_port (udp_of (take 8 seg))) = net 2 2 seg"
  using assms by (simp_all add: udp_of_def net_host16) (simp_all add: net_def sub_bytes_take)

lemma ip_of_net:
  assumes "20 \<le> length ip"
  shows "ip_to_string (ip_src_ip (ipv4_of (take 20 ip))) = dotted (sub_bytes 12 4 ip)"
    "ip_to_string (ip_dst_ip (ipv4_of (take 20 ip))) = dotted (sub_bytes 16 4 ip)"
proof -
  have word: "le_bytes 4 (unat (of_nat (le_val bs) :: u32)) = bs" if "length bs = 4" for bs
  proof -
    have "unat (of_nat (le_val bs) :: u32) = le_val bs"
      using le_val_less [of bs] that by (intro unat_of_nat_less) simp
    with that show ?thesis by simp
  qed
  show "ip_to_string (ip_src_ip (ipv4_of (take 20 ip))) = dotted (sub_bytes 12 4 ip)"
    "ip_to_string (ip_dst_ip (ipv4_of (take 20 ip))) = dotted (sub_bytes 16 4 ip)"
    using assms by (simp_all add: ipv4_of_def host32_def ip_to_string_def sub_bytes_take word length_sub_bytes)
qed

text \<open>The bytes behind a header, and the payload made of them.\<close>

lemma payload_tail:
  assumes "length d = unat len" and "length d < 2 ^ 63" and "unat off < 2 ^ 63" and "p_payload p = None"
  shows "with_payload d len off p =
    Inr (Some (p\<lparr>p_payload := (if drop (unat off) d = [] then None else Some (drop (unat off) d))\<rparr>))"
  using with_payload_safe [OF assms(1-3), of p] assms(4) by (cases p) simp

lemma parse_dissects:
  assumes d: "length d = unat len" "length d < 2 ^ 63"
  shows "parse (Some d) len = dissect d"
proof (cases "length d < 34 \<or> unat (d ! 14) div 16 \<noteq> 4")
  case True
  have "length d \<ge> 34 \<Longrightarrow> drop 14 d ! 0 = d ! 14" by simp
  with True show ?thesis by (auto simp: parse_headers [OF d] dissect_def Let_def)
next
  case False
  define ip where "ip = drop 14 d"
  define off where "off = 14 + ihl_bytes (d ! 14)"
  define seg where "seg = drop (unat off) d"
  have "20 \<le> length ip" using False by (auto simp: ip_def)
  moreover have "ip ! 0 = d ! 14" "ip ! 9 = d ! 23" using False by (simp_all add: ip_def)
  ultimately have ip: "20 \<le> length ip" "ip ! 0 = d ! 14" "ip ! 9 = d ! 23" by simp_all
  have off: "unat off = 14 + 4 * (unat (ip ! 0) mod 16)" using ip(2) by (simp add: off_def ip_end_nat)
  have seg: "seg = drop (4 * (unat (ip ! 0) mod 16)) ip" unfolding seg_def off ip_def drop_drop by (simp only: add.commute)
  have le: "unat off \<le> 74" using ip_end_bound by (simp add: off_def)
  have start: "parse (Some d) len = parse_transport d len off (ipv4_of (take 20 ip))"
    using False by (simp add: parse_headers [OF d] off_def ip_def)
  have proto: "ip_protocol (ipv4_of (take 20 ip)) = ip ! 9" using False by (simp add: ip_def)
  have short: "length d < unat off \<longleftrightarrow> length ip < 4 * (unat (ip ! 0) mod 16)"
    using False unfolding off ip_def by auto
  have len: "length d - unat off = length seg" by (simp add: seg_def)
  have data: "drop (unat (off + data_offset_bytes v)) d = drop (4 * (unat v div 16)) seg" for v
  proof -
    have "unat v div 16 < 16" using unat_byte_less [of v] by (simp add: less_mult_imp_div_less)
    then have "unat (off + data_offset_bytes v) = unat off + 4 * (unat v div 16)"
      using le by (subst size_add_nat) (simp_all add: nibble_of_byte)
    then show ?thesis by (simp add: seg_def ac_simps)
  qed
  have "unat (off + 8) = unat off + 8" using le by (simp add: size_add_nat)
  then have data8: "drop (unat (off + 8)) d = drop 8 seg" by (simp add: seg_def ac_simps)
  note tail = payload_tail [OF d header_end_bound(1) [OF le]] payload_tail [OF d header_end_bound(2) [OF le]]
  note outcomes = parse_tcp_outcome [OF d header_end_bound(3) [OF le], folded seg_def, unfolded short len]
    parse_udp_outcome [OF d header_end_bound(3) [OF le], folded seg_def, unfolded short len]
  have "unat (ip ! 0) div 16 = 4" "\<not> length d < 34" using False ip(2) by simp_all
  then have "dissect d = (if ip ! 9 \<notin> {PROTO_TCP, PROTO_UDP} then Inr None
      else if length ip < 4 * (unat (ip ! 0) mod 16) then Inl Out_Of_Bounds
      else Inr ((if ip ! 9 = PROTO_TCP then dissect_segment else dissect_datagram)
        (sub_bytes 12 4 ip) (sub_bytes 16 4 ip) seg))"
    unfolding dissect_def Let_def ip_def [symmetric] seg by simp
  then show ?thesis
    unfolding start parse_transport_def Let_def proto outcomes
    by (simp add: tail tcp_of_net udp_of_net ip_of_net [OF ip(1)] data data8 dissect_segment_def
        dissect_datagram_def tcp_packet_def udp_packet_def new_packet_def)
qed

text \<open>C9: The packet parser is the dissector: on every completely captured frame, of any length and
  contents, \<open>Parse\<close> returns nothing, or exactly the packet with the big-endian header fields and the
  payload at the offsets the two headers give, or reads outside the frame, as the dissector says.\<close>

theorem parse_is_dissector:
  assumes "length d = unat len" and "length d < 2 ^ 63"
  shows "parse (Some d) len = dissect d"
  by (rule parse_dissects [OF assms])

text \<open>A frame whose TCP header claims to have no length: it is accepted, and the header is
  handed out as payload.\<close>

definition flat_frame :: "byte list" where
  "flat_frame = replicate 14 0 @ [0x45, 0, 0, 0, 0, 0, 0, 0, 0, 6, 0, 0, 10, 0, 0, 1, 10, 0, 0, 2] @
     [0x0F, 0xA0, 0x23, 0x28, 0, 0, 0, 7, 0, 0, 0, 0, 0, 0x18, 0, 0, 0, 0, 0, 0]"

theorem parse_is_dissector_witness:
  "parse (Some flat_frame) 54 =
    Inr (Some (tcp_packet [10, 0, 0, 1] [10, 0, 0, 2] 4000 9000 7 0 0x18 (drop 34 flat_frame))) \<and>
   parse (Some (replicate 60 0)) 60 = Inr None"
proof -
  have ip: "drop 14 flat_frame = [0x45, 0, 0, 0, 0, 0, 0, 0, 0, 6, 0, 0, 10, 0, 0, 1, 10, 0, 0, 2] @
     [0x0F, 0xA0, 0x23, 0x28, 0, 0, 0, 7, 0, 0, 0, 0, 0, 0x18, 0, 0, 0, 0, 0, 0]"
    by (simp add: flat_frame_def)
  have "drop 34 flat_frame = drop 20 (drop 14 flat_frame)" "length flat_frame = 54" by (simp_all add: flat_frame_def)
  then have "dissect flat_frame =
      Inr (Some (tcp_packet [10, 0, 0, 1] [10, 0, 0, 2] 4000 9000 7 0 0x18 (drop 34 flat_frame)))"
    unfolding dissect_def Let_def ip
    by (simp add: dissect_segment_def net_def sub_bytes_def be_val_def PROTO_TCP_def PROTO_UDP_def)
  moreover have "dissect (replicate 60 0) = Inr None" by (simp add: dissect_def)
  ultimately show ?thesis
    using parse_is_dissector [of flat_frame 54] parse_is_dissector [of "replicate 60 0" 60]
    by (simp add: flat_frame_def)
qed

text \<open>What the parser does not read: the ethertype and both hardware addresses, the total length, the
  identification, the fragment offset, the time to live and the checksum. Two frames that differ
  only there are the same packet; padding behind the datagram is payload, and a later fragment is taken
  for a segment of its own.\<close>

lemma parse_ignores:
  assumes "length d = unat len" "length d < 2 ^ 63" "length d' = length d" "34 \<le> length d"
    and "d' ! 14 = d ! 14" "d' ! 23 = d ! 23" "drop 26 d' = drop 26 d" "5 \<le> unat (d ! 14) mod 16"
  shows "parse (Some d') len = parse (Some d) len"
proof -
  have tail: "drop (12 + i) (drop 14 d') = drop (12 + i) (drop 14 d)" for i
  proof -
    have "drop (12 + i) (drop 14 e) = drop i (drop 26 e)" for e :: "byte list" by (simp add: ac_simps)
    then show ?thesis using assms(7) by (simp del: drop_drop)
  qed
  have "drop (4 * (unat (d ! 14) mod 16)) (drop 14 d') = drop (4 * (unat (d ! 14) mod 16)) (drop 14 d)"
    using tail [of "4 * (unat (d ! 14) mod 16) - 12"] assms(8) by (simp del: drop_drop)
  moreover have "sub_bytes 12 4 (drop 14 d') = sub_bytes 12 4 (drop 14 d)"
    "sub_bytes 16 4 (drop 14 d') = sub_bytes 16 4 (drop 14 d)"
    using tail [of 0] tail [of 4] by (simp_all add: sub_bytes_def del: drop_drop)
  moreover have "drop 14 d' ! 0 = d ! 14" "drop 14 d' ! 9 = d ! 23" "drop 14 d ! 0 = d ! 14" "drop 14 d ! 9 = d ! 23"
    using assms(3-6) by simp_all
  ultimately have "dissect d' = dissect d"
    using assms(3) by (simp add: dissect_def Let_def del: drop_drop)
  then show ?thesis using assms(1-3) parse_dissects [OF assms(1,2)] parse_dissects [of d' len] by simp
qed

text \<open>The two ethertypes are declared, and nothing tells them apart: a frame marked as IPv6 is parsed
  as if it were IPv4.\<close>

definition ETHERTYPE_IPV4 :: u16 where
  "ETHERTYPE_IPV4 = 0x0800"

definition ETHERTYPE_IPV6 :: u16 where
  "ETHERTYPE_IPV6 = 0x86DD"

lemma ethertype_ignored:
  assumes "length macs = 12" "20 \<le> length ip" "5 \<le> unat (ip ! 0) mod 16" "14 + length ip = unat len" "14 + length ip < 2 ^ 63"
  shows "parse (Some (macs @ be_bytes 2 (unat ETHERTYPE_IPV6) @ ip)) len = parse (Some (macs @ be_bytes 2 (unat ETHERTYPE_IPV4) @ ip)) len"
  using assms by (intro parse_ignores) (simp_all add: nth_append)

end
