(* ===== verification/Repository_Tests.thy ===== *)
theory Repository_Tests
  imports Decode_Semantics Packet_Dissector
begin

text \<open>
  Test cases of the repository (\<^verbatim>\<open>tests/ut\<close>, \<^verbatim>\<open>tests/it\<close>, \<^verbatim>\<open>tests/st\<close>) run on the model:
  each lemma evaluates the definitions on the input of the cases it names and states at least what
  they assert. The cases of \<^verbatim>\<open>Buffer\<close>, \<^verbatim>\<open>FieldType\<close>, \<^verbatim>\<open>Result\<close> and \<^verbatim>\<open>SchemaLoader\<close> are instances of
  lemmas in the theories of these classes; those of the replay need sockets.
\<close>

section \<open>Command line, packets, keys and flows\<close>

text \<open>UT-CL-001 to UT-CL-006.\<close>

lemma ut_command_line:
  "parse_args [''gatewayforge''] = None"
  "map_option cl_command (parse_args [''gatewayforge'', ''--help'']) = Some ''--help''"
  "parse_args [''gatewayforge'', ''replay'', ''--pcap'', ''a.pcap'', ''--target'', ''127.0.0.1:9000'', ''--speed'', ''2.0''] =
    Some \<lparr>cl_command = ''replay'', cl_options =
      [(''pcap'', ''a.pcap''), (''target'', ''127.0.0.1:9000''), (''speed'', ''2.0'')]\<rparr>"
  "parse_args [''gatewayforge'', ''decode'', ''--verbose'', ''--pcap'', ''f.pcap''] =
    Some \<lparr>cl_command = ''decode'', cl_options = [(''verbose'', []), (''pcap'', ''f.pcap'')]\<rparr>"
  "get_or \<lparr>cl_command = ''decode'', cl_options = []\<rparr> ''pcap'' ''default.pcap'' = ''default.pcap''"
  by (simp_all add: parse_args_def get_or_def starts_with_def)

text \<open>UT-PKT-001, UT-PKT-003 to UT-PKT-005.\<close>

lemma ut_packet:
  "p_protocol new_packet = UNKNOWN" "p_src_port new_packet = 0"
  "set_payload (Some [0xDE, 0xAD, 0xBE, 0xEF]) 4 new_packet =
    Inr (new_packet\<lparr>p_payload := Some [0xDE, 0xAD, 0xBE, 0xEF]\<rparr>)"
  "p_tcp_flags p = 0x02 \<Longrightarrow> is_syn p \<and> \<not> is_fin p \<and> \<not> is_rst p \<and> \<not> is_ack p"
  "p_tcp_flags p = 0x11 \<Longrightarrow> is_fin p \<and> is_ack p \<and> \<not> is_syn p \<and> \<not> is_rst p"
  by (simp_all add: new_packet_def set_payload_def mem_read_def is_syn_def is_fin_def is_rst_def is_ack_def)

text \<open>UT-FK-003 and UT-FK-004, which compares normal forms only.\<close>

lemma ut_flow_key:
  "normalized \<lparr>k_src_ip = ''10.0.0.2'', k_src_port = 5678, k_dst_ip = ''10.0.0.1'', k_dst_port = 1234, k_protocol = UDP\<rparr> =
    \<lparr>k_src_ip = ''10.0.0.1'', k_src_port = 1234, k_dst_ip = ''10.0.0.2'', k_dst_port = 5678, k_protocol = UDP\<rparr>"
  "normalized \<lparr>k_src_ip = ''10.0.0.1'', k_src_port = 1234, k_dst_ip = ''10.0.0.2'', k_dst_port = 5678, k_protocol = UDP\<rparr> =
    \<lparr>k_src_ip = ''10.0.0.1'', k_src_port = 1234, k_dst_ip = ''10.0.0.2'', k_dst_port = 5678, k_protocol = UDP\<rparr>"
  by (simp_all add: normalized_def less_char_def)

text \<open>UT-TR-001, UT-TR-002, UT-UDT-001, UT-UDT-002.\<close>

lemma ut_trackers:
  "reassembler_byte_count new_reassembler = 0"
  "add_segment (tcp_segment 1000 [1, 2, 3, 4]) True new_reassembler =
    Inr \<lparr>r_stream = [1, 2, 3, 4], r_next_seq = 1004, r_initialized = True\<rparr>"
  "datagram_count new_datagram_tracker = 0" "datagram_byte_count new_datagram_tracker = Inr 0"
  "datagram_count (add_datagram (tcp_segment 0 [1, 2]) new_datagram_tracker) = 1"
  "datagram_byte_count (add_datagram (tcp_segment 0 [1, 2]) new_datagram_tracker) = Inr 2"
  by (simp_all add: reassembler_byte_count_def new_reassembler_def add_segment_eq datagram_count_def
      new_datagram_tracker_def datagram_byte_count_def add_datagram_def)

text \<open>UT-FT-002: a segment with an empty payload buffer.\<close>

lemma ut_flow_tracker:
  assumes "make_key p = k" "p_protocol p = TCP" "p_payload p = Some []"
  shows "\<exists>f. track [p] = Inr [(k, Tcp_Flow f)]"
  using assms by (auto simp: track_def tracker_on_packet_eq new_flow_def make_key_protocol [symmetric]
      tcp_on_packet_def Let_def add_segment_eq has_payload_def simp del: make_key_protocol)

section \<open>Schemas and the decoder\<close>

definition one_field :: "string \<Rightarrow> field_type \<Rightarrow> protocol_schema" where
  "one_field n t = new_schema\<lparr>s_transport := ''udp'', s_fields := [plain_field n t]\<rparr>"

text \<open>UT-BD-001 to UT-BD-003.\<close>

lemma ut_decode_field:
  assumes "field_width t = n" "n \<noteq> 0" "length bs = n"
  shows "decode (one_field f t) (Some bs) (of_nat n) = Some (Inr [[(f, field_of t bs)]])"
proof -
  have n: "n \<le> 8" using assms(1) by (cases t) (auto simp: field_width_def)
  have "valid_object bs (of_nat n)"
    using n assms(3) by (simp add: valid_object_def unat_of_nat_less)
  moreover have "sane_header (s_framing (one_field f t))"
    by (simp add: sane_header_def one_field_def new_schema_def new_framing_def)
  moreover have "parse_stream (one_field f t) bs = Some [[(f, field_of t bs)]]"
    using assms by (auto simp: parse_stream_def one_field_def new_schema_def is_variable_def to_fields_def
        plain_field_def new_field_def_def)
  ultimately show ?thesis using decode_parses by simp
qed

text \<open>IT-DS-002 and IT-DS-003: one message of each example schema.\<close>

definition tcp_sample :: "byte list" where
  "tcp_sample = [0xCA, 0xFE, 1, 1, 0, 0, 0, 1, 0, 0]"

definition udp_sample :: "byte list" where
  "udp_sample = [0xCA, 0xFE, 1, 1, 0, 0, 0, 0, 0, 0, 0x27, 0x11, 0, 0, 0, 1, 0, 0, 0x01, 0x8D, 0, 0, 0x27, 0x10, 0, 0]"

definition tcp_message :: fields where
  "tcp_message = [(''magic'', VU16 0xCAFE), (''version'', VU8 1), (''msg_type'', VU8 1), (''seq'', VU32 1),
     (''payload_len'', VU16 0)]"

lemma tcp_sample_step:
  "parse_frames vehicle_tcp_schema (tcp_sample @ r) = map_option ((#) tcp_message) (parse_frames vehicle_tcp_schema r)"
proof -
  note schema = vehicle_tcp_schema_def new_schema_def plain_field_def new_field_def_def field_width_def be_val_def
  have "front_length vehicle_tcp_schema (tcp_sample @ r) = 0"
    by (simp add: schema front_length_def tcp_sample_def)
  then have z: "front_size vehicle_tcp_schema (tcp_sample @ r) = 10"
    by (simp add: schema front_size_def)
  moreover have "\<not> incomplete vehicle_tcp_schema (tcp_sample @ r)"
    unfolding incomplete_def z by (simp add: schema tcp_sample_def)
  moreover have "front_message vehicle_tcp_schema (tcp_sample @ r) = tcp_message"
    unfolding front_message_def z
    by (simp add: schema tcp_sample_def tcp_message_def is_variable_def to_fields_def)
  ultimately show ?thesis
    by (simp add: parse_frames.simps [of _ "tcp_sample @ r"]) (simp add: tcp_sample_def)
qed

lemma parse_tcp_samples:
  "parse_stream vehicle_tcp_schema (concat (replicate n tcp_sample)) = Some (replicate n tcp_message)"
proof -
  have "parse_frames vehicle_tcp_schema (concat (replicate n tcp_sample)) = Some (replicate n tcp_message)"
    by (induction n) (simp_all add: tcp_sample_step parse_frames.simps [of _ "[]"] incomplete_def)
  then show ?thesis by (simp add: parse_stream_def vehicle_tcp_schema_def new_schema_def tcp_sample_def)
qed

lemma it_decode_tcp: "decode vehicle_tcp_schema (Some tcp_sample) 10 = Some (Inr [tcp_message])"
proof -
  have "valid_object tcp_sample 10" by (simp add: valid_object_def tcp_sample_def)
  moreover have "sane_header (s_framing vehicle_tcp_schema)" by (simp add: sane_header_def vehicle_tcp_schema_def)
  ultimately show ?thesis using decode_parses parse_tcp_samples [of 1] by simp
qed

text \<open>The device id and the time stamp, in network order on the wire, come out byte by byte reversed.\<close>

lemma it_decode_udp:
  "decode vehicle_udp_schema (Some udp_sample) 26 = Some (Inr [[(''magic'', VU16 0xCAFE), (''version'', VU8 1),
    (''msg_type'', VU8 1), (''device_id'', VU64 0x1127000000000000), (''seq'', VU32 1),
    (''timestamp'', VU64 0x102700008D010000), (''payload_len'', VU16 0)]])"
proof -
  have "valid_object udp_sample 26" by (simp add: valid_object_def udp_sample_def)
  moreover have "sane_header (s_framing vehicle_udp_schema)" by (simp add: sane_header_def vehicle_udp_schema_def new_framing_def)
  moreover have "parse_stream vehicle_udp_schema udp_sample = Some [[(''magic'', VU16 0xCAFE), (''version'', VU8 1),
    (''msg_type'', VU8 1), (''device_id'', VU64 0x1127000000000000), (''seq'', VU32 1),
    (''timestamp'', VU64 0x102700008D010000), (''payload_len'', VU16 0)]]"
    by (simp add: parse_stream_def vehicle_udp_schema_def new_schema_def udp_sample_def field_width_def
        is_variable_def be_val_def to_fields_def plain_field_def new_field_def_def)
  ultimately show ?thesis using decode_parses by simp
qed

section \<open>From frames to the timeline\<close>

text \<open>\<^verbatim>\<open>MakeTcpPacket\<close> and \<^verbatim>\<open>MakeUdpPacket\<close> of the tests.\<close>

definition make_tcp_frame :: "byte list \<Rightarrow> u16 \<Rightarrow> byte list \<Rightarrow> u16 \<Rightarrow> u32 \<Rightarrow> byte list \<Rightarrow> byte list" where
  "make_tcp_frame sip sp dip dp seq pl = replicate 12 0 @ [8, 0] @
     [0x45, 0] @ be_bytes 2 (20 + 20 + length pl) @ [0, 0, 0, 0, 64, 6, 0, 0] @ sip @ dip @
     be_bytes 2 (unat sp) @ be_bytes 2 (unat dp) @ be_bytes 4 (unat seq) @ [0, 0, 0, 0, 0x50, 0x10, 0, 0, 0, 0, 0, 0] @ pl"

definition make_udp_frame :: "byte list \<Rightarrow> u16 \<Rightarrow> byte list \<Rightarrow> u16 \<Rightarrow> byte list \<Rightarrow> byte list" where
  "make_udp_frame sip sp dip dp pl = replicate 12 0 @ [8, 0] @
     [0x45, 0] @ be_bytes 2 (20 + 8 + length pl) @ [0, 0, 0, 0, 64, 17, 0, 0] @ sip @ dip @
     be_bytes 2 (unat sp) @ be_bytes 2 (unat dp) @ be_bytes 2 (8 + length pl) @ [0, 0] @ pl"

text \<open>ST-DEC-001 to ST-DEC-003, UT-PP-001, UT-PP-002.\<close>

lemma zero_word_bytes: "be_bytes 4 0 = [0, 0, 0, 0]"
  using be_bytes_val [of "[0, 0, 0, 0]" 4] by (simp add: be_val_def)

lemma frame_lengths:
  assumes "length sip = 4" "length dip = 4"
  shows "length (make_tcp_frame sip sp dip dp sq pl) = 54 + length pl"
    "length (make_udp_frame sip sp dip dp pl) = 42 + length pl"
  using assms by (simp_all add: make_tcp_frame_def make_udp_frame_def)

lemma st_parse_tcp:
  assumes "length sip = 4" "length dip = 4" "length pl < 1000"
  shows "parse (Some (make_tcp_frame sip sp dip dp sq pl)) (of_nat (54 + length pl)) =
    Inr (Some (tcp_packet sip dip sp dp sq 0 0x10 pl))"
proof -
  have eq: "make_tcp_frame sip sp dip dp sq pl = tcp_frame (replicate 12 0 @ [8, 0])
      ([0] @ be_bytes 2 (20 + 20 + length pl) @ [0, 0, 0, 0, 64, 0, 0]) sip dip [] sp dp sq 0 0x10 [0, 0, 0, 0, 0, 0] [] pl"
    unfolding make_tcp_frame_def tcp_frame_def ipv4_bytes_def tcp_bytes_def PROTO_TCP_def
    by (simp add: zero_word_bytes)
  from parse_tcp_frame [OF _ _ assms(1,2) _ _ _ eq] show ?thesis
    using frame_lengths(1) [OF assms(1,2)] assms(3) by (simp add: ip_options_ok_def unat_of_nat_less del: of_nat_add)
qed

lemma st_parse_udp:
  assumes "length sip = 4" "length dip = 4" "length pl < 1000"
  shows "parse (Some (make_udp_frame sip sp dip dp pl)) (of_nat (42 + length pl)) =
    Inr (Some (udp_packet sip dip sp dp pl))"
proof -
  have eq: "make_udp_frame sip sp dip dp pl = udp_frame (replicate 12 0 @ [8, 0])
      ([0] @ be_bytes 2 (20 + 8 + length pl) @ [0, 0, 0, 0, 64, 0, 0]) sip dip [] sp dp (be_bytes 2 (8 + length pl) @ [0, 0]) pl"
    unfolding make_udp_frame_def udp_frame_def ipv4_bytes_def udp_bytes_def PROTO_UDP_def
    by simp
  from parse_udp_frame [OF _ _ assms(1,2) _ _ eq] show ?thesis
    using frame_lengths(2) [OF assms(1,2)] assms(3) by (simp add: ip_options_ok_def unat_of_nat_less del: of_nat_add)
qed

lemma ut_parse_short: "parse None 0 = Inr None" "parse (Some (replicate 10 0)) 10 = Inr None"
  by (simp add: parse_def) (subst parse_dissects, simp_all add: dissect_def)

definition seg :: "u32 \<Rightarrow> byte list \<Rightarrow> packet" where
  "seg n pl = tcp_packet [10, 0, 0, 1] [10, 0, 0, 2] 12345 9000 n 0 0x10 pl"

definition seg_key :: flow_key where
  "seg_key = make_key (seg 0 [])"

lemma seg_facts:
  "make_key (seg n pl) = seg_key" "p_protocol (seg n pl) = TCP" "p_tcp_seq (seg n pl) = n"
  "p_timestamp_us (seg n pl) = 0" "is_client_side seg_key (seg n pl)" "k_protocol seg_key = TCP"
  using cut_addresses
  by (simp_all add: seg_def tcp_packet_def seg_key_def make_key_def is_client_side_def normalized_def new_packet_def)

lemma seg_payload:
  assumes "pl \<noteq> []" "length pl < 1000"
  shows "payload_bytes (seg n pl) = pl" "has_payload (seg n pl)"
  using assms by (simp_all add: seg_def tcp_packet_def payload_bytes_def has_payload_def)

text \<open>ST-DEC-005: three segments of one connection, the last two out of sequence, are one flow of
  three packets; ST-DEC-004: a segment and a datagram are two flows.\<close>

lemma st_aggregation:
  "\<exists>f. track [seg 10 [1, 2], seg 20 [1, 2], seg 30 [1, 2]] = Inr [(seg_key, f)] \<and> flow_packet_count f = 3"
proof -
  let ?ps = "[seg 10 [1, 2], seg 20 [1, 2], seg 30 [1, 2]]"
  have "\<forall>p \<in> set ?ps. trackable p" by (simp add: trackable_def seg_facts seg_payload)
  from track_table [OF this] obtain t where t: "track ?ps = Inr t" "distinct (map fst t)" "set (map fst t) = {seg_key}"
    "\<forall>(k, f) \<in> set t. run_flow (packets_of k ?ps) (new_flow k) = Inr f"
    by (auto simp: seg_facts)
  then have "length t = 1" using distinct_card [OF t(2)] by simp
  with t(3) obtain f where f: "t = [(seg_key, f)]" by (cases t) auto
  have "packets_of seg_key ?ps = ?ps" by (simp add: packets_of_def seg_facts)
  with t(4) f have r: "run_flow ?ps (new_flow seg_key) = Inr f" by simp
  have "flow_packet_count (new_flow seg_key) = 0" by (simp add: new_flow_def seg_facts new_tcp_flow_def)
  from this fl.run_count [OF r [unfolded run_flow_def]] have "flow_packet_count f = 3" by simp
  with t(1) f show ?thesis by simp
qed

text \<open>IT-DS-001 and ST-DEC-006: two messages in two segments are the events of the two messages.\<close>

lemma it_pipeline:
  "conversation_events ford vehicle_tcp_schema [seg 1 tcp_sample, seg 11 tcp_sample] seg_key =
    Some (connection_events ford seg_key 0 [tcp_message, tcp_message] [])"
proof -
  let ?ps = "[seg 1 tcp_sample, seg 11 tcp_sample]"
  have p: "tcp_sample \<noteq> []" "length tcp_sample = 10" by (simp_all add: tcp_sample_def)
  have "packets_of seg_key ?ps = ?ps" "client_packets seg_key ?ps = ?ps" "server_packets seg_key ?ps = []"
    by (simp_all add: packets_of_def client_packets_def server_packets_def seg_facts)
  moreover have "stream_of ?ps = concat (replicate 2 tcp_sample)"
    using p by (simp add: stream_of_def seg_facts seg_payload numeral_2_eq_2)
  ultimately show ?thesis
    using parse_tcp_samples [of 0] parse_tcp_samples [of 2]
    by (simp add: conversation_events_def seg_facts stream_of_def [of "[]"] numeral_2_eq_2)
qed

end
