(* ===== verification/Spec2Isabelle.thy ===== *)
theory Spec2Isabelle
  imports Failed_Runs Schema_Semantics Decoder_Typing Demo_Udp_Loop Packet_Heap Repository_Tests
begin

text \<open>
  GatewayForge reads a capture file, sorts its packets into TCP and UDP flows, reassembles the TCP
  streams, decodes streams and datagrams under a protocol schema given in YAML, and prints the
  decoded messages as a timeline (command \<^verbatim>\<open>decode\<close>); or it sends the payloads of a capture to a
  target, paced by their timestamps (command \<^verbatim>\<open>replay\<close>). This development models the C++ sources
  under \<^verbatim>\<open>include/gatewayforge\<close> and \<^verbatim>\<open>src\<close>, and the two demo servers.

  \<^bold>\<open>How C++ is read.\<close> (\<open>Prelude\<close>.) Integers are words of their width, \<open>size_t\<close> is 64 bits, the
  host is little-endian. An operation returns an \<open>outcome\<close>: a value, or a fault, which is an
  exception (\<open>Throw\<close>) or undefined behaviour made explicit (a null pointer followed, a read
  outside the object, an indeterminate value read, a bad \<open>free\<close>). Input memory is the list of
  its bytes, and each \<open>memcpy\<close> from it is checked against its size; so a theorem that
  a call yields \<open>Inr\<close> says that it neither faults nor throws. A call that may not return is a
  \<open>run\<close>, whose value \<open>None\<close> is the call that never returns: the two loops of that kind (framing in
  the decoder, reading in the capture reader) are \<open>partial_function (option)\<close>, there is no fuel, and
  that they return is proved. Members of a class are fields of a record; assignments update it.

  \<^bold>\<open>The parts\<close>, in the order of the data.
  \<^item> \<open>Packets\<close>: \<^verbatim>\<open>pcap/Packet\<close>, with the possibly null payload buffer as an option. \<open>Packet_Heap\<close> has
    the same class with the owning pointer, on the heap of \<open>Buffer_Heap\<close>: copies, moves, assignments and
    \<^verbatim>\<open>SetPayload\<close> on objects do what the operations of \<open>Packets\<close> do on values, while memory lasts; nothing
    is shared and nothing leaks.
  \<^item> \<open>Packet_Parser\<close>: \<^verbatim>\<open>pcap/PacketParser.cpp\<close> and the header structs. Exactly which frames are read out of
    bounds, and round trips of TCP and UDP frames with options. \<open>Packet_Dissector\<close> states the whole
    function once more, as a dissector that splits the frame with \<open>take\<close> and \<open>drop\<close>, and proves
    the two equal on every completely captured frame; it also shows which bytes are never looked at.
  \<^item> \<open>Pcap_Reader\<close>: \<^verbatim>\<open>pcap/PcapReader.cpp\<close>. Every record is visited once, in order; what the use of
    the wire length and the comparison in the loop condition lead to.
  \<^item> \<open>Flow_Key\<close>, \<open>Tcp_Reassembler\<close>, \<open>Flows\<close>, \<open>Flow_Tracker\<close>: the files of \<^verbatim>\<open>flow/\<close>. The abstract
    class \<^verbatim>\<open>Flow\<close> is the locale \<open>flow_class\<close>, interpreted for both classes and for their
    union. Normal forms of keys, the reassembled stream as a slice of what was sent,
    and demultiplexing: the table is what independent flows would give.
  \<^item> \<open>Field_Types\<close>, \<open>Schema_Loader\<close>: \<^verbatim>\<open>protocol/FieldType\<close>, \<^verbatim>\<open>FieldValue\<close>, \<^verbatim>\<open>Framing\<close>,
    \<^verbatim>\<open>ProtocolSchema\<close>, \<^verbatim>\<open>SchemaLoader.cpp\<close>. Schemas load as written, and loading never throws.
    \<open>Schema_Semantics\<close> says what a schema file means, entry by entry, and that loading succeeds exactly
    on the files that mean a schema.
  \<^item> \<open>Binary_Decoder\<close>: \<^verbatim>\<open>protocol/BinaryDecoder.cpp\<close>; \<open>Decoder_Safety\<close> shows that it reads inside its
    input and when it returns, \<open>Decoder_Framing\<close> that it recovers every complete frame of a stream
    (an encoder and the notion of frame are the specification; \<open>wire_frame\<close> is a frame in network order, of which
    64-bit integers come out reversed), \<open>Decoder_Datagrams\<close> the same for datagrams, complete and
    truncated, and \<open>Decoder_Typing\<close> that every decoded value has the type its field declares. \<open>Decoder_Reference\<close> is a reference parser by recursion on the bytes: the decoder
    agrees with it on every input, divergence included, and what it returns was in the input.
  \<^item> \<open>Messages\<close>, \<open>Timeline\<close>, \<open>Stream_Timeline\<close>, \<open>Timeline_Printer\<close>: \<^verbatim>\<open>protocol/DecodedMessage.h\<close> and
    \<^verbatim>\<open>timeline/\<close>. What the flows of a table contribute; from the packets of a capture to the events: every
    datagram, and every frame of both directions of a connection, appears exactly once; the text of the
    report and its times.
  \<^item> \<open>Replay\<close>: \<^verbatim>\<open>replay/\<close>. The abstract class \<^verbatim>\<open>Replayer\<close> is the locale \<open>replayer_class\<close>,
    interpreted for both senders and for their union. What reaches the wire; \<open>Replay_Pacing\<close> extends
    the locale to \<open>ready_replayer\<close> and shows that nothing is sent before its time, and that a
    second replay in the same process need not wait at all.
  \<^item> \<open>Command_Line\<close>, \<open>Commands\<close>: \<^verbatim>\<open>cli/\<close> and \<^verbatim>\<open>main.cpp\<close>, and the packets a capture file holds
    (\<open>capture_packets\<close>). \<open>Decode_Runs\<close> and \<open>Replay_Runs\<close> follow whole runs of the program: from the
    arguments and the records of the file to the lines logged, the summary and the timeline printed, or to what
    reaches the wire. \<open>Decode_Semantics\<close> gives the exact meaning of the command \<^verbatim>\<open>decode\<close> for captures of any
    mixture of protocols: the events are defined on the packets alone (\<open>conversation_events\<close>), and the
    program prints these and no others, or never ends. \<open>Failed_Runs\<close> has the files that cannot be opened, the
    targets that do not answer, the replays whose waiting times do not convert, and the exit codes of all runs.
    \<open>Decode_Totality\<close> takes arbitrary captures: both commands complete unless some packet has no payload buffer, and then they follow a null pointer.
  \<^item> \<open>Buffer_Heap\<close>: \<^verbatim>\<open>common/Buffer\<close> on an explicit heap, where the other theories take a buffer as
    the bytes it holds: it justifies that, by showing that programs over buffers behave as
    programs over byte strings, without leaks and double frees.
  \<^item> \<open>Results\<close>, \<open>Services\<close>: \<^verbatim>\<open>common/Result.h\<close>, \<^verbatim>\<open>Time\<close>, \<^verbatim>\<open>Logger\<close> and \<^verbatim>\<open>Error\<close>. What the
    process writes is a list of \<open>chunk\<close>s: text on one of the two streams, or a message handed to the
    logger, which \<open>main\<close> filters by the logger's level. The functions that log return their messages.
  \<^item> \<open>Demo_Servers\<close>: the handlers of \<^verbatim>\<open>examples/demo-server\<close>, and that they read the shipped
    schemas' messages as the decoder does, or where they do not. \<open>Demo_Server_Loops\<close> and
    \<open>Demo_Udp_Loop\<close> hold the rest of their \<^verbatim>\<open>main\<close>: the set-up as a function, the endless loops as
    the step relations \<open>tcp_step\<close> and \<open>udp_step\<close>, one step for an iteration, whose labels are the system
    calls with their results and the text written. Theorems about them are about all finite runs, by rule
    induction: the calls the TCP server makes are exactly sequences of visits, each closed before the next, and
    the receive buffer of the UDP server holds what earlier datagrams left (\<open>left_over\<close>).

  \<^item> \<open>Repository_Tests\<close>: test cases of the repository evaluated on the model; the definitions compute
    what the authors expect.

  \<^bold>\<open>Interaction.\<close> The reader calls a callback for each parsed packet: the tracker's \<open>OnPacket\<close>
  (\<open>decode_callback\<close>) or the engine's step (\<open>engine_step\<close>), each a function on the caller's state; the
  builder then visits the tracker's flows, the decoder is called on each stream or datagram, and the
  printer on the sorted events. \<open>cmd_decode\<close>, \<open>cmd_replay\<close> and \<open>main\<close> compose them as the code does.

  \<^bold>\<open>Parameters.\<close> Code outside the repository is an argument: libpcap (\<open>pcap_lib\<close>), yaml-cpp (\<open>yaml\<close>, whose
  lookups are taken to have no effect on the document),
  sockets, clock and sleeping (\<open>net\<close>), arithmetic and text of \<open>double\<close> (\<open>scale\<close>, the quotient by
  the speed converted to an integer, which may be undefined, \<open>e_stod\<close>, \<open>e_show\<close>, \<open>fmt\<close>), the text of \<open>errno\<close>, \<open>malloc\<close>'s choice of addresses (\<open>allocator\<close>), the hash functions of the standard library.
  So are the orders it leaves open: iteration over a hash table (\<open>iteration\<close>,
  \<open>field_order\<close>) and the arrangement of equal elements by \<open>std::sort\<close> (\<open>sorter\<close>). What is assumed of
  them is named: \<open>yields\<close> (a savefile delivers its records and then ends), \<open>net_ok\<close>, \<open>net_quiet\<close> and \<open>clock_ok\<close>
  (a send reports what reached the wire, opening and closing send nothing, a sleep lasts at least its
  time), \<open>net_logs\<close> (an observer's log of the sends), \<open>net_reliable\<close> (no call fails), \<open>alloc_fresh\<close>
  and \<open>alloc_succeeds\<close>, \<open>iteration_order\<close> (a permutation), \<open>event_sorter\<close> (given any strict weak
  ordering, a permutation that respects it; the code's comparator is \<open>event_before\<close>). Of a capture,
  \<open>convertible\<close> says that the quotients of its replay can all be converted.

  \<^bold>\<open>Bounds.\<close> An object has fewer than \<open>2 ^ 62\<close> or \<open>2 ^ 63\<close> bytes where sums of offsets must not wrap
  around (\<open>valid_object\<close>), a TCP stream fewer than \<open>2 ^ 32\<close> where its sequence numbers must determine
  positions, a flow fewer than \<open>2 ^ 64\<close> packets; the pacing theorem takes a target time
  below \<open>2 ^ 54\<close> microseconds, so that it can be read off a nanosecond clock of 64 bits.

  \<^bold>\<open>Not modelled.\<close> The time and the colour that spdlog adds to a message, and what a process has written before a fault
  ends it; the template \<^verbatim>\<open>Error::Format\<close>, which is declared only; source files without code; what follows the endless loops of the demo servers; the death of a process by
  \<^verbatim>\<open>SIGPIPE\<close> when it sends on a connection the peer has closed; exhaustion of memory other than in
  \<open>Buffer_Heap\<close> and \<open>Packet_Heap\<close>; scripts and build files. Lines of the headers that are prototypes of functions, or
  some of the accessors that read one member (a field of the record here), have no definition of their own.
\<close>

end
